(* ===== verification/Prelude.thy ===== *)
theory Prelude
  imports Main "HOL-Library.Word" "HOL-Library.Multiset"
begin

text \<open>
  Shared foundations of the development: the part of the Go language and of its standard
  library (\<^verbatim>\<open>strings\<close>, \<^verbatim>\<open>strconv\<close>) that the modelled sources use, with the generic
  lemmas that the component theories rest on.

  A Go \<^verbatim>\<open>string\<close> or \<^verbatim>\<open>[]byte\<close> is an Isabelle \<open>string\<close> (a list of 8-bit characters), so lengths
  and offsets count bytes as they do in Go.  A Go \<^verbatim>\<open>int\<close> or \<^verbatim>\<open>int64\<close> is an \<open>int\<close>; where the code
  can overflow, \<open>wrap64\<close> writes the wrap-around out.  A Go \<^verbatim>\<open>map\<close> whose iteration order matters
  is an association list in the order in which the runtime iterates it.
  \<^verbatim>\<open>TrimSpace\<close> and \<^verbatim>\<open>Fields\<close> know every Unicode white-space rune in its UTF-8 encoding;
  \<^verbatim>\<open>ToLower\<close> and \<^verbatim>\<open>EqualFold\<close> fold the ASCII letters and compare other bytes as they are.
\<close>


section \<open>Machine integers\<close>

definition wrap64 :: "int \<Rightarrow> int" where
  "wrap64 x = (x + 2 ^ 63) mod 2 ^ 64 - 2 ^ 63"

definition int64_range :: "int \<Rightarrow> bool" where
  "int64_range x \<longleftrightarrow> - (2 ^ 63) \<le> x \<and> x < 2 ^ 63"

lemma wrap64_range [simp]: "int64_range (wrap64 x)"
proof -
  have "0 \<le> (x + 2 ^ 63) mod 2 ^ 64" and "(x + 2 ^ 63) mod 2 ^ 64 < 2 ^ 64"
    by (simp_all only: pos_mod_sign pos_mod_bound zero_less_power zero_less_numeral)
  then show ?thesis by (simp add: wrap64_def int64_range_def)
qed

lemma wrap64_id: "int64_range x \<Longrightarrow> wrap64 x = x"
  by (simp add: wrap64_def int64_range_def mod_pos_pos_trivial)

definition MaxInt32 :: int where "MaxInt32 = 2 ^ 31 - 1"

section \<open>Errors and results\<close>

text \<open>A fallible Go function returns \<open>Inl e\<close> for its error and \<open>Inr v\<close> for its value.\<close>

type_synonym ('e, 'a) result = "'e + 'a"

definition bind_result :: "('e, 'a) result \<Rightarrow> ('a \<Rightarrow> ('e, 'b) result) \<Rightarrow> ('e, 'b) result" where
  "bind_result r f = (case r of Inl e \<Rightarrow> Inl e | Inr v \<Rightarrow> f v)"

lemma bind_result_simps [simp]:
  "bind_result (Inl e) f = Inl e"
  "bind_result (Inr v) f = f v"
  by (simp_all add: bind_result_def)

lemma bind_result_InrE:
  assumes "bind_result r f = Inr w"
  obtains v where "r = Inr v" and "f v = Inr w"
  using assms by (cases r) auto

section \<open>Characters and strings\<close>

abbreviation LF :: char where "LF \<equiv> CHR 0x0A"
abbreviation CR :: char where "CR \<equiv> CHR 0x0D"
abbreviation TAB :: char where "TAB \<equiv> CHR 0x09"
abbreviation SP :: char where "SP \<equiv> CHR 0x20"
abbreviation CRLF :: string where "CRLF \<equiv> [CHR 0x0D, CHR 0x0A]"

definition lower_char :: "char \<Rightarrow> char" where
  "lower_char c = (let n = (of_char c :: nat) in
     if 65 \<le> n \<and> n \<le> 90
     then (case c of Char b0 b1 b2 b3 b4 b5 b6 b7 \<Rightarrow> Char b0 b1 b2 b3 b4 True b6 b7)
     else c)"

definition strings_ToLower :: "string \<Rightarrow> string" where
  "strings_ToLower s = map lower_char s"

definition upper_char :: "char \<Rightarrow> char" where
  "upper_char c = (let n = (of_char c :: nat) in
     if 97 \<le> n \<and> n \<le> 122
     then (case c of Char b0 b1 b2 b3 b4 b5 b6 b7 \<Rightarrow> Char b0 b1 b2 b3 b4 False b6 b7)
     else c)"

definition strings_ToUpper :: "string \<Rightarrow> string" where
  "strings_ToUpper s = map upper_char s"

definition strings_EqualFold :: "string \<Rightarrow> string \<Rightarrow> bool" where
  "strings_EqualFold s t \<longleftrightarrow> strings_ToLower s = strings_ToLower t"

definition strings_HasPrefix :: "string \<Rightarrow> string \<Rightarrow> bool" where
  "strings_HasPrefix s p \<longleftrightarrow> take (length p) s = p"

definition strings_HasSuffix :: "string \<Rightarrow> string \<Rightarrow> bool" where
  "strings_HasSuffix s p \<longleftrightarrow> strings_HasPrefix (rev s) (rev p)"

definition strings_TrimPrefix :: "string \<Rightarrow> string \<Rightarrow> string" where
  "strings_TrimPrefix s p = (if strings_HasPrefix s p then drop (length p) s else s)"

definition strings_TrimSuffix :: "string \<Rightarrow> string \<Rightarrow> string" where
  "strings_TrimSuffix s p = (if strings_HasSuffix s p then take (length s - length p) s else s)"

definition strings_TrimRight :: "string \<Rightarrow> string \<Rightarrow> string" where
  "strings_TrimRight s cutset = rev (dropWhile (\<lambda>c. c \<in> set cutset) (rev s))"

definition strings_Trim :: "string \<Rightarrow> string \<Rightarrow> string" where
  "strings_Trim s cutset = strings_TrimRight (dropWhile (\<lambda>c. c \<in> set cutset) s) cutset"

text \<open>The UTF-8 encodings of the runes for which \<^verbatim>\<open>unicode.IsSpace\<close> holds.\<close>

definition space_runes :: "string list" where
  "space_runes = [[CHR 0x09], [CHR 0x0A], [CHR 0x0B], [CHR 0x0C], [CHR 0x0D], [CHR 0x20],
     [CHR 0xC2, CHR 0x85], [CHR 0xC2, CHR 0xA0], [CHR 0xE1, CHR 0x9A, CHR 0x80]]
   @ map (\<lambda>c. [CHR 0xE2, CHR 0x80, c])
       [CHR 0x80, CHR 0x81, CHR 0x82, CHR 0x83, CHR 0x84, CHR 0x85, CHR 0x86, CHR 0x87,
        CHR 0x88, CHR 0x89, CHR 0x8A, CHR 0xA8, CHR 0xA9, CHR 0xAF]
   @ [[CHR 0xE2, CHR 0x81, CHR 0x9F], [CHR 0xE3, CHR 0x80, CHR 0x80]]"

definition find_rune :: "string list \<Rightarrow> string \<Rightarrow> string option" where
  "find_rune rs s = find (\<lambda>r. r \<noteq> [] \<and> strings_HasPrefix s r) rs"

lemma find_rune_SomeD:
  assumes "find_rune rs s = Some r"
  shows "r \<in> set rs" "r \<noteq> []" "take (length r) s = r" "length s - length r < length s"
proof -
  from assms have *: "r \<in> set rs \<and> r \<noteq> [] \<and> take (length r) s = r"
    by (auto simp: find_rune_def find_Some_iff strings_HasPrefix_def)
  then show "r \<in> set rs" "r \<noteq> []" "take (length r) s = r" by simp_all
  from * have "s \<noteq> []" by auto
  with * show "length s - length r < length s" by simp
qed

function strip_runes :: "string list \<Rightarrow> string \<Rightarrow> string" where
  "strip_runes rs s =
     (case find_rune rs s of
        None \<Rightarrow> s
      | Some r \<Rightarrow> strip_runes rs (drop (length r) s))"
  by pat_completeness auto
termination
  by (relation "measure (\<lambda>(rs, s). length s)") (auto dest: find_rune_SomeD(4))

declare strip_runes.simps [simp del]

definition strings_TrimSpace :: "string \<Rightarrow> string" where
  "strings_TrimSpace s =
     rev (strip_runes (map rev space_runes) (rev (strip_runes space_runes s)))"

text \<open>\<^verbatim>\<open>strings.Fields\<close>: the maximal non-empty runs of non-space bytes.\<close>

definition emit_field :: "string \<Rightarrow> string list \<Rightarrow> string list" where
  "emit_field cur fs = (if cur = [] then fs else cur # fs)"

function fields_from :: "string \<Rightarrow> string \<Rightarrow> string list" where
  "fields_from cur s =
     (case s of
        [] \<Rightarrow> emit_field cur []
      | c # t \<Rightarrow>
          (case find_rune space_runes s of
             Some r \<Rightarrow> emit_field cur (fields_from [] (drop (length r) s))
           | None \<Rightarrow> fields_from (cur @ [c]) t))"
  by pat_completeness auto
termination
  by (relation "measure (\<lambda>(cur, s). length s)") (auto dest: find_rune_SomeD(4))

declare fields_from.simps [simp del]

definition strings_Fields :: "string \<Rightarrow> string list" where
  "strings_Fields s = fields_from [] s"

text \<open>Searching.  An absent index is \<open>None\<close> where Go returns \<open>-1\<close>.\<close>

fun strings_IndexByte :: "string \<Rightarrow> char \<Rightarrow> nat option" where
  "strings_IndexByte [] c = None"
| "strings_IndexByte (x # xs) c =
     (if x = c then Some 0 else map_option Suc (strings_IndexByte xs c))"

fun strings_Index :: "string \<Rightarrow> string \<Rightarrow> nat option" where
  "strings_Index [] sub = (if sub = [] then Some 0 else None)"
| "strings_Index (c # t) sub =
     (if strings_HasPrefix (c # t) sub then Some 0 else map_option Suc (strings_Index t sub))"

fun strings_LastIndex :: "string \<Rightarrow> string \<Rightarrow> nat option" where
  "strings_LastIndex [] sub = (if sub = [] then Some 0 else None)"
| "strings_LastIndex (c # t) sub =
     (case strings_LastIndex t sub of
        Some i \<Rightarrow> Some (Suc i)
      | None \<Rightarrow> if strings_HasPrefix (c # t) sub then Some 0 else None)"

definition strings_Contains :: "string \<Rightarrow> string \<Rightarrow> bool" where
  "strings_Contains s sub \<longleftrightarrow> strings_Index s sub \<noteq> None"

fun strings_IndexAny :: "string \<Rightarrow> string \<Rightarrow> nat option" where
  "strings_IndexAny [] chars = None"
| "strings_IndexAny (x # xs) chars =
     (if x \<in> set chars then Some 0 else map_option Suc (strings_IndexAny xs chars))"

definition strings_CountByte :: "string \<Rightarrow> char \<Rightarrow> nat" where
  "strings_CountByte s c = length (filter (\<lambda>x. x = c) s)"

text \<open>\<^verbatim>\<open>strings.Cut\<close> with a one-byte separator; \<open>None\<close> is the result \<^verbatim>\<open>found == false\<close>.\<close>

definition strings_Cut :: "string \<Rightarrow> char \<Rightarrow> (string \<times> string) option" where
  "strings_Cut s c =
     (case strings_IndexByte s c of
        None \<Rightarrow> None
      | Some i \<Rightarrow> Some (take i s, drop (Suc i) s))"

lemma strings_Index_bound: "strings_Index s sub = Some i \<Longrightarrow> i + length sub \<le> length s"
proof (induction s arbitrary: i)
  case Nil
  then show ?case by (simp split: if_splits)
next
  case (Cons c t)
  show ?case
  proof (cases "strings_HasPrefix (c # t) sub")
    case True
    then have "length (take (length sub) (c # t)) = length sub"
      by (simp add: strings_HasPrefix_def)
    with True Cons.prems show ?thesis by simp
  next
    case False
    with Cons.prems obtain j where "strings_Index t sub = Some j" and "i = Suc j" by auto
    with Cons.IH show ?thesis by force
  qed
qed

text \<open>Splitting at a non-empty separator, joining and replacing.\<close>

function strings_Split :: "string \<Rightarrow> string \<Rightarrow> string list" where
  "strings_Split s sep =
     (case strings_Index s sep of
        None \<Rightarrow> [s]
      | Some i \<Rightarrow>
          if sep = [] then [s]
          else take i s # strings_Split (drop (i + length sep) s) sep)"
  by pat_completeness auto
termination
  by (relation "measure (\<lambda>(s, sep). length s)")
    (auto dest!: strings_Index_bound simp flip: length_greater_0_conv)

declare strings_Split.simps [simp del]

fun strings_Join :: "string list \<Rightarrow> string \<Rightarrow> string" where
  "strings_Join [] sep = []"
| "strings_Join [x] sep = x"
| "strings_Join (x # y # ys) sep = x @ sep @ strings_Join (y # ys) sep"

definition strings_ReplaceAll :: "string \<Rightarrow> string \<Rightarrow> string \<Rightarrow> string" where
  "strings_ReplaceAll s old new = strings_Join (strings_Split s old) new"

section \<open>strconv\<close>

datatype num_error = ErrSyntax | ErrRange

definition digit_val :: "char \<Rightarrow> nat option" where
  "digit_val c = (let n = (of_char c :: nat) in
     if 48 \<le> n \<and> n \<le> 57 then Some (n - 48) else None)"

fun digits_val :: "nat \<Rightarrow> string \<Rightarrow> nat option" where
  "digits_val acc [] = Some acc"
| "digits_val acc (c # cs) =
     (case digit_val c of None \<Rightarrow> None | Some d \<Rightarrow> digits_val (10 * acc + d) cs)"

text \<open>
  \<^verbatim>\<open>strconv.Atoi\<close> on a 64-bit platform: the value and the error.  A syntax error gives 0, an
  out-of-range number the nearest bound, as \<^verbatim>\<open>strconv.ParseInt\<close> documents.
\<close>

definition strconv_Atoi :: "string \<Rightarrow> int \<times> num_error option" where
  "strconv_Atoi s =
     (let neg = (s \<noteq> [] \<and> hd s = CHR ''-'');
          ds = (if s \<noteq> [] \<and> (hd s = CHR ''-'' \<or> hd s = CHR ''+'') then tl s else s)
      in if ds = [] then (0, Some ErrSyntax)
         else case digits_val 0 ds of
                None \<Rightarrow> (0, Some ErrSyntax)
              | Some n \<Rightarrow>
                  let v = (if neg then - int n else int n)
                  in if int64_range v then (v, None)
                     else ((if neg then - (2 ^ 63) else 2 ^ 63 - 1), Some ErrRange))"

definition digit_char :: "nat \<Rightarrow> char" where
  "digit_char d = ''0123456789'' ! d"

fun nat_digits :: "nat \<Rightarrow> string" where
  "nat_digits n = (if n < 10 then [digit_char n] else nat_digits (n div 10) @ [digit_char (n mod 10)])"

declare nat_digits.simps [simp del]

definition strconv_Itoa :: "int \<Rightarrow> string" where
  "strconv_Itoa n = (if n < 0 then CHR ''-'' # nat_digits (nat (- n)) else nat_digits (nat n))"

section \<open>Lemmas on case folding\<close>

lemma lower_char_idem [simp]: "lower_char (lower_char c) = lower_char c"
  by (cases c) (auto simp: lower_char_def Let_def split: if_splits)

lemma ToLower_idem [simp]: "strings_ToLower (strings_ToLower s) = strings_ToLower s"
  by (simp add: strings_ToLower_def)

lemma EqualFold_refl [simp]: "strings_EqualFold s s"
  by (simp add: strings_EqualFold_def)

lemma EqualFold_sym: "strings_EqualFold s t \<longleftrightarrow> strings_EqualFold t s"
  by (auto simp: strings_EqualFold_def)

lemma EqualFold_trans: "strings_EqualFold s t \<Longrightarrow> strings_EqualFold t u \<Longrightarrow> strings_EqualFold s u"
  by (simp add: strings_EqualFold_def)

section \<open>Lemmas on prefixes and white space\<close>

lemma HasPrefix_iff: "strings_HasPrefix s p \<longleftrightarrow> (\<exists>t. s = p @ t)"
  unfolding strings_HasPrefix_def by (metis append_eq_conv_conj append_take_drop_id)

lemma HasSuffix_iff: "strings_HasSuffix s p \<longleftrightarrow> (\<exists>t. s = t @ p)"
  unfolding strings_HasSuffix_def HasPrefix_iff by (metis rev_append rev_rev_ident)

lemma space_runes_nonempty: "r \<in> set space_runes \<Longrightarrow> r \<noteq> []"
  by (auto simp: space_runes_def)

lemma space_runes_single:
  "r \<in> set space_runes \<Longrightarrow> c \<in> set r \<Longrightarrow> (of_char c :: nat) < 128 \<Longrightarrow> r = [c]"
  by (auto simp: space_runes_def)

lemma SP_space [simp]: "[SP] \<in> set space_runes"
  by (simp add: space_runes_def)

definition lead_space :: "string \<Rightarrow> bool" where
  "lead_space s \<longleftrightarrow> (\<exists>r \<in> set space_runes. strings_HasPrefix s r)"

definition trail_space :: "string \<Rightarrow> bool" where
  "trail_space s \<longleftrightarrow> (\<exists>r \<in> set space_runes. strings_HasSuffix s r)"

lemma find_rune_None_iff: "find_rune space_runes s = None \<longleftrightarrow> \<not> lead_space s"
  by (auto simp: find_rune_def find_None_iff lead_space_def dest: space_runes_nonempty)

lemma find_rune_rev_None_iff: "find_rune (map rev space_runes) s = None \<longleftrightarrow> \<not> trail_space (rev s)"
  by (auto simp: find_rune_def find_None_iff trail_space_def strings_HasSuffix_def
      dest: space_runes_nonempty)

lemma strip_runes_suffix: "\<exists>p. s = p @ strip_runes rs s"
proof (induction rs s rule: strip_runes.induct)
  case (1 rs s)
  show ?case
  proof (cases "find_rune rs s")
    case None
    then show ?thesis by (simp add: strip_runes.simps)
  next
    case (Some r)
    then obtain p where "drop (length r) s = p @ strip_runes rs (drop (length r) s)"
      using "1.IH" by blast
    moreover have "strip_runes rs s = strip_runes rs (drop (length r) s)"
      using Some by (simp add: strip_runes.simps [of rs s])
    ultimately have "s = (take (length r) s @ p) @ strip_runes rs s"
      by (metis append.assoc append_take_drop_id)
    then show ?thesis by blast
  qed
qed

lemma strip_runes_done: "find_rune rs (strip_runes rs s) = None"
proof (induction rs s rule: strip_runes.induct)
  case (1 rs s)
  then show ?case
    by (cases "find_rune rs s") (simp_all add: strip_runes.simps [of rs s])
qed

lemma strip_runes_id: "find_rune rs s = None \<Longrightarrow> strip_runes rs s = s"
  by (simp add: strip_runes.simps)

lemma lead_space_append: "lead_space s \<Longrightarrow> lead_space (s @ t)"
  unfolding lead_space_def HasPrefix_iff by (metis append.assoc)

lemma TrimSpace_infix: "\<exists>p q. s = p @ strings_TrimSpace s @ q"
proof -
  obtain p where p: "s = p @ strip_runes space_runes s"
    using strip_runes_suffix by blast
  obtain q where "rev (strip_runes space_runes s)
      = q @ strip_runes (map rev space_runes) (rev (strip_runes space_runes s))"
    using strip_runes_suffix by blast
  then have "strip_runes space_runes s = strings_TrimSpace s @ rev q"
    unfolding strings_TrimSpace_def by (metis rev_append rev_rev_ident)
  with p show ?thesis by metis
qed

lemma TrimSpace_subset: "set (strings_TrimSpace s) \<subseteq> set s"
proof -
  obtain p q where "s = p @ strings_TrimSpace s @ q" using TrimSpace_infix by blast
  then have "set s = set p \<union> set (strings_TrimSpace s) \<union> set q"
    by (metis set_append sup_assoc)
  then show ?thesis by blast
qed

lemma TrimSpace_no_trail: "\<not> trail_space (strings_TrimSpace s)"
  using strip_runes_done [of "map rev space_runes"]
  by (simp add: strings_TrimSpace_def find_rune_rev_None_iff)

lemma TrimSpace_no_lead: "\<not> lead_space (strings_TrimSpace s)"
proof
  assume lead: "lead_space (strings_TrimSpace s)"
  obtain q where "rev (strip_runes space_runes s)
      = q @ strip_runes (map rev space_runes) (rev (strip_runes space_runes s))"
    using strip_runes_suffix by blast
  then have "strip_runes space_runes s = strings_TrimSpace s @ rev q"
    unfolding strings_TrimSpace_def by (metis rev_append rev_rev_ident)
  with lead have "lead_space (strip_runes space_runes s)"
    by (metis lead_space_append)
  then show False
    using strip_runes_done [of space_runes s] by (simp add: find_rune_None_iff)
qed

lemma TrimSpace_id: "\<not> lead_space s \<Longrightarrow> \<not> trail_space s \<Longrightarrow> strings_TrimSpace s = s"
  by (simp add: strings_TrimSpace_def strip_runes_id find_rune_None_iff find_rune_rev_None_iff)

lemma TrimSpace_id_iff: "strings_TrimSpace s = s \<longleftrightarrow> \<not> lead_space s \<and> \<not> trail_space s"
  by (metis TrimSpace_id TrimSpace_no_lead TrimSpace_no_trail)

lemma TrimSpace_idem [simp]: "strings_TrimSpace (strings_TrimSpace s) = strings_TrimSpace s"
  by (simp add: TrimSpace_id TrimSpace_no_lead TrimSpace_no_trail)

lemma find_rune_single:
  assumes "(of_char c :: nat) < 128" and "[c] \<in> set space_runes"
  shows "find_rune space_runes (c # s) = Some [c]"
proof -
  have "find_rune space_runes (c # s) \<noteq> None"
    using assms(2) unfolding find_rune_None_iff lead_space_def HasPrefix_iff by force
  then obtain r where r: "find_rune space_runes (c # s) = Some r" by blast
  then have in_set: "r \<in> set space_runes" and ne: "r \<noteq> []" and tk: "take (length r) (c # s) = r"
    by (auto dest: find_rune_SomeD)
  from ne tk have "c \<in> set r"
    by (metis hd_in_set hd_take length_greater_0_conv list.sel(1))
  with in_set show ?thesis using r assms(1) space_runes_single by metis
qed

lemma TrimSpace_SP [simp]: "strings_TrimSpace (SP # s) = strings_TrimSpace s"
  by (simp add: strings_TrimSpace_def strip_runes.simps [of _ "SP # s"] find_rune_single)

lemma strip_runes_keep:
  "c \<in> set s \<Longrightarrow> \<forall>r \<in> set rs. c \<notin> set r \<Longrightarrow> c \<in> set (strip_runes rs s)"
proof (induction rs s rule: strip_runes.induct)
  case (1 rs s)
  show ?case
  proof (cases "find_rune rs s")
    case None
    with "1.prems" show ?thesis by (simp add: strip_runes.simps)
  next
    case (Some r)
    have "s = r @ drop (length r) s" using find_rune_SomeD(3) [OF Some] by (metis append_take_drop_id)
    then have "set s = set r \<union> set (drop (length r) s)" by (metis set_append)
    then have "c \<in> set (drop (length r) s)"
      using "1.prems" find_rune_SomeD(1) [OF Some] by auto
    with "1.IH" [OF Some] "1.prems"(2) Some show ?thesis by (simp add: strip_runes.simps [of rs s])
  qed
qed

lemma TrimSpace_keep:
  assumes "c \<in> set s" and "\<forall>r \<in> set space_runes. c \<notin> set r"
  shows "c \<in> set (strings_TrimSpace s)"
  using assms strip_runes_keep [of c s space_runes]
    strip_runes_keep [of c "rev (strip_runes space_runes s)" "map rev space_runes"]
  by (simp add: strings_TrimSpace_def)

lemma TrimSpace_Nil [simp]: "strings_TrimSpace [] = []"
  by (metis TrimSpace_subset set_empty subset_empty list.set(1))

lemma TrimSpace_code [code]:
  "strings_TrimSpace [] = []"
  "strings_TrimSpace (c # s) =
     rev (strip_runes (map rev space_runes) (rev (strip_runes space_runes (c # s))))"
  by (rule TrimSpace_Nil, rule strings_TrimSpace_def)

lemma trail_space_append_SP:
  assumes "\<not> trail_space b" and "b \<noteq> []"
  shows "\<not> trail_space (a @ SP # b)"
proof
  assume "trail_space (a @ SP # b)"
  then obtain r t where r: "r \<in> set space_runes" and eq: "a @ SP # b = t @ r"
    by (auto simp: trail_space_def HasSuffix_iff)
  then have "(a @ [SP]) @ b = t @ r" by simp
  then obtain us where "(a @ [SP] = t @ us \<and> us @ b = r) \<or> ((a @ [SP]) @ us = t \<and> b = us @ r)"
    unfolding append_eq_append_conv2 by blast
  then show False
  proof (elim disjE conjE)
    assume "b = us @ r"
    with r assms(1) show False by (auto simp: trail_space_def HasSuffix_iff)
  next
    assume pre: "a @ [SP] = t @ us" and post: "us @ b = r"
    show False
    proof (cases us rule: rev_cases)
      case Nil
      with post r assms(1) show False by (auto simp: trail_space_def HasSuffix_iff)
    next
      case (snoc us' c)
      with pre have "c = SP" by simp
      with snoc post have "SP \<in> set r" and "r \<noteq> [SP]"
        using assms(2) by (auto simp: append_eq_Cons_conv)
      with r space_runes_single [of r SP] show False by simp
    qed
  qed
qed

lemma lead_space_ascii:
  assumes "(of_char c :: nat) < 128" and "[c] \<notin> set space_runes"
  shows "\<not> lead_space (c # s)"
proof
  assume "lead_space (c # s)"
  then obtain r t where r: "r \<in> set space_runes" and eq: "c # s = r @ t"
    by (auto simp: lead_space_def HasPrefix_iff)
  have "r \<noteq> []" using r by (rule space_runes_nonempty)
  with eq have "c \<in> set r" by (cases r) auto
  with r assms show False using space_runes_single by blast
qed

lemma trail_space_ascii:
  assumes "(of_char c :: nat) < 128" and "[c] \<notin> set space_runes"
  shows "\<not> trail_space (s @ [c])"
proof
  assume "trail_space (s @ [c])"
  then obtain r t where r: "r \<in> set space_runes" and eq: "s @ [c] = t @ r"
    by (auto simp: trail_space_def HasSuffix_iff)
  have "r \<noteq> []" using r by (rule space_runes_nonempty)
  with eq have "last r = c" by (metis last_appendR last_snoc)
  with \<open>r \<noteq> []\<close> have "c \<in> set r" by auto
  with r assms show False using space_runes_single by blast
qed

text \<open>A field of \<^verbatim>\<open>strings.Fields\<close> is non-empty and free of surrounding white space.\<close>

definition no_rune_inside :: "string \<Rightarrow> string \<Rightarrow> bool" where
  "no_rune_inside cur s \<longleftrightarrow> (\<forall>a b. cur = a @ b \<and> b \<noteq> [] \<longrightarrow> \<not> lead_space (b @ s))"

lemma no_rune_inside_trimmed:
  assumes "no_rune_inside cur s" and "cur \<noteq> []"
  shows "strings_TrimSpace cur = cur"
proof (rule TrimSpace_id)
  from assms have "\<not> lead_space (cur @ s)" by (simp add: no_rune_inside_def)
  then show "\<not> lead_space cur" using lead_space_append by blast
  show "\<not> trail_space cur"
  proof
    assume "trail_space cur"
    then obtain r t where r: "r \<in> set space_runes" and "cur = t @ r"
      by (auto simp: trail_space_def HasSuffix_iff)
    then have "\<not> lead_space (r @ s)"
      using assms(1) space_runes_nonempty [OF r] by (auto simp: no_rune_inside_def)
    with r show False by (auto simp: lead_space_def HasPrefix_iff)
  qed
qed

lemma no_rune_inside_snoc:
  assumes "no_rune_inside cur (c # t)" and "\<not> lead_space (c # t)"
  shows "no_rune_inside (cur @ [c]) t"
  unfolding no_rune_inside_def
proof (intro allI impI)
  fix a b assume "cur @ [c] = a @ b \<and> b \<noteq> []"
  then obtain b' where b: "b = b' @ [c]" and cur: "cur = a @ b'"
    by (cases b rule: rev_cases) auto
  show "\<not> lead_space (b @ t)"
    using assms b cur by (cases "b' = []") (auto simp: no_rune_inside_def)
qed

lemma fields_from_trimmed:
  "no_rune_inside cur s \<Longrightarrow> f \<in> set (fields_from cur s) \<Longrightarrow> f \<noteq> [] \<and> strings_TrimSpace f = f"
proof (induction cur s rule: fields_from.induct)
  case (1 cur s)
  have emitted: "f \<noteq> [] \<and> strings_TrimSpace f = f" if "f \<in> set (emit_field cur [])"
    using that no_rune_inside_trimmed [OF "1.prems"(1)] by (auto simp: emit_field_def split: if_splits)
  show ?case
  proof (cases s)
    case Nil
    with "1.prems"(2) emitted show ?thesis by (simp add: fields_from.simps)
  next
    case (Cons c t)
    show ?thesis
    proof (cases "find_rune space_runes s")
      case None
      then have "no_rune_inside (cur @ [c]) t"
        using "1.prems"(1) Cons by (simp add: no_rune_inside_snoc find_rune_None_iff)
      moreover have "f \<in> set (fields_from (cur @ [c]) t)"
        using "1.prems"(2) None Cons by (simp add: fields_from.simps [of cur])
      ultimately show ?thesis using "1.IH" None Cons by blast
    next
      case (Some r)
      have "no_rune_inside [] (drop (length r) s)" by (simp add: no_rune_inside_def)
      moreover have "f \<in> set (emit_field cur []) \<or> f \<in> set (fields_from [] (drop (length r) s))"
        using "1.prems"(2) Some Cons
        by (auto simp: fields_from.simps [of cur] emit_field_def split: if_splits)
      ultimately show ?thesis using "1.IH" Some Cons emitted by blast
    qed
  qed
qed

lemma Fields_trimmed: "f \<in> set (strings_Fields s) \<Longrightarrow> f \<noteq> [] \<and> strings_TrimSpace f = f"
  unfolding strings_Fields_def by (rule fields_from_trimmed) (auto simp: no_rune_inside_def)

definition ascii_word :: "string \<Rightarrow> bool" where
  "ascii_word s \<longleftrightarrow> (\<forall>c \<in> set s. (of_char c :: nat) < 128 \<and> [c] \<notin> set space_runes)"

lemma ascii_word_trimmed: "ascii_word s \<Longrightarrow> strings_TrimSpace s = s"
proof (cases "s = []")
  case False
  assume word: "ascii_word s"
  from False have "\<not> lead_space (hd s # tl s)" "\<not> trail_space (butlast s @ [last s])"
    using word lead_space_ascii [of "hd s" "tl s"] trail_space_ascii [of "last s" "butlast s"]
    unfolding ascii_word_def by (metis hd_in_set last_in_set)+
  with False show ?thesis by (simp add: TrimSpace_id)
qed simp

lemma fields_from_word: "ascii_word s \<Longrightarrow> fields_from cur s = emit_field (cur @ s) []"
proof (induction s arbitrary: cur)
  case Nil
  then show ?case by (simp add: fields_from.simps)
next
  case (Cons c s)
  then have "find_rune space_runes (c # s) = None"
    by (simp add: find_rune_None_iff ascii_word_def lead_space_ascii)
  with Cons show ?case by (simp add: fields_from.simps [of cur] ascii_word_def)
qed

lemma Fields_word: "ascii_word s \<Longrightarrow> s \<noteq> [] \<Longrightarrow> strings_Fields s = [s]"
  by (simp add: strings_Fields_def fields_from_word emit_field_def)

section \<open>Lemmas on cutting\<close>

lemma IndexByte_append: "c \<notin> set a \<Longrightarrow> strings_IndexByte (a @ c # b) c = Some (length a)"
  by (induction a) auto

lemma IndexByte_None: "strings_IndexByte s c = None \<longleftrightarrow> c \<notin> set s"
  by (induction s) auto

lemma IndexByte_Some:
  "strings_IndexByte s c = Some i \<Longrightarrow> i < length s \<and> s ! i = c \<and> c \<notin> set (take i s)"
  by (induction s arbitrary: i) (auto split: if_splits)

lemma Cut_append: "c \<notin> set a \<Longrightarrow> strings_Cut (a @ c # b) c = Some (a, b)"
  by (simp add: strings_Cut_def IndexByte_append)

lemma Cut_SomeD:
  assumes "strings_Cut s c = Some (a, b)"
  shows "s = a @ c # b" and "c \<notin> set a"
proof -
  from assms obtain i where i: "strings_IndexByte s c = Some i"
    and ab: "a = take i s" "b = drop (Suc i) s"
    by (auto simp: strings_Cut_def split: option.splits)
  from IndexByte_Some [OF i] ab show "s = a @ c # b" and "c \<notin> set a"
    by (metis id_take_nth_drop, simp)
qed

lemma Cut_None: "strings_Cut s c = None \<longleftrightarrow> c \<notin> set s"
  unfolding strings_Cut_def IndexByte_None [symmetric] by (simp split: option.splits)

section \<open>Lemmas on numbers\<close>

lemma digit_val_digit_char: "d < 10 \<Longrightarrow> digit_val (digit_char d) = Some d"
proof -
  assume "d < 10"
  then have "d \<in> {0, 1, 2, 3, 4, 5, 6, 7, 8, 9}" by auto
  then show ?thesis by (auto simp: digit_val_def digit_char_def)
qed

lemma digits_val_append:
  "digits_val acc (xs @ ys) = (case digits_val acc xs of None \<Rightarrow> None | Some a \<Rightarrow> digits_val a ys)"
  by (induction xs arbitrary: acc) (auto split: option.splits)

lemma digits_val_nat_digits: "digits_val 0 (nat_digits n) = Some n"
proof (induction n rule: nat_digits.induct)
  case (1 n)
  show ?case
  proof (cases "n < 10")
    case True
    then show ?thesis by (simp add: nat_digits.simps [of n] digit_val_digit_char)
  next
    case False
    with "1" have "digits_val 0 (nat_digits (n div 10)) = Some (n div 10)" by simp
    with False show ?thesis
      by (simp add: nat_digits.simps [of n] digits_val_append digit_val_digit_char)
  qed
qed

lemma nat_digits_set: "c \<in> set (nat_digits n) \<Longrightarrow> c \<in> set ''0123456789''"
proof (induction n rule: nat_digits.induct)
  case (1 n)
  have "digit_char (n mod 10) \<in> set ''0123456789''"
    unfolding digit_char_def by (rule nth_mem) simp
  with 1 show ?case by (cases "n < 10") (auto simp: nat_digits.simps [of n])
qed

lemma nat_digits_nonempty [simp]: "nat_digits n \<noteq> []"
  by (simp add: nat_digits.simps)

lemma Itoa_set: "c \<in> set (strconv_Itoa n) \<Longrightarrow> c \<in> set ''-0123456789''"
  by (auto simp: strconv_Itoa_def dest!: nat_digits_set split: if_splits)

lemma Itoa_word: "ascii_word (strconv_Itoa n)"
  unfolding ascii_word_def
proof
  fix c assume "c \<in> set (strconv_Itoa n)"
  then have "c \<in> set ''-0123456789''" by (rule Itoa_set)
  then show "(of_char c :: nat) < 128 \<and> [c] \<notin> set space_runes"
    by (auto simp: space_runes_def)
qed

lemma Itoa_nonempty [simp]: "strconv_Itoa n \<noteq> []"
  by (simp add: strconv_Itoa_def)

lemma nat_digits_hd: "hd (nat_digits n) \<noteq> CHR ''-''" "hd (nat_digits n) \<noteq> CHR ''+''"
  using nat_digits_set [of "hd (nat_digits n)" n] by auto

lemma Atoi_Itoa: "int64_range n \<Longrightarrow> strconv_Atoi (strconv_Itoa n) = (n, None)"
  by (auto simp: strconv_Atoi_def strconv_Itoa_def digits_val_nat_digits Let_def nat_digits_hd)

lemma Atoi_range: "int64_range (fst (strconv_Atoi s))"
  by (auto simp: strconv_Atoi_def Let_def int64_range_def split: option.splits)

end
