(* ===== verification/SipMessage.thy ===== *)
theory SipMessage
  imports Prelude
begin

text \<open>
  The SIP message layer, \<^verbatim>\<open>internal/sip/message.go\<close>: the byte scanner behind \<^verbatim>\<open>Parse\<close> and
  \<^verbatim>\<open>ParseInto\<close>, the message pool's copy and reset operations, header lookup, the matching of
  incoming messages against a \<^verbatim>\<open>recv\<close> step and against the last sent request, and the
  construction of responses.

  \<^verbatim>\<open>Message.Headers\<close> is an association list in the order in which the Go runtime iterates the
  map; \<open>map_of\<close> is the indexing \<^verbatim>\<open>m.Headers[k]\<close>.  A message taken from the pool is an argument
  \<open>pm\<close> of the functions that call \<^verbatim>\<open>GetMessage\<close>.
\<close>

section \<open>Messages\<close>

type_synonym headers = "(string \<times> string list) list"

record message =
  StartLine :: string
  Method :: string
  RequestURI :: string
  StatusCode :: int
  Reason :: string
  Headers :: headers
  Body :: string
  Raw :: string

datatype sip_error =
    EmptyMessage
  | InvalidStatusLine string
  | InvalidStatusCode string num_error
  | InvalidRequestLine string
  | MalformedHeader string
  | MissingCallID

definition empty_message :: message where
  "empty_message = \<lparr>StartLine = [], Method = [], RequestURI = [], StatusCode = 0, Reason = [],
     Headers = [], Body = [], Raw = []\<rparr>"

text \<open>\<^verbatim>\<open>headers[k]\<close> with Go's zero value, and \<^verbatim>\<open>headers[k] = append(headers[k], v)\<close>.\<close>

definition hdr_get :: "headers \<Rightarrow> string \<Rightarrow> string list" where
  "hdr_get hs k = (case map_of hs k of None \<Rightarrow> [] | Some vs \<Rightarrow> vs)"

fun hdr_append :: "headers \<Rightarrow> string \<Rightarrow> string list \<Rightarrow> headers" where
  "hdr_append [] k vs = [(k, vs)]"
| "hdr_append ((k', us) # hs) k vs =
     (if k' = k then (k', us @ vs) # hs else (k', us) # hdr_append hs k vs)"

section \<open>Parsing\<close>

definition chop_cr :: "string \<Rightarrow> string" where
  "chop_cr line = (if line \<noteq> [] \<and> last line = CR then butlast line else line)"

definition parse_start_line :: "string \<Rightarrow> message \<Rightarrow> (sip_error, message) result" where
  "parse_start_line line0 msg0 =
     (let line = strings_TrimSpace line0; msg = msg0\<lparr>StartLine := line\<rparr>
      in if line = [] then Inl EmptyMessage
         else if 8 < length line \<and> take 8 line = ''SIP/2.0 '' then
           let rest = drop 8 line
           in (case strings_IndexByte rest SP of
                 None \<Rightarrow> Inl (InvalidStatusLine line)
               | Some sp \<Rightarrow>
                   (case strconv_Atoi (take sp rest) of
                      (_, Some e) \<Rightarrow> Inl (InvalidStatusCode (take sp rest) e)
                    | (code, None) \<Rightarrow>
                        Inr (msg\<lparr>StatusCode := code, Reason := drop (Suc sp) rest\<rparr>)))
         else
           (case strings_IndexByte line SP of
              None \<Rightarrow> Inl (InvalidRequestLine line)
            | Some sp1 \<Rightarrow>
                (case strings_IndexByte (drop (Suc sp1) line) SP of
                   None \<Rightarrow> Inl (InvalidRequestLine line)
                 | Some sp2 \<Rightarrow>
                     Inr (msg\<lparr>Method := take sp1 line,
                              RequestURI := take sp2 (drop (Suc sp1) line)\<rparr>))))"

definition parse_header_line :: "string \<Rightarrow> message \<Rightarrow> (sip_error, message) result" where
  "parse_header_line line msg =
     (case strings_Cut line CHR '':'' of
        None \<Rightarrow> Inl (MalformedHeader line)
      | Some (name, value) \<Rightarrow>
          Inr (msg\<lparr>Headers :=
                 hdr_append (Headers msg) (strings_TrimSpace name) [strings_TrimSpace value]\<rparr>))"

text \<open>
  The scanner's loop, one step per line: \<open>idx\<close> is \<^verbatim>\<open>lineIdx\<close>, \<open>rest\<close> is \<^verbatim>\<open>raw[lineStart:]\<close>.  The
  line ends before the next line feed or at the end of the input, where the loop stops.
\<close>

definition next_line :: "string \<Rightarrow> string \<times> string option" where
  "next_line rest =
     (case strings_Cut rest LF of None \<Rightarrow> (rest, None) | Some (a, b) \<Rightarrow> (a, Some b))"

lemma next_line_shorter: "next_line rest = (a, Some b) \<Longrightarrow> length b < length rest"
  by (auto simp: next_line_def split: option.splits dest!: Cut_SomeD(1))

function parse_lines :: "nat \<Rightarrow> string \<Rightarrow> message \<Rightarrow> (sip_error, message) result" where
  "parse_lines idx rest msg =
     (case next_line rest of
        (line0, rem) \<Rightarrow>
          let line = chop_cr line0
          in if 0 < idx \<and> line = [] then
               (case rem of
                  None \<Rightarrow> Inr msg
                | Some b \<Rightarrow> if b = [] then Inr msg else Inr (msg\<lparr>Body := b\<rparr>))
             else
               (case (if idx = 0 then parse_start_line line msg else parse_header_line line msg) of
                  Inl e \<Rightarrow> Inl e
                | Inr msg' \<Rightarrow>
                    (case rem of None \<Rightarrow> Inr msg' | Some b \<Rightarrow> parse_lines (Suc idx) b msg')))"
  by pat_completeness auto
termination
  by (relation "measure (\<lambda>(idx, rest, msg). length rest)") (auto dest!: next_line_shorter [OF sym])

declare parse_lines.simps [simp del]

definition parseBytes :: "string \<Rightarrow> message \<Rightarrow> (sip_error, message) result" where
  "parseBytes raw msg = parse_lines 0 raw (msg\<lparr>Raw := raw\<rparr>)"

definition Parse :: "string \<Rightarrow> (sip_error, message) result" where
  "Parse raw = parseBytes raw empty_message"

section \<open>The message pool\<close>

text \<open>Truncating every value slice keeps the keys: \<^verbatim>\<open>Headers[k] = vals[:0]\<close>.\<close>

definition clear_headers :: "headers \<Rightarrow> headers" where
  "clear_headers hs = map (\<lambda>(k, vs). (k, [])) hs"

definition ParseInto :: "message \<Rightarrow> string \<Rightarrow> (sip_error, message) result" where
  "ParseInto msg raw =
     parseBytes raw (msg\<lparr>Headers := clear_headers (Headers msg), Method := [], RequestURI := [],
       StatusCode := 0, Reason := [], Body := []\<rparr>)"

definition PutMessage :: "message \<Rightarrow> message" where
  "PutMessage m = m\<lparr>Headers := clear_headers (Headers m), StartLine := [], Method := [],
     RequestURI := [], StatusCode := 0, Reason := [], Body := [], Raw := []\<rparr>"

definition Copy :: "message \<Rightarrow> message" where
  "Copy m = m\<lparr>Headers := filter (\<lambda>(k, vs). vs \<noteq> []) (Headers m)\<rparr>"

definition CopyInto :: "message \<Rightarrow> message \<Rightarrow> message" where
  "CopyInto dst src = src\<lparr>Headers :=
     fold (\<lambda>(k, vs) hs. if vs = [] then hs else hdr_append hs k vs)
       (Headers src) (clear_headers (Headers dst))\<rparr>"

section \<open>Header lookup\<close>

fun Header :: "headers \<Rightarrow> string \<Rightarrow> string option" where
  "Header [] name = None"
| "Header ((key, values) # hs) name =
     (if strings_EqualFold key name \<and> values \<noteq> [] then Some (hd values) else Header hs name)"

definition ExtractCallID :: "message \<Rightarrow> string \<Rightarrow> (sip_error, string) result" where
  "ExtractCallID pm raw =
     (case ParseInto pm raw of
        Inl e \<Rightarrow> Inl e
      | Inr msg \<Rightarrow>
          (case Header (Headers msg) ''Call-ID'' of
             None \<Rightarrow> Inl MissingCallID
           | Some callID \<Rightarrow> Inr callID))"

definition NormalizeCallID :: "string \<Rightarrow> string" where
  "NormalizeCallID value =
     (let v = strings_TrimSpace value
      in if v = [] then v
         else case strings_LastIndex v ''///'' of Some i \<Rightarrow> drop (i + 3) v | None \<Rightarrow> v)"

definition ParseCSeq :: "headers \<Rightarrow> (int \<times> string) option" where
  "ParseCSeq hs =
     (case Header hs ''CSeq'' of
        None \<Rightarrow> None
      | Some v \<Rightarrow>
          let fields = strings_Fields (strings_TrimSpace v)
          in if length fields < 2 then None
             else case strconv_Atoi (fields ! 0) of
                    (_, Some e) \<Rightarrow> None
                  | (n, None) \<Rightarrow> Some (n, fields ! (length fields - 1)))"

definition parseRecvResponseFilter :: "string \<Rightarrow> int option" where
  "parseRecvResponseFilter response =
     (let fields = strings_Fields (strings_TrimSpace response)
      in if length fields = 0 then None
         else case strconv_Atoi (fields ! 0) of (_, Some e) \<Rightarrow> None | (n, None) \<Rightarrow> Some n)"

definition ResponseStatusMatches :: "message \<Rightarrow> string \<Rightarrow> bool" where
  "ResponseStatusMatches msg recvResp =
     (case parseRecvResponseFilter recvResp of
        None \<Rightarrow> False | Some wantCode \<Rightarrow> StatusCode msg = wantCode)"

section \<open>Matching a recv step\<close>

definition MatchRecv :: "message \<Rightarrow> message \<Rightarrow> string \<Rightarrow> string \<Rightarrow> string \<Rightarrow> bool" where
  "MatchRecv pm msg request response lastSent =
     (if request \<noteq> [] then strings_EqualFold (Method msg) request
      else if response = [] then False
      else if \<not> ResponseStatusMatches msg response then False
      else if lastSent = [] then True
      else case ParseInto pm lastSent of
             Inl e \<Rightarrow> True
           | Inr req \<Rightarrow>
               if StatusCode req \<noteq> 0 \<or> Method req = [] then True
               else (case (ParseCSeq (Headers req), ParseCSeq (Headers msg)) of
                       (Some (reqNum, reqMeth), Some (respNum, respMeth)) \<Rightarrow>
                         reqNum = respNum
                         \<and> strings_EqualFold (strings_TrimSpace reqMeth) (strings_TrimSpace respMeth)
                     | _ \<Rightarrow> True))"

definition Match :: "message \<Rightarrow> message \<Rightarrow> string \<Rightarrow> string \<Rightarrow> bool" where
  "Match pm msg request response = MatchRecv pm msg request response []"

definition MatchRecvCached :: "message \<Rightarrow> string \<Rightarrow> string \<Rightarrow> int \<Rightarrow> string \<Rightarrow> bool" where
  "MatchRecvCached msg request response cseqNum cseqMethod =
     (if request \<noteq> [] then strings_EqualFold (Method msg) request
      else if response = [] then False
      else if \<not> ResponseStatusMatches msg response then False
      else if cseqMethod = [] then True
      else case ParseCSeq (Headers msg) of
             None \<Rightarrow> True
           | Some (respNum, respMeth) \<Rightarrow>
               cseqNum = respNum \<and> strings_EqualFold cseqMethod (strings_TrimSpace respMeth))"

section \<open>Transactions\<close>

text \<open>The scan for \<^verbatim>\<open>;branch=\<close> at each semicolon of the Via value.\<close>

fun via_branch_scan :: "string \<Rightarrow> string option" where
  "via_branch_scan [] = None"
| "via_branch_scan (c # t) =
     (if c \<noteq> CHR '';'' then via_branch_scan t
      else
        let u = dropWhile (\<lambda>x. x = SP \<or> x = TAB) t
        in if 7 \<le> length u \<and> strings_ToLower (take 6 u) = ''branch'' \<and> u ! 6 = CHR ''=''
           then Some (strings_TrimSpace (takeWhile (\<lambda>x. x \<noteq> CHR '';'') (drop 7 u)))
           else via_branch_scan t)"

definition ViaBranch :: "headers \<Rightarrow> string option" where
  "ViaBranch hs =
     (case Header hs ''Via'' of
        None \<Rightarrow> None
      | Some val \<Rightarrow> if val = [] then None else via_branch_scan val)"

definition ResponseMatchesTransaction :: "message \<Rightarrow> message \<Rightarrow> string \<Rightarrow> bool" where
  "ResponseMatchesTransaction pm msg lastSent =
     (if lastSent = [] then True
      else case ParseInto pm lastSent of
             Inl e \<Rightarrow> True
           | Inr req \<Rightarrow>
               if StatusCode req \<noteq> 0 \<or> Method req = [] then True
               else (case (ViaBranch (Headers req), ViaBranch (Headers msg)) of
                       (Some reqBranch, Some respBranch) \<Rightarrow>
                         if \<not> strings_EqualFold reqBranch respBranch then False
                         else (case (ParseCSeq (Headers req), ParseCSeq (Headers msg)) of
                                 (Some (_, reqMeth), Some (_, respMeth)) \<Rightarrow>
                                   strings_EqualFold (strings_TrimSpace reqMeth)
                                     (strings_TrimSpace respMeth)
                               | _ \<Rightarrow> True)
                     | _ \<Rightarrow> True))"

definition ResponseMatchesCached :: "message \<Rightarrow> string \<Rightarrow> string \<Rightarrow> bool" where
  "ResponseMatchesCached msg branch meth =
     (if branch = [] then True
      else case ViaBranch (Headers msg) of
             None \<Rightarrow> True
           | Some respBranch \<Rightarrow>
               if \<not> strings_EqualFold branch respBranch then False
               else if meth = [] then True
               else (case ParseCSeq (Headers msg) of
                       None \<Rightarrow> True
                     | Some (_, respMeth) \<Rightarrow>
                         strings_EqualFold meth (strings_TrimSpace respMeth)))"

definition ViaSentBy :: "headers \<Rightarrow> (string \<times> int) option" where
  "ViaSentBy hs =
     (case Header hs ''Via'' of
        None \<Rightarrow> None
      | Some val \<Rightarrow>
          if val = [] then None
          else
            let first = strings_TrimSpace (takeWhile (\<lambda>x. x \<noteq> CHR '';'') val);
                sentBy = (case strings_LastIndex first '' '' of
                            Some idx \<Rightarrow> strings_TrimSpace (drop (idx + 1) first)
                          | None \<Rightarrow> first)
            in if sentBy = [] then None
               else
                 let (host, port) =
                   (case strings_LastIndex sentBy '':'' of
                      Some colon \<Rightarrow>
                        (take colon sentBy,
                         case strconv_Atoi (drop (colon + 1) sentBy) of
                           (p, None) \<Rightarrow> if 0 < p \<and> p < 65536 then p else 5060
                         | (_, Some e) \<Rightarrow> 5060)
                    | None \<Rightarrow> (sentBy, 5060))
                 in if strings_TrimSpace host = [] then None
                    else Some (strings_TrimSpace host, port))"

section \<open>Responses\<close>

definition header_line :: "string \<Rightarrow> string \<Rightarrow> string" where
  "header_line name v = name @ '': '' @ v @ CRLF"

fun first_header :: "headers \<Rightarrow> string list \<Rightarrow> string option" where
  "first_header hs [] = None"
| "first_header hs (n # ns) =
     (case Header hs n of Some v \<Rightarrow> Some v | None \<Rightarrow> first_header hs ns)"

definition writeHdr :: "headers \<Rightarrow> string \<Rightarrow> string list \<Rightarrow> string" where
  "writeHdr hs name aliases =
     (case first_header hs (name # aliases) of None \<Rightarrow> [] | Some v \<Rightarrow> header_line name v)"

definition via_lines :: "headers \<Rightarrow> string" where
  "via_lines hs =
     concat (map (\<lambda>key. case map_of hs key of
                          None \<Rightarrow> []
                        | Some vals \<Rightarrow> concat (map (header_line ''Via'') vals))
              [''Via'', ''via'', ''v''])"

definition BuildResponse :: "message \<Rightarrow> int \<Rightarrow> string \<Rightarrow> string" where
  "BuildResponse req statusCode reason =
     ''SIP/2.0 '' @ strconv_Itoa statusCode @ '' '' @ reason @ CRLF
     @ via_lines (Headers req)
     @ writeHdr (Headers req) ''From'' [''f'']
     @ writeHdr (Headers req) ''To'' [''t'']
     @ writeHdr (Headers req) ''Call-ID'' [''i'']
     @ writeHdr (Headers req) ''CSeq'' []
     @ ''Content-Length: 0'' @ CRLF
     @ CRLF"

section \<open>Header stores\<close>

text \<open>
  The interface the parser and the copy operations rely on: appending to one key changes that
  key's values only.
\<close>

locale header_store =
  fixes get :: "'h \<Rightarrow> string \<Rightarrow> string list"
    and add :: "'h \<Rightarrow> string \<Rightarrow> string list \<Rightarrow> 'h"
    and reset :: "'h \<Rightarrow> 'h"
  assumes get_add: "get (add h k vs) k' = (if k' = k then get h k @ vs else get h k')"
    and get_reset: "get (reset h) k = []"
begin

definition same :: "'h \<Rightarrow> 'h \<Rightarrow> bool" where
  "same h h' \<longleftrightarrow> (\<forall>k. get h k = get h' k)"

lemma same_add: "same h h' \<Longrightarrow> same (add h k vs) (add h' k vs)"
  by (simp add: same_def get_add)

lemma same_reset: "same (reset h) (reset h')"
  by (simp add: same_def get_reset)

end

lemma hdr_get_Nil [simp]: "hdr_get [] k = []"
  by (simp add: hdr_get_def)

lemma hdr_get_append:
  "hdr_get (hdr_append hs k vs) k' = (if k' = k then hdr_get hs k @ vs else hdr_get hs k')"
  by (induction hs k vs rule: hdr_append.induct) (auto simp: hdr_get_def)

lemma hdr_get_clear: "hdr_get (clear_headers hs) k = []"
  by (induction hs) (auto simp: hdr_get_def clear_headers_def)

interpretation hs: header_store hdr_get hdr_append clear_headers
  by unfold_locales (simp_all add: hdr_get_append hdr_get_clear)

lemma hdr_append_keys:
  "fst ` set (hdr_append hs k vs) = insert k (fst ` set hs)"
  by (induction hs k vs rule: hdr_append.induct) auto

lemma hdr_append_distinct:
  "distinct (map fst hs) \<Longrightarrow> distinct (map fst (hdr_append hs k vs))"
proof (induction hs k vs rule: hdr_append.induct)
  case (2 k' us hs k vs)
  have "fst ` set (hdr_append hs k vs) = insert k (fst ` set hs)" by (rule hdr_append_keys)
  with 2 show ?case by (auto simp: image_iff)
qed simp

section \<open>What the parser delivers\<close>

text \<open>Text that a header line can carry: no line feed, no surrounding white space.\<close>

definition clean :: "string \<Rightarrow> bool" where
  "clean s \<longleftrightarrow> LF \<notin> set s \<and> strings_TrimSpace s = s"

definition wf_headers :: "headers \<Rightarrow> bool" where
  "wf_headers hs \<longleftrightarrow>
     distinct (map fst hs)
     \<and> (\<forall>(k, vs) \<in> set hs. clean k \<and> CHR '':'' \<notin> set k \<and> (\<forall>v \<in> set vs. clean v))"

lemma clean_TrimSpace: "LF \<notin> set s \<Longrightarrow> clean (strings_TrimSpace s)"
  using TrimSpace_subset [of s] by (auto simp: clean_def)

lemma wf_headers_append:
  assumes "wf_headers hs" and "clean k" and "CHR '':'' \<notin> set k" and "\<forall>v \<in> set vs. clean v"
  shows "wf_headers (hdr_append hs k vs)"
proof -
  have "\<forall>(k, us) \<in> set hs. clean k \<and> CHR '':'' \<notin> set k \<and> (\<forall>v \<in> set us. clean v)
    \<Longrightarrow> \<forall>(k, us) \<in> set (hdr_append hs k vs). clean k \<and> CHR '':'' \<notin> set k \<and> (\<forall>v \<in> set us. clean v)"
    using assms(2-4) by (induction hs k vs rule: hdr_append.induct) auto
  with assms(1) show ?thesis by (simp add: wf_headers_def hdr_append_distinct)
qed

lemma wf_headers_clear: "wf_headers hs \<Longrightarrow> wf_headers (clear_headers hs)"
  by (auto simp: wf_headers_def clear_headers_def comp_def case_prod_beta)

lemma next_line_no_LF: "next_line rest = (line, rem) \<Longrightarrow> LF \<notin> set line"
  by (auto simp: next_line_def Cut_None split: option.splits dest: Cut_SomeD)

lemma chop_cr_subset: "set (chop_cr line) \<subseteq> set line"
  by (auto simp: chop_cr_def dest: in_set_butlastD)

lemma parse_header_line_wf:
  assumes "parse_header_line line m = Inr m'" and "LF \<notin> set line" and "wf_headers (Headers m)"
  shows "wf_headers (Headers m')"
proof -
  from assms(1) obtain name v where cut: "strings_Cut line CHR '':'' = Some (name, v)"
    and m': "m' = m\<lparr>Headers := hdr_append (Headers m) (strings_TrimSpace name) [strings_TrimSpace v]\<rparr>"
    by (auto simp: parse_header_line_def split: option.splits)
  from Cut_SomeD [OF cut] assms(2) have "LF \<notin> set name" "LF \<notin> set v" "CHR '':'' \<notin> set name"
    by auto
  with TrimSpace_subset [of name] have "CHR '':'' \<notin> set (strings_TrimSpace name)" by blast
  with m' \<open>LF \<notin> set name\<close> \<open>LF \<notin> set v\<close> assms(3) show ?thesis
    by (simp add: wf_headers_append clean_TrimSpace)
qed

lemma parse_start_line_frame:
  assumes "parse_start_line line m = Inr m'"
  shows "Headers m' = Headers m" "Raw m' = Raw m" "Body m' = Body m"
  using assms by (auto simp: parse_start_line_def Let_def split: if_splits option.splits prod.splits)

text \<open>One step of the loop, and the induction that carries an invariant through it.\<close>

abbreviation parse_line :: "nat \<Rightarrow> string \<Rightarrow> message \<Rightarrow> (sip_error, message) result" where
  "parse_line idx line m \<equiv> (if idx = 0 then parse_start_line line m else parse_header_line line m)"

lemma parse_lines_body:
  "next_line rest = (line, rem) \<Longrightarrow> 0 < idx \<Longrightarrow> chop_cr line = [] \<Longrightarrow>
   parse_lines idx rest m = (case rem of None \<Rightarrow> Inr m | Some b \<Rightarrow> if b = [] then Inr m else Inr (m\<lparr>Body := b\<rparr>))"
  by (simp add: parse_lines.simps [of idx])

lemma parse_lines_step:
  "next_line rest = (line, rem) \<Longrightarrow> \<not> (0 < idx \<and> chop_cr line = []) \<Longrightarrow>
   parse_lines idx rest m =
     (case parse_line idx (chop_cr line) m of
        Inl e \<Rightarrow> Inl e
      | Inr m' \<Rightarrow> (case rem of None \<Rightarrow> Inr m' | Some b \<Rightarrow> parse_lines (Suc idx) b m'))"
  by (auto simp: parse_lines.simps [of idx] Let_def)

lemma parse_lines_induct [case_names start header body]:
  assumes "parse_lines idx rest m = Inr m'" and "P m"
    and start: "\<And>line m m'. LF \<notin> set line \<Longrightarrow> P m \<Longrightarrow> parse_start_line line m = Inr m' \<Longrightarrow> P m'"
    and header: "\<And>line m m'. LF \<notin> set line \<Longrightarrow> P m \<Longrightarrow> parse_header_line line m = Inr m' \<Longrightarrow> P m'"
    and body: "\<And>m b. P m \<Longrightarrow> P (m\<lparr>Body := b\<rparr>)"
  shows "P m'"
  using assms(1,2)
proof (induction idx rest m rule: parse_lines.induct)
  case (1 idx rest m)
  obtain line rem where nl: "next_line rest = (line, rem)" by fastforce
  have noLF: "LF \<notin> set (chop_cr line)" using next_line_no_LF [OF nl] chop_cr_subset by blast
  show ?case
  proof (cases "0 < idx \<and> chop_cr line = []")
    case True
    with "1.prems"(1) nl have "m' = m \<or> (\<exists>b. m' = m\<lparr>Body := b\<rparr>)"
      by (auto simp: parse_lines_body split: option.splits if_splits)
    with "1.prems"(2) show ?thesis by (blast intro: body)
  next
    case False
    with "1.prems"(1) nl obtain m1 where m1: "parse_line idx (chop_cr line) m = Inr m1"
      by (auto simp: parse_lines_step split: sum.splits)
    have P1: "P m1"
    proof (cases "idx = 0")
      case True
      with m1 have "parse_start_line (chop_cr line) m = Inr m1" by simp
      then show ?thesis by (rule start [OF noLF "1.prems"(2)])
    next
      case False
      with m1 have "parse_header_line (chop_cr line) m = Inr m1" by simp
      then show ?thesis by (rule header [OF noLF "1.prems"(2)])
    qed
    show ?thesis
    proof (cases rem)
      case None
      with False "1.prems"(1) nl m1 P1 show ?thesis by (simp add: parse_lines_step)
    next
      case (Some b)
      with False "1.prems"(1) nl m1 have "parse_lines (Suc idx) b m1 = Inr m'"
        by (simp add: parse_lines_step)
      then show ?thesis using "1.IH" [OF nl [symmetric] refl False m1 Some] P1 by blast
    qed
  qed
qed

text \<open>Two runs in lockstep: related messages parse to related messages or to the same error.\<close>

definition rel_result :: "('a \<Rightarrow> 'a \<Rightarrow> bool) \<Rightarrow> ('e, 'a) result \<Rightarrow> ('e, 'a) result \<Rightarrow> bool" where
  "rel_result R = rel_sum (=) R"

lemma parse_lines_rel:
  assumes "R m n"
    and start: "\<And>line m n. R m n \<Longrightarrow> rel_result R (parse_start_line line m) (parse_start_line line n)"
    and header: "\<And>line m n. R m n \<Longrightarrow> rel_result R (parse_header_line line m) (parse_header_line line n)"
    and body: "\<And>m n b. R m n \<Longrightarrow> R (m\<lparr>Body := b\<rparr>) (n\<lparr>Body := b\<rparr>)"
  shows "rel_result R (parse_lines idx rest m) (parse_lines idx rest n)"
  using assms(1)
proof (induction idx rest m arbitrary: n rule: parse_lines.induct)
  case (1 idx rest m)
  obtain line rem where nl: "next_line rest = (line, rem)" by fastforce
  show ?case
  proof (cases "0 < idx \<and> chop_cr line = []")
    case True
    then show ?thesis
      using nl "1.prems" body [OF "1.prems"]
      by (simp add: parse_lines_body rel_result_def split: option.splits)
  next
    case False
    have rel: "rel_result R (parse_line idx (chop_cr line) m) (parse_line idx (chop_cr line) n)"
      by (simp add: start [OF "1.prems"] header [OF "1.prems"])
    show ?thesis
    proof (cases "parse_line idx (chop_cr line) m")
      case (Inl e)
      with rel have "parse_line idx (chop_cr line) n = Inl e"
        by (auto simp: rel_result_def elim: rel_sum.cases)
      with Inl False nl show ?thesis by (simp add: parse_lines_step rel_result_def)
    next
      case (Inr m1)
      with rel obtain n1 where n1: "parse_line idx (chop_cr line) n = Inr n1" and R1: "R m1 n1"
        by (auto simp: rel_result_def elim: rel_sum.cases)
      show ?thesis
      proof (cases rem)
        case None
        with Inr n1 R1 False nl show ?thesis by (simp add: parse_lines_step rel_result_def)
      next
        case (Some b)
        from "1.IH" [OF nl [symmetric] refl False Inr Some R1] Inr n1 False nl Some
        show ?thesis by (simp add: parse_lines_step)
      qed
    qed
  qed
qed

lemma Parse_wf_headers: "Parse raw = Inr m \<Longrightarrow> wf_headers (Headers m)"
  unfolding Parse_def parseBytes_def
  by (erule parse_lines_induct)
     (auto simp: wf_headers_def [of "[]"] empty_message_def parse_start_line_frame
       intro: parse_header_line_wf)

lemma ParseInto_wf_headers:
  "wf_headers (Headers pm) \<Longrightarrow> ParseInto pm raw = Inr m \<Longrightarrow> wf_headers (Headers m)"
  unfolding ParseInto_def parseBytes_def
  by (erule parse_lines_induct)
     (auto simp: wf_headers_clear parse_start_line_frame intro: parse_header_line_wf)

section \<open>Reuse of pooled messages\<close>

text \<open>Two messages that agree but for the keys that carry no value.\<close>

definition same_message :: "message \<Rightarrow> message \<Rightarrow> bool" where
  "same_message m n \<longleftrightarrow>
     StartLine m = StartLine n \<and> Method m = Method n \<and> RequestURI m = RequestURI n
     \<and> StatusCode m = StatusCode n \<and> Reason m = Reason n \<and> Body m = Body n \<and> Raw m = Raw n
     \<and> hs.same (Headers m) (Headers n)"

definition same_but_start :: "message \<Rightarrow> message \<Rightarrow> bool" where
  "same_but_start m n \<longleftrightarrow>
     Method m = Method n \<and> RequestURI m = RequestURI n
     \<and> StatusCode m = StatusCode n \<and> Reason m = Reason n \<and> Body m = Body n \<and> Raw m = Raw n
     \<and> hs.same (Headers m) (Headers n)"

lemma parse_start_line_same:
  "same_but_start m n \<Longrightarrow> rel_result same_message (parse_start_line line m) (parse_start_line line n)"
  by (auto simp: parse_start_line_def Let_def rel_result_def same_message_def same_but_start_def
      split: option.splits prod.splits)

lemma parse_header_line_same:
  "same_message m n \<Longrightarrow> rel_result same_message (parse_header_line line m) (parse_header_line line n)"
  by (auto simp: parse_header_line_def rel_result_def same_message_def intro: hs.same_add
      split: option.splits)

lemma same_message_start: "same_message m n \<Longrightarrow> same_but_start m n"
  by (simp add: same_message_def same_but_start_def)

lemma same_message_body: "same_message m n \<Longrightarrow> same_message (m\<lparr>Body := b\<rparr>) (n\<lparr>Body := b\<rparr>)"
  by (simp add: same_message_def)

lemma parse_lines_same:
  assumes "same_but_start m n"
  shows "rel_result same_message (parse_lines 0 raw m) (parse_lines 0 raw n)"
proof -
  obtain line rem where nl: "next_line raw = (line, rem)" by fastforce
  from parse_start_line_same [OF assms]
  have "rel_result same_message (parse_start_line (chop_cr line) m) (parse_start_line (chop_cr line) n)" .
  then consider (err) e where "parse_start_line (chop_cr line) m = Inl e"
      "parse_start_line (chop_cr line) n = Inl e"
    | (ok) m1 n1 where "parse_start_line (chop_cr line) m = Inr m1"
      "parse_start_line (chop_cr line) n = Inr n1" "same_message m1 n1"
    by (auto simp: rel_result_def elim: rel_sum.cases)
  then show ?thesis
  proof cases
    case err
    with nl show ?thesis by (simp add: parse_lines_step rel_result_def)
  next
    case ok
    have "rel_result same_message (parse_lines (Suc 0) b m1) (parse_lines (Suc 0) b n1)" for b
      using ok(3)
      by (rule parse_lines_rel)
         (blast intro: parse_start_line_same same_message_start parse_header_line_same
           same_message_body)+
    with ok nl show ?thesis
      by (auto simp: parse_lines_step rel_result_def split: option.splits)
  qed
qed

lemma ParseInto_Parse: "rel_result same_message (ParseInto pm raw) (Parse raw)"
  unfolding ParseInto_def Parse_def parseBytes_def
  by (rule parse_lines_same) (simp add: same_but_start_def empty_message_def hs.same_def hs.get_reset)

section \<open>Header lookup and the order of iteration\<close>

text \<open>
  \<^verbatim>\<open>Header\<close> ranges over a Go map, so its result must not depend on the iteration order.  It does
  not as soon as at most one key with a value folds to the name that is looked up.
\<close>

definition unique_fold :: "headers \<Rightarrow> string \<Rightarrow> bool" where
  "unique_fold hs name \<longleftrightarrow>
     (\<forall>k k'. strings_EqualFold k name \<and> strings_EqualFold k' name
        \<and> hdr_get hs k \<noteq> [] \<and> hdr_get hs k' \<noteq> [] \<longrightarrow> k = k')"

lemma hdr_get_in: "distinct (map fst hs) \<Longrightarrow> (k, vs) \<in> set hs \<Longrightarrow> hdr_get hs k = vs"
  by (simp add: hdr_get_def)

lemma hdr_get_nonempty_in: "hdr_get hs k \<noteq> [] \<Longrightarrow> (k, hdr_get hs k) \<in> set hs"
  by (auto simp: hdr_get_def split: option.splits dest: map_of_SomeD)

lemma Header_in:
  "Header hs name = Some v \<Longrightarrow> \<exists>k vs. (k, v # vs) \<in> set hs \<and> strings_EqualFold k name"
  by (induction hs name rule: Header.induct) (auto split: if_splits simp: neq_Nil_conv)

lemma Header_None:
  "Header hs name = None \<longleftrightarrow> (\<forall>(k, vs) \<in> set hs. strings_EqualFold k name \<longrightarrow> vs = [])"
  by (induction hs name rule: Header.induct) auto

lemma Header_unique:
  assumes "distinct (map fst hs)" and "unique_fold hs name"
    and "strings_EqualFold k name" and "hdr_get hs k = v # vs"
  shows "Header hs name = Some v"
proof -
  have mem: "(k, v # vs) \<in> set hs" using hdr_get_nonempty_in [of hs k] assms(4) by simp
  have "Header hs name \<noteq> None"
  proof
    assume "Header hs name = None"
    with mem assms(3) show False by (auto simp: Header_None)
  qed
  then obtain w where w: "Header hs name = Some w" by blast
  then obtain k' ws where k': "(k', w # ws) \<in> set hs" "strings_EqualFold k' name"
    by (auto dest: Header_in)
  with assms(1) have "hdr_get hs k' = w # ws" by (simp add: hdr_get_in)
  with k'(2) assms(2-4) have "k' = k" unfolding unique_fold_def by (metis list.distinct(1))
  with \<open>hdr_get hs k' = w # ws\<close> assms(4) w show ?thesis by simp
qed

lemma unique_fold_same: "hs.same hs hs' \<Longrightarrow> unique_fold hs name \<Longrightarrow> unique_fold hs' name"
  by (simp add: unique_fold_def hs.same_def)

lemma Header_same:
  assumes "hs.same hs hs'" and "distinct (map fst hs)" and "distinct (map fst hs')"
    and "unique_fold hs name"
  shows "Header hs name = Header hs' name"
proof -
  have imp: "Header b name = Some v"
    if "hs.same a b" "distinct (map fst a)" "distinct (map fst b)" "unique_fold a name"
       "Header a name = Some v" for a b v
  proof -
    from that(5) obtain k vs where "(k, v # vs) \<in> set a" and fold: "strings_EqualFold k name"
      by (auto dest: Header_in)
    then have "hdr_get b k = v # vs" using that(1,2) by (metis hdr_get_in hs.same_def)
    with that fold show ?thesis by (auto intro: Header_unique unique_fold_same)
  qed
  have sym: "hs.same hs' hs" using assms(1) by (simp add: hs.same_def)
  show ?thesis
    using imp [OF assms(1-4)] imp [OF sym assms(3,2) unique_fold_same [OF assms(1,4)]]
    by (cases "Header hs name"; cases "Header hs' name") auto
qed

lemma same_perm: "distinct (map fst hs) \<Longrightarrow> mset hs = mset hs' \<Longrightarrow> hs.same hs hs'"
  unfolding hs.same_def hdr_get_def
  by (metis map_of_eqI mset_eq_setD mset_map set_map map_of_inject_set mset_eq_imp_distinct_iff)

section \<open>Reading back what was written\<close>

lemma next_line_CRLF: "LF \<notin> set line \<Longrightarrow> next_line (line @ CRLF @ rest) = (line @ [CR], Some rest)"
  using Cut_append [of LF "line @ [CR]" rest] by (simp add: next_line_def)

lemma chop_cr_CR [simp]: "chop_cr (line @ [CR]) = line"
  by (simp add: chop_cr_def)

lemma parse_lines_idx: "0 < i \<Longrightarrow> 0 < j \<Longrightarrow> parse_lines i rest m = parse_lines j rest m"
proof (induction i rest m arbitrary: j rule: parse_lines.induct)
  case (1 i rest m)
  obtain line rem where nl: "next_line rest = (line, rem)" by fastforce
  show ?case
  proof (cases "chop_cr line = []")
    case True
    with nl "1.prems" show ?thesis by (simp add: parse_lines_body)
  next
    case False
    have "parse_lines (Suc i) b m1 = parse_lines (Suc j) b m1"
      if "rem = Some b" and "parse_line i (chop_cr line) m = Inr m1" for b m1
      using "1.IH" [OF nl [symmetric] refl _ that(2,1)] False by simp
    with False nl "1.prems" show ?thesis
      by (simp add: parse_lines_step split: sum.splits option.splits)
  qed
qed

lemma parse_lines_header:
  assumes "clean name" and "CHR '':'' \<notin> set name" and "clean v"
  shows "parse_lines (Suc 0) (header_line name v @ rest) m =
         parse_lines (Suc 0) rest (m\<lparr>Headers := hdr_append (Headers m) name [v]\<rparr>)"
proof -
  let ?line = "name @ '': '' @ v"
  have "LF \<notin> set ?line" using assms by (auto simp: clean_def)
  then have nl: "next_line (header_line name v @ rest) = (?line @ [CR], Some rest)"
    using next_line_CRLF [of ?line rest] by (simp add: header_line_def)
  have "strings_Cut ?line CHR '':'' = Some (name, SP # v)"
    using Cut_append [OF assms(2), of "SP # v"] by simp
  then have "parse_header_line ?line m = Inr (m\<lparr>Headers := hdr_append (Headers m) name [v]\<rparr>)"
    using assms by (simp add: parse_header_line_def clean_def)
  then show ?thesis
    unfolding parse_lines_step [OF nl, of "Suc 0", unfolded chop_cr_CR, simplified]
    by (simp add: parse_lines_idx [of "Suc (Suc 0)" "Suc 0"])
qed

lemma parse_lines_end:
  "parse_lines (Suc 0) (CRLF @ b) m = Inr (if b = [] then m else m\<lparr>Body := b\<rparr>)"
  using next_line_CRLF [of "[]" b] by (simp add: parse_lines_body chop_cr_def)

definition write_headers :: "(string \<times> string) list \<Rightarrow> string" where
  "write_headers ls = concat (map (\<lambda>(n, v). header_line n v) ls)"

definition read_headers :: "(string \<times> string) list \<Rightarrow> headers \<Rightarrow> headers" where
  "read_headers ls hs = fold (\<lambda>(n, v) h. hdr_append h n [v]) ls hs"

definition wf_line :: "string \<times> string \<Rightarrow> bool" where
  "wf_line l \<longleftrightarrow> clean (fst l) \<and> CHR '':'' \<notin> set (fst l) \<and> clean (snd l)"

lemma parse_lines_headers:
  "\<forall>l \<in> set ls. wf_line l \<Longrightarrow>
   parse_lines (Suc 0) (write_headers ls @ rest) m =
   parse_lines (Suc 0) rest (m\<lparr>Headers := read_headers ls (Headers m)\<rparr>)"
proof (induction ls arbitrary: m)
  case Nil
  then show ?case by (simp add: write_headers_def read_headers_def)
next
  case (Cons l ls)
  obtain n v where l: "l = (n, v)" by fastforce
  from Cons.prems l have "clean n" "CHR '':'' \<notin> set n" "clean v" by (auto simp: wf_line_def)
  with Cons l show ?case
    by (simp add: write_headers_def read_headers_def parse_lines_header)
qed

lemma hdr_get_read_headers:
  "hdr_get (read_headers ls hs) k = hdr_get hs k @ map snd (filter (\<lambda>l. fst l = k) ls)"
  by (induction ls arbitrary: hs) (auto simp: read_headers_def hs.get_add)

lemma read_headers_distinct:
  "distinct (map fst hs) \<Longrightarrow> distinct (map fst (read_headers ls hs))"
  by (induction ls arbitrary: hs) (auto simp: read_headers_def hdr_append_distinct)

lemma unique_fold_read_headers:
  assumes "\<forall>l \<in> set ls. strings_EqualFold (fst l) name \<longrightarrow> fst l = name"
  shows "unique_fold (read_headers ls []) name"
proof -
  have "k = name" if "strings_EqualFold k name" "hdr_get (read_headers ls []) k \<noteq> []" for k
  proof -
    from that(2) have "\<exists>l \<in> set ls. fst l = k"
      by (auto simp: hdr_get_read_headers filter_empty_conv)
    with assms that(1) show ?thesis by blast
  qed
  then show ?thesis unfolding unique_fold_def by metis
qed

section \<open>Responses read back\<close>

definition opt_line :: "headers \<Rightarrow> string \<Rightarrow> string list \<Rightarrow> (string \<times> string) list" where
  "opt_line hs name aliases =
     (case first_header hs (name # aliases) of None \<Rightarrow> [] | Some v \<Rightarrow> [(name, v)])"

definition response_lines :: "headers \<Rightarrow> (string \<times> string) list" where
  "response_lines hs =
     map (Pair ''Via'') (hdr_get hs ''Via'' @ hdr_get hs ''via'' @ hdr_get hs ''v'')
     @ opt_line hs ''From'' [''f''] @ opt_line hs ''To'' [''t'']
     @ opt_line hs ''Call-ID'' [''i''] @ opt_line hs ''CSeq'' []
     @ [(''Content-Length'', ''0'')]"

lemma write_headers_append: "write_headers (a @ b) = write_headers a @ write_headers b"
  by (simp add: write_headers_def)

lemma writeHdr_lines: "writeHdr hs name aliases = write_headers (opt_line hs name aliases)"
  unfolding writeHdr_def opt_line_def
  by (cases "first_header hs (name # aliases)") (simp_all add: write_headers_def del: first_header.simps)

lemma via_lines_lines:
  "via_lines hs = write_headers (map (Pair ''Via'') (hdr_get hs ''Via'' @ hdr_get hs ''via'' @ hdr_get hs ''v''))"
  by (simp add: via_lines_def write_headers_def hdr_get_def comp_def split: option.splits)

lemma BuildResponse_lines:
  "BuildResponse req code reason =
     (''SIP/2.0 '' @ strconv_Itoa code @ SP # reason) @ CRLF
     @ write_headers (response_lines (Headers req)) @ CRLF"
  unfolding BuildResponse_def response_lines_def via_lines_lines writeHdr_lines write_headers_append
  by (simp add: write_headers_def header_line_def)

lemma first_header_in:
  "first_header hs ns = Some v \<Longrightarrow> \<exists>k vs. (k, v # vs) \<in> set hs"
  by (induction hs ns rule: first_header.induct)
     (auto split: option.splits, use Header_in in blast)

lemma clean_literals:
  "clean ''Via''" "clean ''From''" "clean ''To''" "clean ''Call-ID''" "clean ''CSeq''"
  "clean ''Content-Length''" "clean ''0''"
  unfolding clean_def by code_simp+

lemma response_lines_wf:
  assumes "wf_headers hs"
  shows "\<forall>l \<in> set (response_lines hs). wf_line l"
proof -
  have val: "clean v" if "(k, vs) \<in> set hs" "v \<in> set vs" for k vs v
    using assms that by (auto simp: wf_headers_def)
  have via: "clean v" if "v \<in> set (hdr_get hs k)" for k v
    using val [OF hdr_get_nonempty_in that] that by force
  have fh: "clean v" if "first_header hs ns = Some v" for ns v
    using first_header_in [OF that] val by fastforce
  show ?thesis
    by (auto simp: response_lines_def opt_line_def wf_line_def clean_literals
        simp del: first_header.simps split: option.splits dest: via fh [OF sym])
qed

lemma status_line_clean:
  assumes "clean reason" and "reason \<noteq> []"
  shows "clean (''SIP/2.0 '' @ strconv_Itoa code @ SP # reason)"
proof -
  let ?line = "''SIP/2.0 '' @ strconv_Itoa code @ SP # reason"
  have "\<not> trail_space reason" using assms by (simp add: clean_def TrimSpace_id_iff)
  then have "\<not> trail_space ((''SIP/2.0 '' @ strconv_Itoa code) @ SP # reason)"
    using assms(2) by (rule trail_space_append_SP)
  moreover have "\<not> lead_space (CHR ''S'' # tl ?line)"
    by (rule lead_space_ascii) (simp_all add: space_runes_def)
  ultimately have "strings_TrimSpace ?line = ?line" by (simp add: TrimSpace_id_iff)
  moreover have "LF \<notin> set ?line"
    using assms(1) Itoa_set [of LF code] by (auto simp: clean_def)
  ultimately show ?thesis by (simp add: clean_def)
qed

lemma parse_status_line:
  assumes "clean reason" and "reason \<noteq> []" and "int64_range code"
  shows "parse_start_line (''SIP/2.0 '' @ strconv_Itoa code @ SP # reason) m =
     Inr (m\<lparr>StartLine := ''SIP/2.0 '' @ strconv_Itoa code @ SP # reason,
            StatusCode := code, Reason := reason\<rparr>)"
proof -
  have "SP \<notin> set (strconv_Itoa code)" using Itoa_set [of SP code] by auto
  then have "strings_IndexByte (strconv_Itoa code @ SP # reason) SP
    = Some (length (strconv_Itoa code))" by (rule IndexByte_append)
  then show ?thesis
    using status_line_clean [OF assms(1,2), of code] Atoi_Itoa [OF assms(3)]
    by (simp add: parse_start_line_def clean_def Let_def)
qed

lemma Parse_BuildResponse:
  assumes "wf_headers (Headers req)" and "clean reason" and "reason \<noteq> []" and "int64_range code"
  shows "Parse (BuildResponse req code reason) =
     Inr \<lparr>StartLine = ''SIP/2.0 '' @ strconv_Itoa code @ SP # reason, Method = [], RequestURI = [],
          StatusCode = code, Reason = reason,
          Headers = read_headers (response_lines (Headers req)) [],
          Body = [], Raw = BuildResponse req code reason\<rparr>"
proof -
  let ?st = "''SIP/2.0 '' @ strconv_Itoa code @ SP # reason"
  let ?rest = "write_headers (response_lines (Headers req)) @ CRLF"
  have "LF \<notin> set ?st" using status_line_clean [OF assms(2,3)] by (simp add: clean_def)
  then have nl: "next_line (BuildResponse req code reason) = (?st @ [CR], Some ?rest)"
    unfolding BuildResponse_lines by (rule next_line_CRLF)
  have rest: "parse_lines (Suc 0) ?rest m
      = Inr (m\<lparr>Headers := read_headers (response_lines (Headers req)) (Headers m)\<rparr>)" for m
    using parse_lines_headers [OF response_lines_wf [OF assms(1)], of CRLF m] parse_lines_end [of "[]"]
    by simp
  let ?m = "empty_message\<lparr>Raw := BuildResponse req code reason\<rparr>"
  have "parse_lines 0 (BuildResponse req code reason) ?m = parse_lines (Suc 0) ?rest
      (?m\<lparr>StartLine := ?st, StatusCode := code, Reason := reason\<rparr>)"
    using parse_lines_step [OF nl, of 0 ?m, unfolded chop_cr_CR]
    by (simp only: parse_status_line [OF assms(2-4)] if_True sum.case option.case simp_thms less_irrefl)
  then show ?thesis
    by (simp add: Parse_def parseBytes_def rest empty_message_def)
qed

lemma Header_read_headers:
  assumes "\<forall>l \<in> set ls. strings_EqualFold (fst l) name \<longrightarrow> fst l = name"
  shows "Header (read_headers ls []) name =
     (case map snd (filter (\<lambda>l. fst l = name) ls) of [] \<Rightarrow> None | v # vs \<Rightarrow> Some v)"
proof -
  have dist: "distinct (map fst (read_headers ls []))" by (rule read_headers_distinct) simp
  have get: "hdr_get (read_headers ls []) name = map snd (filter (\<lambda>l. fst l = name) ls)"
    by (simp add: hdr_get_read_headers)
  show ?thesis
  proof (cases "map snd (filter (\<lambda>l. fst l = name) ls)")
    case Nil
    have "vs = []" if "(k, vs) \<in> set (read_headers ls [])" "strings_EqualFold k name" for k vs
    proof (rule ccontr)
      assume "vs \<noteq> []"
      then have "\<exists>l \<in> set ls. fst l = k"
        using hdr_get_in [OF dist that(1)] by (auto simp: hdr_get_read_headers filter_empty_conv)
      then have "k = name" using assms that(2) by blast
      with get Nil hdr_get_in [OF dist that(1)] \<open>vs \<noteq> []\<close> show False by simp
    qed
    then have "Header (read_headers ls []) name = None" by (auto simp: Header_None)
    with Nil show ?thesis by simp
  next
    case (Cons v vs)
    have "Header (read_headers ls []) name = Some v"
      using dist unique_fold_read_headers [OF assms] EqualFold_refl
      by (rule Header_unique) (simp add: get Cons)
    with Cons show ?thesis by simp
  qed
qed

lemma response_names:
  "l \<in> set (response_lines hs) \<Longrightarrow>
   fst l \<in> {''Via'', ''From'', ''To'', ''Call-ID'', ''CSeq'', ''Content-Length''}"
  by (auto simp: response_lines_def opt_line_def simp del: first_header.simps split: option.splits)

lemma response_names_fold:
  assumes "name \<in> {''Via'', ''From'', ''To'', ''Call-ID'', ''CSeq'', ''Content-Length''}"
  shows "\<forall>l \<in> set (response_lines hs). strings_EqualFold (fst l) name \<longrightarrow> fst l = name"
proof -
  have "a = name" if "a \<in> {''Via'', ''From'', ''To'', ''Call-ID'', ''CSeq'', ''Content-Length''}"
      "strings_EqualFold a name" for a
    using that assms
    by (auto simp: strings_EqualFold_def strings_ToLower_def lower_char_def)
  with response_names show ?thesis by blast
qed

lemma filter_opt_line:
  "filter (\<lambda>l. fst l = name) (opt_line hs n as) = (if n = name then opt_line hs n as else [])"
  by (auto simp: opt_line_def simp del: first_header.simps split: option.splits)

lemma response_Header:
  fixes hs
  defines "rs \<equiv> read_headers (response_lines hs) []"
  shows "Header rs ''CSeq'' = Header hs ''CSeq''"
    and "Header rs ''Call-ID'' = first_header hs [''Call-ID'', ''i'']"
    and "Header rs ''From'' = first_header hs [''From'', ''f'']"
    and "Header rs ''To'' = first_header hs [''To'', ''t'']"
    and "Header rs ''Via'' =
      (case hdr_get hs ''Via'' @ hdr_get hs ''via'' @ hdr_get hs ''v'' of [] \<Rightarrow> None | v # vs \<Rightarrow> Some v)"
proof -
  note read = Header_read_headers [OF response_names_fold, of _ hs, folded rs_def]
  show "Header rs ''CSeq'' = Header hs ''CSeq''"
    by (simp add: read, simp add: response_lines_def filter_opt_line, simp add: opt_line_def split: option.splits)
  show "Header rs ''Call-ID'' = first_header hs [''Call-ID'', ''i'']"
    by (simp add: read, simp add: response_lines_def filter_opt_line, simp add: opt_line_def split: option.splits)
  show "Header rs ''From'' = first_header hs [''From'', ''f'']"
    by (simp add: read, simp add: response_lines_def filter_opt_line, simp add: opt_line_def split: option.splits)
  show "Header rs ''To'' = first_header hs [''To'', ''t'']"
    by (simp add: read, simp add: response_lines_def filter_opt_line, simp add: opt_line_def split: option.splits)
  have "filter (\<lambda>l. fst l = name) (map (Pair name) vs) = map (Pair name) vs" for name :: string and vs :: "string list"
    by (induction vs) auto
  then show "Header rs ''Via'' =
      (case hdr_get hs ''Via'' @ hdr_get hs ''via'' @ hdr_get hs ''v'' of [] \<Rightarrow> None | v # vs \<Rightarrow> Some v)"
    by (simp add: read, simp add: response_lines_def filter_opt_line comp_def)
qed

section \<open>Matching against the parsed or the cached request\<close>

lemma ParseCSeq_method:
  "ParseCSeq hs = Some (n, m) \<Longrightarrow> m \<noteq> [] \<and> strings_TrimSpace m = m"
  unfolding ParseCSeq_def
  by (rule Fields_trimmed [of _ "strings_TrimSpace (the (Header hs ''CSeq''))"])
     (auto simp: Let_def split: option.splits if_splits prod.splits)

lemma Parse_nonempty: "Parse raw = Inr m \<Longrightarrow> raw \<noteq> []"
  by (auto simp: Parse_def parseBytes_def parse_lines.simps [of 0 "[]"] next_line_def
      strings_Cut_def chop_cr_def parse_start_line_def)

lemma ParseInto_ok:
  assumes "Parse raw = Inr req"
  obtains req' where "ParseInto pm raw = Inr req'" "same_message req' req"
  using ParseInto_Parse [of pm raw] assms by (auto simp: rel_result_def elim: rel_sum.cases)

lemma ParseInto_distinct:
  "distinct (map fst (Headers pm)) \<Longrightarrow> ParseInto pm raw = Inr m \<Longrightarrow> distinct (map fst (Headers m))"
  unfolding ParseInto_def parseBytes_def
  by (erule parse_lines_induct)
     (auto simp: clear_headers_def comp_def case_prod_beta parse_start_line_frame
       parse_header_line_def hdr_append_distinct split: option.splits)

lemma Parse_distinct: "Parse raw = Inr m \<Longrightarrow> distinct (map fst (Headers m))"
  by (drule Parse_wf_headers) (simp add: wf_headers_def)

lemma ParseInto_Header:
  assumes "Parse raw = Inr req" and "ParseInto pm raw = Inr req'"
    and "distinct (map fst (Headers pm))" and "unique_fold (Headers req) name"
  shows "Header (Headers req') name = Header (Headers req) name"
proof -
  from ParseInto_Parse [of pm raw] assms(1,2) have "same_message req' req"
    by (simp add: rel_result_def)
  then have "hs.same (Headers req) (Headers req')" by (simp add: same_message_def hs.same_def)
  then show ?thesis
    using Header_same Parse_distinct [OF assms(1)] ParseInto_distinct [OF assms(3,2)] assms(4) by metis
qed

lemma MatchRecv_request:
  assumes "Parse raw = Inr req" and "distinct (map fst (Headers pm))"
    and "unique_fold (Headers req) ''CSeq''"
  shows "MatchRecv pm msg request response raw =
    (if request \<noteq> [] then strings_EqualFold (Method msg) request
     else response \<noteq> [] \<and> ResponseStatusMatches msg response
       \<and> (StatusCode req = 0 \<and> Method req \<noteq> [] \<longrightarrow>
            (case (ParseCSeq (Headers req), ParseCSeq (Headers msg)) of
               (Some (n, m), Some (n', m')) \<Rightarrow> n = n' \<and> strings_EqualFold m m'
             | _ \<Rightarrow> True)))"
proof -
  obtain req' where req': "ParseInto pm raw = Inr req'" "same_message req' req"
    using ParseInto_ok [OF assms(1)] .
  then have "ParseCSeq (Headers req') = ParseCSeq (Headers req)"
    unfolding ParseCSeq_def using ParseInto_Header assms by simp
  with req' Parse_nonempty [OF assms(1)] show ?thesis
    by (auto simp: MatchRecv_def same_message_def ParseCSeq_method split: option.splits prod.splits)
qed

lemma ResponseMatchesTransaction_request:
  assumes "Parse raw = Inr req" and "distinct (map fst (Headers pm))"
    and "unique_fold (Headers req) ''CSeq''" and "unique_fold (Headers req) ''Via''"
  shows "ResponseMatchesTransaction pm msg raw \<longleftrightarrow>
    (StatusCode req = 0 \<and> Method req \<noteq> [] \<longrightarrow>
       (case (ViaBranch (Headers req), ViaBranch (Headers msg)) of
          (Some b, Some b') \<Rightarrow>
            strings_EqualFold b b'
            \<and> (case (ParseCSeq (Headers req), ParseCSeq (Headers msg)) of
                 (Some (_, m), Some (_, m')) \<Rightarrow> strings_EqualFold m m'
               | _ \<Rightarrow> True)
        | _ \<Rightarrow> True))"
proof -
  obtain req' where req': "ParseInto pm raw = Inr req'" "same_message req' req"
    using ParseInto_ok [OF assms(1)] .
  then have "ParseCSeq (Headers req') = ParseCSeq (Headers req)"
    "ViaBranch (Headers req') = ViaBranch (Headers req)"
    unfolding ParseCSeq_def ViaBranch_def using ParseInto_Header assms by simp_all
  with req' Parse_nonempty [OF assms(1)] show ?thesis
    by (auto simp: ResponseMatchesTransaction_def same_message_def ParseCSeq_method
        split: option.splits prod.splits)
qed

lemma ResponseStatusMatches_Itoa:
  "int64_range code \<Longrightarrow> ResponseStatusMatches msg (strconv_Itoa code) \<longleftrightarrow> StatusCode msg = code"
  by (simp add: ResponseStatusMatches_def parseRecvResponseFilter_def Itoa_word ascii_word_trimmed
      Fields_word Atoi_Itoa)

lemma parse_lines_suffix:
  "parse_lines idx rest m = Inr m' \<Longrightarrow> Body m = [] \<Longrightarrow> \<exists>pre. rest = pre @ Body m'"
proof (induction idx rest m rule: parse_lines.induct)
  case (1 idx rest m)
  obtain line rem where nl: "next_line rest = (line, rem)" by fastforce
  have split: "\<exists>pre. rest = pre @ b" if "rem = Some b" for b
    using nl that
    by (auto simp: next_line_def split: option.splits dest!: Cut_SomeD(1))
  have keep: "Body n = []" if "parse_line idx (chop_cr line) m = Inr n" for n
    using that "1.prems"(2)
    by (auto simp: parse_start_line_frame parse_header_line_def split: if_splits option.splits)
  show ?case
  proof (cases "0 < idx \<and> chop_cr line = []")
    case True
    with nl "1.prems" split show ?thesis
      by (auto simp: parse_lines_body split: option.splits if_splits)
  next
    case False
    from "1.prems"(1) obtain n where n: "parse_line idx (chop_cr line) m = Inr n"
        and r: "(case rem of None \<Rightarrow> Inr n | Some b \<Rightarrow> parse_lines (Suc idx) b n) = Inr m'"
      unfolding parse_lines_step [OF nl False] by (auto split: sum.splits)
    show ?thesis
    proof (cases rem)
      case None
      with r keep [OF n] show ?thesis by simp
    next
      case (Some b)
      with r have "parse_lines (Suc idx) b n = Inr m'" by simp
      then have "\<exists>pre. b = pre @ Body m'"
        using "1.IH" [OF nl [symmetric] refl False n Some] keep [OF n] by simp
      with split [OF Some] show ?thesis by (metis append_assoc)
    qed
  qed
qed

lemma unique_fold_code [code]:
  "unique_fold hs name \<longleftrightarrow>
     (let ks = filter (\<lambda>k. strings_EqualFold k name \<and> hdr_get hs k \<noteq> []) (map fst hs)
      in list_all (\<lambda>k. list_all (\<lambda>k'. k = k') ks) ks)"
proof -
  have "k \<in> fst ` set hs" if "hdr_get hs k \<noteq> []" for k
    using hdr_get_nonempty_in [OF that] by force
  then show ?thesis unfolding unique_fold_def Let_def list_all_iff by auto
qed

section \<open>Properties\<close>

text \<open>
  A message that \<^verbatim>\<open>Parse\<close> accepts keeps the raw bytes, its body is the tail of
  them, and its header map is well formed: one entry per name, no name with a colon, and neither a
  name nor a value with a line feed or surrounding white space.
\<close>
lemma Parse_sound:
  assumes "Parse raw = Inr m"
  shows "Raw m = raw \<and> (\<exists>pre. raw = pre @ Body m) \<and> wf_headers (Headers m)"
proof -
  have "Raw m = raw"
    using assms unfolding Parse_def parseBytes_def
    by (rule parse_lines_induct)
       (auto simp: parse_start_line_frame parse_header_line_def split: option.splits)
  moreover have "\<exists>pre. raw = pre @ Body m"
    using assms unfolding Parse_def parseBytes_def
    by (rule parse_lines_suffix) (simp add: empty_message_def)
  ultimately show ?thesis using Parse_wf_headers [OF assms] by blast
qed

definition sample_invite :: string where
  "sample_invite = ''INVITE sip:bob@host SIP/2.0'' @ CRLF
     @ ''Via: SIP/2.0/UDP h:5060;branch=z9hG4bK-1'' @ CRLF @ ''From: <sip:a@h>;tag=1'' @ CRLF
     @ ''To: <sip:b@h>'' @ CRLF @ ''Call-ID: 1-2@h'' @ CRLF @ ''CSeq: 7 INVITE'' @ CRLF
     @ ''Content-Length: 4'' @ CRLF @ CRLF @ ''v=0'' @ [LF]"

definition sample_request :: message where
  "sample_request = \<lparr>StartLine = ''INVITE sip:bob@host SIP/2.0'', Method = ''INVITE'',
     RequestURI = ''sip:bob@host'', StatusCode = 0, Reason = [],
     Headers = [(''Via'', [''SIP/2.0/UDP h:5060;branch=z9hG4bK-1'']),
       (''From'', [''<sip:a@h>;tag=1'']), (''To'', [''<sip:b@h>'']), (''Call-ID'', [''1-2@h'']),
       (''CSeq'', [''7 INVITE'']), (''Content-Length'', [''4''])],
     Body = ''v=0'' @ [LF], Raw = sample_invite\<rparr>"

lemma Parse_sample: "Parse sample_invite = Inr sample_request"
  by code_simp

text \<open>
  C16: Reusing a pooled message is invisible: whatever an earlier call left in it, parsing
  into it fails with the same error as \<^verbatim>\<open>Parse\<close> or delivers the same fields and the same values
  for every header name.
\<close>
theorem ParseInto_transparent: "rel_result same_message (ParseInto pm raw) (Parse raw)"
  by (rule ParseInto_Parse)


lemma ParseInto_sample: "ParseInto sample_request sample_invite = Inr sample_request"
  by code_simp

lemma sample_fold: "unique_fold (Headers sample_request) ''cseq''"
  "unique_fold (Headers sample_request) ''CSeq''" "unique_fold (Headers sample_request) ''Via''"
  by code_simp+

lemma sample_distinct: "distinct (map fst (Headers sample_request))"
  by code_simp


text \<open>
  C15: The response that \<^verbatim>\<open>BuildResponse\<close> writes to a parsed request parses again,
  with the given status code and reason, an empty body, and the From, To, Call-ID (long or compact
  names) and CSeq values of the request.
\<close>
theorem BuildResponse_roundtrip:
  assumes "Parse raw = Inr req" and "clean reason" and "reason \<noteq> []" and "int64_range code"
  shows "\<exists>resp. Parse (BuildResponse req code reason) = Inr resp
     \<and> StatusCode resp = code \<and> Reason resp = reason \<and> Method resp = [] \<and> Body resp = []
     \<and> Header (Headers resp) ''From'' = first_header (Headers req) [''From'', ''f'']
     \<and> Header (Headers resp) ''To'' = first_header (Headers req) [''To'', ''t'']
     \<and> Header (Headers resp) ''Call-ID'' = first_header (Headers req) [''Call-ID'', ''i'']
     \<and> ParseCSeq (Headers resp) = ParseCSeq (Headers req)"
  unfolding Parse_BuildResponse [OF Parse_wf_headers [OF assms(1)] assms(2-4)]
  by (simp add: response_Header ParseCSeq_def del: first_header.simps)

lemma clean_OK: "clean ''OK''" and clean_Trying: "clean ''Trying''"
  unfolding clean_def by code_simp+

theorem BuildResponse_roundtrip_witness:
  "\<exists>resp. Parse (BuildResponse sample_request 200 ''OK'') = Inr resp \<and> StatusCode resp = 200
     \<and> ParseCSeq (Headers resp) = Some (7, ''INVITE'')"
proof -
  have "ParseCSeq (Headers sample_request) = Some (7, ''INVITE'')" by code_simp
  with BuildResponse_roundtrip [OF Parse_sample clean_OK, of 200] show ?thesis
    by (auto simp: int64_range_def)
qed



lemma fold_append_get:
  "distinct (map fst hs) \<Longrightarrow>
   hdr_get (fold (\<lambda>(k, vs) h. if vs = [] then h else hdr_append h k vs) hs h0) k
     = hdr_get h0 k @ hdr_get hs k"
proof (induction hs arbitrary: h0)
  case (Cons p hs)
  obtain k' vs where p: "p = (k', vs)" by fastforce
  from Cons.prems p have "hdr_get hs k' = []"
    by (auto simp: hdr_get_def split: option.splits dest!: map_of_SomeD intro: rev_image_eqI)
  with Cons p show ?case by (auto simp: hs.get_add) (simp_all add: hdr_get_def)
qed simp

text \<open>
  Cloning is faithful: \<^verbatim>\<open>Copy\<close> and \<^verbatim>\<open>CopyInto\<close>, the latter into any recycled message,
  give a message with the fields and the header values of the source, and every key of a clone made
  by \<^verbatim>\<open>Copy\<close> has a value.
\<close>
lemma Copy_faithful:
  assumes "distinct (map fst (Headers src))"
  shows "same_message (Copy src) src \<and> same_message (CopyInto dst src) src
     \<and> (\<forall>(k, vs) \<in> set (Headers (Copy src)). vs \<noteq> [])"
proof -
  have "hdr_get (filter (\<lambda>(k, vs). vs \<noteq> []) hs) k = hdr_get hs k" if "distinct (map fst hs)" for hs k
    using that
    by (induction hs) (auto simp: hdr_get_def split: option.splits dest: map_of_SomeD intro: rev_image_eqI)
  with assms show ?thesis
    by (auto simp: same_message_def Copy_def CopyInto_def hs.same_def fold_append_get hs.get_reset)
qed

end
