(* ===== verification/SipStream.thy ===== *)
theory SipStream
  imports SipMessage
begin

text \<open>
  Stream framing, \<^verbatim>\<open>internal/sip/stream.go\<close>: \<^verbatim>\<open>ReadMessage\<close> takes one SIP message from a buffered
  reader (TCP or TLS).  The reader is the list of the bytes still to come together with the error
  it ends with; how the bytes arrive in packets is invisible to \<^verbatim>\<open>ReadString\<close> and \<^verbatim>\<open>ReadFull\<close>.
  The local header map of the Go function is filled but never read, so it is left out.
\<close>

section \<open>The reader\<close>

datatype read_error = EOF | TransportError string

record reader =
  pending :: string
  final :: read_error

text \<open>\<^verbatim>\<open>bufio.Reader.ReadString\<close> with the delimiter kept, and \<^verbatim>\<open>io.ReadFull\<close>.\<close>

definition ReadString :: "reader \<Rightarrow> (string \<times> read_error option) \<times> reader" where
  "ReadString r =
     (case strings_Cut (pending r) LF of
        Some (a, b) \<Rightarrow> ((a @ [LF], None), r\<lparr>pending := b\<rparr>)
      | None \<Rightarrow> ((pending r, Some (final r)), r\<lparr>pending := []\<rparr>))"

definition ReadFull :: "nat \<Rightarrow> reader \<Rightarrow> (read_error, string) result \<times> reader" where
  "ReadFull n r =
     (if n \<le> length (pending r) then (Inr (take n (pending r)), r\<lparr>pending := drop n (pending r)\<rparr>)
      else (Inl (final r), r\<lparr>pending := []\<rparr>))"

datatype stream_error =
    PeerClosed
  | ClosedInStartLine
  | ClosedInHeaders
  | ClosedInBody int
  | Transport string
  | StreamMalformedHeader string
  | StreamParse sip_error

text \<open>Allocating a slice of a negative length, or of more than the address space, panics.\<close>

datatype read_outcome = ReadOk message reader | ReadErr stream_error | ReadPanic

definition maxAlloc :: int where "maxAlloc = 2 ^ 48"

definition makeslice_ok :: "int \<Rightarrow> bool" where
  "makeslice_ok n \<longleftrightarrow> 0 \<le> n \<and> n \<le> maxAlloc"

section \<open>ReadMessage\<close>

lemma ReadString_shorter: "ReadString r = ((line, None), r') \<Longrightarrow> length (pending r') < length (pending r)"
  by (auto simp: ReadString_def split: option.splits dest!: Cut_SomeD(1))

function read_start :: "reader \<Rightarrow> (stream_error, string \<times> reader) result" where
  "read_start r =
     (case ReadString r of
        ((line, Some e), _) \<Rightarrow>
          Inl (case e of
                 EOF \<Rightarrow> if strings_TrimSpace line = [] then PeerClosed else ClosedInStartLine
               | TransportError t \<Rightarrow> Transport t)
      | ((line, None), r') \<Rightarrow>
          let startLine = strings_TrimRight line CRLF
          in if strings_TrimSpace startLine \<noteq> [] then Inr (startLine, r') else read_start r')"
  by pat_completeness auto
termination
  by (relation "measure (\<lambda>r. length (pending r))") (auto dest!: ReadString_shorter [OF sym])

declare read_start.simps [simp del]

text \<open>The header loop: \<open>acc\<close> is the builder, \<open>cl\<close> is \<^verbatim>\<open>contentLength\<close>.\<close>

definition content_length :: "string \<Rightarrow> string \<Rightarrow> int \<Rightarrow> int" where
  "content_length name value cl =
     (if strings_EqualFold name ''Content-Length'' then fst (strconv_Atoi value) else cl)"

function read_header_lines :: "string \<Rightarrow> int \<Rightarrow> reader \<Rightarrow> (stream_error, string \<times> int \<times> reader) result" where
  "read_header_lines acc cl r =
     (case ReadString r of
        ((line0, Some e), _) \<Rightarrow>
          Inl (case e of EOF \<Rightarrow> ClosedInHeaders | TransportError t \<Rightarrow> Transport t)
      | ((line0, None), r') \<Rightarrow>
          let line = strings_TrimRight line0 CRLF;
              acc' = acc @ line @ CRLF
          in if line = [] then Inr (acc', cl, r')
             else (case strings_Cut line CHR '':'' of
                     None \<Rightarrow> Inl (StreamMalformedHeader line)
                   | Some (name, value) \<Rightarrow>
                       read_header_lines acc'
                         (content_length (strings_TrimSpace name) (strings_TrimSpace value) cl) r'))"
  by pat_completeness auto
termination
  by (relation "measure (\<lambda>(acc, cl, r). length (pending r))") (auto dest!: ReadString_shorter [OF sym])

declare read_header_lines.simps [simp del]

definition finish_message :: "string \<Rightarrow> reader \<Rightarrow> read_outcome" where
  "finish_message raw r =
     (case Parse raw of Inl e \<Rightarrow> ReadErr (StreamParse e) | Inr msg \<Rightarrow> ReadOk msg r)"

definition read_body :: "string \<Rightarrow> int \<Rightarrow> reader \<Rightarrow> read_outcome" where
  "read_body acc cl r =
     (if \<not> makeslice_ok cl then ReadPanic
      else if 0 < cl then
        (case ReadFull (nat cl) r of
           (Inl EOF, _) \<Rightarrow> ReadErr (ClosedInBody cl)
         | (Inl (TransportError t), _) \<Rightarrow> ReadErr (Transport t)
         | (Inr body, r') \<Rightarrow> finish_message (acc @ body) r')
      else finish_message acc r)"

definition ReadMessage :: "reader \<Rightarrow> read_outcome" where
  "ReadMessage r =
     (case read_start r of
        Inl e \<Rightarrow> ReadErr e
      | Inr (startLine, r1) \<Rightarrow>
          (case read_header_lines (startLine @ CRLF) 0 r1 of
             Inl e \<Rightarrow> ReadErr e
           | Inr (acc, cl, r2) \<Rightarrow> read_body acc cl r2))"

text \<open>A connection's read loop takes messages until the first failure.\<close>

fun read_n :: "nat \<Rightarrow> reader \<Rightarrow> message list \<times> reader" where
  "read_n 0 r = ([], r)"
| "read_n (Suc n) r =
     (case ReadMessage r of
        ReadOk m r' \<Rightarrow> (case read_n n r' of (ms, r'') \<Rightarrow> (m # ms, r''))
      | _ \<Rightarrow> ([], r))"

section \<open>Lines of the stream\<close>

lemma TrimRight_CRLF:
  assumes "line = [] \<or> last line \<notin> {CR, LF}"
  shows "strings_TrimRight (line @ CRLF) CRLF = line"
  using assms by (cases line rule: rev_cases) (auto simp: strings_TrimRight_def)

lemma ReadString_CRLF:
  assumes "LF \<notin> set line" and "pending r = line @ CRLF @ rest"
  shows "ReadString r = ((line @ CRLF, None), r\<lparr>pending := rest\<rparr>)"
  using assms Cut_append [of LF "line @ [CR]" rest] by (simp add: ReadString_def)

lemma clean_last: "clean s \<Longrightarrow> s \<noteq> [] \<Longrightarrow> last s \<notin> {CR, LF}"
proof
  assume "clean s" "s \<noteq> []" "last s \<in> {CR, LF}"
  then obtain t c where s: "s = t @ [c]" and c: "c \<in> {CR, LF}" by (metis append_butlast_last_id)
  then have "trail_space s" by (auto simp: trail_space_def HasSuffix_iff space_runes_def)
  with \<open>clean s\<close> show False by (simp add: clean_def TrimSpace_id_iff)
qed

lemma read_start_line:
  assumes "clean st" and "st \<noteq> []" and "pending r = st @ CRLF @ rest"
  shows "read_start r = Inr (st, r\<lparr>pending := rest\<rparr>)"
proof -
  have "ReadString r = ((st @ CRLF, None), r\<lparr>pending := rest\<rparr>)"
    using assms by (intro ReadString_CRLF) (simp_all add: clean_def)
  moreover have "strings_TrimRight (st @ CRLF) CRLF = st"
    using clean_last [OF assms(1)] by (intro TrimRight_CRLF) blast
  ultimately show ?thesis
    using assms(1,2) by (simp add: read_start.simps [of r] Let_def clean_def)
qed

lemma read_start_blank: "read_start (r\<lparr>pending := CRLF @ rest\<rparr>) = read_start (r\<lparr>pending := rest\<rparr>)"
proof -
  have "ReadString (r\<lparr>pending := CRLF @ rest\<rparr>) = (([] @ CRLF, None), r\<lparr>pending := rest\<rparr>)"
    using ReadString_CRLF [of "[]" "r\<lparr>pending := CRLF @ rest\<rparr>" rest] by simp
  moreover have "strings_TrimRight ([] @ CRLF) CRLF = []" by (rule TrimRight_CRLF) simp
  ultimately show ?thesis
    by (subst read_start.simps) (simp add: Let_def)
qed

definition wire_length :: "(string \<times> string) list \<Rightarrow> int \<Rightarrow> int" where
  "wire_length ls cl = fold (\<lambda>(n, v). content_length n v) ls cl"

lemma read_header_line:
  assumes "wf_line (n, v)" and "pending r = header_line n v @ rest"
  shows "read_header_lines acc cl r =
    read_header_lines (acc @ header_line n v) (content_length n v cl) (r\<lparr>pending := rest\<rparr>)"
proof -
  let ?line = "n @ '': '' @ v"
  from assms(1) have n: "clean n" "CHR '':'' \<notin> set n" and v: "clean v" by (auto simp: wf_line_def)
  have "LF \<notin> set ?line" using n v by (auto simp: clean_def)
  then have rs: "ReadString r = ((?line @ CRLF, None), r\<lparr>pending := rest\<rparr>)"
    by (rule ReadString_CRLF) (simp add: assms(2) header_line_def)
  have "last ?line \<notin> {CR, LF}" using clean_last [OF v] by auto
  then have tr: "strings_TrimRight (?line @ CRLF) CRLF = ?line" by (rule TrimRight_CRLF [OF disjI2])
  have "strings_Cut ?line CHR '':'' = Some (n, SP # v)" using Cut_append [OF n(2), of "SP # v"] by simp
  with rs tr n v show ?thesis
    by (subst read_header_lines.simps) (simp add: Let_def clean_def header_line_def)
qed

lemma read_header_block:
  "\<forall>l \<in> set ls. wf_line l \<Longrightarrow> pending r = write_headers ls @ CRLF @ rest \<Longrightarrow>
   read_header_lines acc cl r =
     Inr (acc @ write_headers ls @ CRLF, wire_length ls cl, r\<lparr>pending := rest\<rparr>)"
proof (induction ls arbitrary: acc cl r)
  case Nil
  then have "ReadString r = (([] @ CRLF, None), r\<lparr>pending := rest\<rparr>)"
    by (intro ReadString_CRLF) (simp_all add: write_headers_def)
  moreover have "strings_TrimRight ([] @ CRLF) CRLF = []" by (rule TrimRight_CRLF) simp
  ultimately show ?case
    by (subst read_header_lines.simps) (simp add: Let_def write_headers_def wire_length_def)
next
  case (Cons l ls)
  obtain n v where l: "l = (n, v)" by fastforce
  let ?rest = "write_headers ls @ CRLF @ rest"
  have "read_header_lines acc cl r =
      read_header_lines (acc @ header_line n v) (content_length n v cl) (r\<lparr>pending := ?rest\<rparr>)"
    using Cons.prems l by (intro read_header_line) (simp_all add: write_headers_def)
  also have "\<dots> = Inr ((acc @ header_line n v) @ write_headers ls @ CRLF,
      wire_length ls (content_length n v cl), r\<lparr>pending := ?rest\<rparr>\<lparr>pending := rest\<rparr>)"
    using Cons.prems by (intro Cons.IH) simp_all
  finally show ?case by (simp add: l write_headers_def wire_length_def)
qed

section \<open>Messages on the wire\<close>

text \<open>
  A message as it is written on the wire, and when it is well formed: a clean start line, clean
  header lines, and a body whose length the last Content-Length header gives (no header: no body).
\<close>

type_synonym wire = "string \<times> (string \<times> string) list \<times> string"

fun wire_bytes :: "wire \<Rightarrow> string" where
  "wire_bytes (st, ls, body) = st @ CRLF @ write_headers ls @ CRLF @ body"

fun wire_ok :: "wire \<Rightarrow> bool" where
  "wire_ok (st, ls, body) \<longleftrightarrow>
     st \<noteq> [] \<and> clean st \<and> (\<forall>l \<in> set ls. wf_line l)
     \<and> wire_length ls 0 = int (length body) \<and> int (length body) \<le> maxAlloc"

lemma ReadMessage_wire:
  assumes "wire_ok w" and "pending r = wire_bytes w @ rest"
  shows "ReadMessage r = finish_message (wire_bytes w) (r\<lparr>pending := rest\<rparr>)"
proof -
  obtain st ls body where w: "w = (st, ls, body)" by (cases w)
  from assms w have start: "read_start r = Inr (st, r\<lparr>pending := write_headers ls @ CRLF @ body @ rest\<rparr>)"
    by (intro read_start_line) simp_all
  have hdrs: "read_header_lines (st @ CRLF) 0 (r\<lparr>pending := write_headers ls @ CRLF @ body @ rest\<rparr>) =
      Inr ((st @ CRLF) @ write_headers ls @ CRLF, wire_length ls 0,
        r\<lparr>pending := write_headers ls @ CRLF @ body @ rest\<rparr>\<lparr>pending := body @ rest\<rparr>)"
    using assms w by (intro read_header_block) simp_all
  show ?thesis
    using assms(1) w unfolding ReadMessage_def start sum.case prod.case hdrs
    by (auto simp: read_body_def makeslice_ok_def ReadFull_def)
qed

lemma ReadMessage_blank: "ReadMessage (r\<lparr>pending := CRLF @ rest\<rparr>) = ReadMessage (r\<lparr>pending := rest\<rparr>)"
  unfolding ReadMessage_def read_start_blank ..

lemma ReadMessage_blanks:
  "ReadMessage (r\<lparr>pending := concat (replicate n CRLF) @ rest\<rparr>) = ReadMessage (r\<lparr>pending := rest\<rparr>)"
proof (induction n)
  case (Suc n)
  then show ?case
    using ReadMessage_blank [where r = r and rest = "concat (replicate n CRLF) @ rest"] by simp
qed simp

section \<open>Truncated input\<close>

text \<open>\<open>p\<close> lacks at least the last byte of \<open>s\<close>.\<close>

definition cut_short :: "string \<Rightarrow> string \<Rightarrow> bool" where
  "cut_short p s \<longleftrightarrow> (\<exists>q. q \<noteq> [] \<and> s = p @ q)"

lemma cut_short_append:
  assumes "cut_short p (a @ b)"
  obtains (first) "cut_short p a" | (second) p' where "p = a @ p'" "cut_short p' b"
proof -
  from assms obtain q where q: "q \<noteq> []" "a @ b = p @ q" by (auto simp: cut_short_def)
  from q(2) consider us where "a = p @ us" "us @ b = q" | us where "a @ us = p" "b = us @ q"
    unfolding append_eq_append_conv2 by blast
  then show thesis
  proof cases
    case (1 us)
    show thesis
    proof (cases "us = []")
      case True
      with 1 q(1) show thesis by (intro second [of "[]"]) (auto simp: cut_short_def)
    next
      case False
      with 1(1) show thesis by (intro first) (auto simp: cut_short_def)
    qed
  next
    case (2 us)
    with q(1) show thesis by (intro second [of us]) (auto simp: cut_short_def)
  qed
qed

lemma cut_short_line:
  assumes "cut_short p (line @ CRLF)" and "LF \<notin> set line"
  shows "LF \<notin> set p"
proof -
  from assms(1) obtain q where "q \<noteq> []" and eq: "line @ CRLF = p @ q" by (auto simp: cut_short_def)
  then obtain q' x where "q = q' @ [x]" by (cases q rule: rev_cases) auto
  with eq have "(line @ [CR]) @ [LF] = (p @ q') @ [x]" by simp
  then have "p @ q' = line @ [CR]" by (simp only: append1_eq_conv)
  then have "set p \<subseteq> set (line @ [CR])" by (metis Un_upper1 set_append)
  with assms(2) show ?thesis by auto
qed

lemma ReadString_end:
  "LF \<notin> set (pending r) \<Longrightarrow> ReadString r = ((pending r, Some (final r)), r\<lparr>pending := []\<rparr>)"
  by (simp add: ReadString_def Cut_None [THEN iffD2])

lemma read_header_cut:
  "\<forall>l \<in> set ls. wf_line l \<Longrightarrow> cut_short (pending r) (write_headers ls @ CRLF) \<Longrightarrow> final r = EOF \<Longrightarrow>
   read_header_lines acc cl r = Inl ClosedInHeaders"
proof (induction ls arbitrary: acc cl r)
  case Nil
  then have "LF \<notin> set (pending r)"
    using cut_short_line [of "pending r" "[]"] by (simp add: write_headers_def)
  with Nil show ?case by (simp add: read_header_lines.simps [of acc] ReadString_end)
next
  case (Cons l ls)
  obtain n v where l: "l = (n, v)" by fastforce
  have wf: "wf_line (n, v)" using Cons.prems l by simp
  have "cut_short (pending r) (header_line n v @ (write_headers ls @ CRLF))"
    using Cons.prems(2) l by (simp add: write_headers_def)
  then show ?case
  proof (cases rule: cut_short_append)
    case first
    then have "cut_short (pending r) ((n @ '': '' @ v) @ CRLF)" by (simp add: header_line_def)
    moreover have "LF \<notin> set (n @ '': '' @ v)" using wf by (auto simp: wf_line_def clean_def)
    ultimately have "LF \<notin> set (pending r)" by (rule cut_short_line)
    with Cons.prems(3) show ?thesis by (simp add: read_header_lines.simps [of acc] ReadString_end)
  next
    case (second p')
    then show ?thesis
      using Cons.prems by (simp add: read_header_line [OF wf second(1)] Cons.IH)
  qed
qed

lemma ReadMessage_cut:
  assumes "wire_ok w" and "cut_short (pending r) (wire_bytes w)" and "final r = EOF"
  shows "ReadMessage r \<in> ReadErr ` {PeerClosed, ClosedInStartLine, ClosedInHeaders}
    \<union> range (\<lambda>n. ReadErr (ClosedInBody n))"
proof -
  obtain st ls body where w: "w = (st, ls, body)" by (cases w)
  let ?hs = "write_headers ls @ CRLF"
  from assms(1) w have st: "clean st" "st \<noteq> []" and ls: "\<forall>l \<in> set ls. wf_line l"
    and len: "wire_length ls 0 = int (length body)" "makeslice_ok (int (length body))"
    by (simp_all add: makeslice_ok_def)
  have "cut_short (pending r) ((st @ CRLF) @ (?hs @ body))" using assms(2) w by simp
  then show ?thesis
  proof (cases rule: cut_short_append)
    case first
    then have "LF \<notin> set (pending r)" using st(1) by (auto simp: clean_def dest: cut_short_line)
    with assms(3) show ?thesis
      by (auto simp: ReadMessage_def read_start.simps [of r] ReadString_end)
  next
    case (second p)
    then have start: "read_start r = Inr (st, r\<lparr>pending := p\<rparr>)"
      by (intro read_start_line st) simp
    from second(2) show ?thesis
    proof (cases rule: cut_short_append)
      case first
      with ls assms(3) show ?thesis
        by (simp add: ReadMessage_def start read_header_cut)
    next
      case (second b)
      have "read_header_lines (st @ CRLF) 0 (r\<lparr>pending := p\<rparr>) =
          Inr ((st @ CRLF) @ write_headers ls @ CRLF, wire_length ls 0, r\<lparr>pending := p\<rparr>\<lparr>pending := b\<rparr>)"
        using second(1) by (intro read_header_block ls) simp
      moreover have "length b < length body" using second(2) by (auto simp: cut_short_def)
      ultimately show ?thesis
        using assms(3) len
        by (cases "body = []") (simp_all add: ReadMessage_def start read_body_def ReadFull_def)
    qed
  qed
qed

section \<open>Properties\<close>

text \<open>
  C4: Framing: a stream that carries well-formed messages, each preceded by any number
  of CRLF keep-alives, is read back as exactly these messages, in order, and the reader is left at
  the byte after the last one.
\<close>
theorem ReadMessage_frames:
  assumes "\<forall>(k, w, m) \<in> set fs. wire_ok w \<and> Parse (wire_bytes w) = Inr m"
    and "pending r = concat (map (\<lambda>(k, w, m). concat (replicate k CRLF) @ wire_bytes w) fs) @ rest"
  shows "read_n (length fs) r = (map (\<lambda>(k, w, m). m) fs, r\<lparr>pending := rest\<rparr>)"
  using assms
proof (induction fs arbitrary: r)
  case Nil
  then show ?case by simp
next
  case (Cons f fs)
  obtain k w m where f: "f = (k, w, m)" by (cases f)
  let ?rest = "concat (map (\<lambda>(k, w, m). concat (replicate k CRLF) @ wire_bytes w) fs) @ rest"
  have "r = r\<lparr>pending := concat (replicate k CRLF) @ wire_bytes w @ ?rest\<rparr>"
    using Cons.prems(2) f by simp
  then have "ReadMessage r = ReadMessage (r\<lparr>pending := wire_bytes w @ ?rest\<rparr>)"
    using ReadMessage_blanks by metis
  also have "\<dots> = ReadOk m (r\<lparr>pending := ?rest\<rparr>)"
    using Cons.prems(1) f
    by (simp add: ReadMessage_wire [of w _ ?rest] finish_message_def)
  finally show ?case using Cons by (simp add: f)
qed

definition sample_wire :: wire where
  "sample_wire = (''INVITE sip:bob@host SIP/2.0'',
     [(''Via'', ''SIP/2.0/UDP h:5060;branch=z9hG4bK-1''), (''From'', ''<sip:a@h>;tag=1''),
      (''To'', ''<sip:b@h>''), (''Call-ID'', ''1-2@h''), (''CSeq'', ''7 INVITE''),
      (''Content-Length'', ''4'')], ''v=0'' @ [LF])"

lemma sample_wire_ok: "wire_ok sample_wire" "wire_bytes sample_wire = sample_invite"
  unfolding sample_wire_def wire_ok.simps wf_line_def clean_def by code_simp+

theorem ReadMessage_frames_witness:
  "fst (read_n 2 \<lparr>pending = sample_invite @ CRLF @ CRLF @ sample_invite, final = EOF\<rparr>)
     = [sample_request, sample_request]"
  using ReadMessage_frames [of "[(0, sample_wire, sample_request), (2, sample_wire, sample_request)]"
      "\<lparr>pending = sample_invite @ CRLF @ CRLF @ sample_invite, final = EOF\<rparr>" "[]"]
  by (simp add: sample_wire_ok Parse_sample numeral_2_eq_2)

text \<open>
  C23: A message that the peer cuts short, at whichever byte, is never delivered: the
  reader reports that the connection closed in the start line, the headers or the body.
\<close>
theorem ReadMessage_truncated:
  assumes "wire_ok w" and "cut_short (pending r) (wire_bytes w)" and "final r = EOF"
  shows "ReadMessage r \<in> ReadErr ` {PeerClosed, ClosedInStartLine, ClosedInHeaders}
    \<union> range (\<lambda>n. ReadErr (ClosedInBody n))"
  using assms by (rule ReadMessage_cut)

theorem ReadMessage_truncated_witness:
  "ReadMessage \<lparr>pending = butlast sample_invite, final = EOF\<rparr>
     \<in> ReadErr ` {PeerClosed, ClosedInStartLine, ClosedInHeaders} \<union> range (\<lambda>n. ReadErr (ClosedInBody n))"
proof (rule ReadMessage_truncated [OF sample_wire_ok(1)])
  have "sample_invite = butlast sample_invite @ [LF]" by code_simp
  then show "cut_short (pending \<lparr>pending = butlast sample_invite, final = EOF\<rparr>) (wire_bytes sample_wire)"
    unfolding sample_wire_ok(2) cut_short_def by auto
qed simp

text \<open>
  C24: A negative or absurd Content-Length is not rejected: it reaches \<^verbatim>\<open>make([]byte, n)\<close>,
  which panics, whatever the rest of the message and of the stream is.
\<close>
theorem ReadMessage_length_panic:
  assumes "st \<noteq> []" and "clean st" and "\<forall>l \<in> set ls. wf_line l"
    and "\<not> makeslice_ok (wire_length ls 0)" and "pending r = st @ CRLF @ write_headers ls @ CRLF @ rest"
  shows "ReadMessage r = ReadPanic"
proof -
  have "read_start r = Inr (st, r\<lparr>pending := write_headers ls @ CRLF @ rest\<rparr>)"
    using assms by (intro read_start_line) simp_all
  moreover have "read_header_lines (st @ CRLF) 0 (r\<lparr>pending := write_headers ls @ CRLF @ rest\<rparr>) =
      Inr ((st @ CRLF) @ write_headers ls @ CRLF, wire_length ls 0,
        r\<lparr>pending := write_headers ls @ CRLF @ rest\<rparr>\<lparr>pending := rest\<rparr>)"
    using assms by (intro read_header_block) simp_all
  ultimately show ?thesis using assms(4) by (simp add: ReadMessage_def read_body_def)
qed

theorem ReadMessage_length_panic_witness:
  "ReadMessage \<lparr>pending = ''OPTIONS sip:h SIP/2.0'' @ CRLF @ ''Content-Length: -1'' @ CRLF @ CRLF,
     final = EOF\<rparr> = ReadPanic"
proof (rule ReadMessage_length_panic [where st = "''OPTIONS sip:h SIP/2.0''"
      and ls = "[(''Content-Length'', ''-1'')]" and rest = "[]"])
  show "\<forall>l \<in> set [(''Content-Length'', ''-1'')]. wf_line l" unfolding wf_line_def clean_def by code_simp
  show "clean ''OPTIONS sip:h SIP/2.0''" unfolding clean_def by code_simp
  show "\<not> makeslice_ok (wire_length [(''Content-Length'', ''-1'')] 0)" by code_simp
qed (simp_all add: write_headers_def header_line_def)

end
