(* ===== verification/Semaphore.thy ===== *)
theory Semaphore
  imports Prelude
begin

text \<open>
  The resizable concurrency limiter, \<^verbatim>\<open>internal/engine/semaphore.go\<close>.  Callers run concurrently, so
  the operations are split at the points where another goroutine can run: taking the mutex, the
  test of the loop in \<^verbatim>\<open>Acquire\<close>, the moment at which \<^verbatim>\<open>cond.Wait\<close> joins the notify list, and the
  signals and broadcasts, which the code sends without the mutex.  A state holds the fields of
  \<^verbatim>\<open>dynSemaphore\<close>, the position of every caller in its operation, and the context that the callers
  share with its pending \<^verbatim>\<open>AfterFunc\<close> broadcasts.
\<close>

section \<open>States\<close>

type_synonym tid = nat

text \<open>
  Positions: \<open>Entering\<close> has called \<^verbatim>\<open>Acquire\<close>; \<open>Testing\<close> and \<open>Retesting\<close> (after a wake-up) hold the
  mutex at the loop condition; \<open>ToWait\<close> has found the semaphore full and the context alive and still
  holds the mutex; \<open>Waiting\<close> is on the notify list; \<open>Woken\<close> was notified; \<open>Holding\<close> owns a slot;
  \<open>Failed\<close> has returned the context's error; \<open>Signalling\<close> has given its slot back and not yet
  signalled.
\<close>

datatype pc = Idle | Entering | Testing | Retesting | ToWait | Waiting | Woken | Holding | Failed | Signalling

record dynSemaphore =
  active :: int
  limit :: int
  mu :: "tid option"
  pcs :: "tid \<Rightarrow> pc"
  ctx_done :: bool
  armed :: "tid \<Rightarrow> bool"
  broadcasting :: bool

definition clamp_limit :: "int \<Rightarrow> int" where
  "clamp_limit n = (if n < 1 then 1 else n)"

definition newDynSemaphore :: "int \<Rightarrow> dynSemaphore" where
  "newDynSemaphore n = \<lparr>active = 0, limit = clamp_limit n, mu = None, pcs = (\<lambda>_. Idle),
     ctx_done = False, armed = (\<lambda>_. False), broadcasting = False\<rparr>"

definition Limit :: "dynSemaphore \<Rightarrow> int" where
  "Limit s = limit s"

text \<open>\<^verbatim>\<open>cond.Broadcast\<close> and \<^verbatim>\<open>cond.Signal\<close> (to the waiter \<open>w\<close>, if there is one).\<close>

definition wake_all :: "(tid \<Rightarrow> pc) \<Rightarrow> tid \<Rightarrow> pc" where
  "wake_all f = (\<lambda>t. if f t = Waiting then Woken else f t)"

text \<open>Leaving \<^verbatim>\<open>Acquire\<close>: the mutex is released and the \<^verbatim>\<open>AfterFunc\<close> is stopped.\<close>

definition leave :: "tid \<Rightarrow> pc \<Rightarrow> dynSemaphore \<Rightarrow> dynSemaphore" where
  "leave t p s = s\<lparr>mu := None, pcs := (pcs s)(t := p), armed := (armed s)(t := False)\<rparr>"

section \<open>Steps\<close>

inductive sem_step :: "dynSemaphore \<Rightarrow> dynSemaphore \<Rightarrow> bool" where
  enter: "pcs s t = Idle \<Longrightarrow>
    sem_step s (s\<lparr>pcs := (pcs s)(t := Entering), armed := (armed s)(t := True)\<rparr>)"
| lock: "pcs s t = Entering \<Longrightarrow> mu s = None \<Longrightarrow>
    sem_step s (s\<lparr>mu := Some t, pcs := (pcs s)(t := Testing)\<rparr>)"
| relock: "pcs s t = Woken \<Longrightarrow> mu s = None \<Longrightarrow>
    sem_step s (s\<lparr>mu := Some t, pcs := (pcs s)(t := Retesting)\<rparr>)"
| full_done: "pcs s t \<in> {Testing, Retesting} \<Longrightarrow> limit s \<le> active s \<Longrightarrow> ctx_done s \<Longrightarrow>
    sem_step s (leave t Failed s)"
| full: "pcs s t \<in> {Testing, Retesting} \<Longrightarrow> limit s \<le> active s \<Longrightarrow> \<not> ctx_done s \<Longrightarrow>
    sem_step s (s\<lparr>pcs := (pcs s)(t := ToWait)\<rparr>)"
| wait: "pcs s t = ToWait \<Longrightarrow>
    sem_step s (s\<lparr>mu := None, pcs := (pcs s)(t := Waiting)\<rparr>)"
| free_done: "pcs s t \<in> {Testing, Retesting} \<Longrightarrow> active s < limit s \<Longrightarrow> ctx_done s \<Longrightarrow>
    sem_step s (leave t Failed s)"
| acquire: "pcs s t \<in> {Testing, Retesting} \<Longrightarrow> active s < limit s \<Longrightarrow> \<not> ctx_done s \<Longrightarrow>
    sem_step s ((leave t Holding s)\<lparr>active := active s + 1\<rparr>)"
| release: "pcs s t = Holding \<Longrightarrow> mu s = None \<Longrightarrow>
    sem_step s (s\<lparr>active := active s - 1, pcs := (pcs s)(t := Signalling)\<rparr>)"
| signal: "pcs s t = Signalling \<Longrightarrow> pcs s w = Waiting \<Longrightarrow>
    sem_step s (s\<lparr>pcs := (pcs s)(t := Idle, w := Woken)\<rparr>)"
| signal_none: "pcs s t = Signalling \<Longrightarrow> (\<forall>w. pcs s w \<noteq> Waiting) \<Longrightarrow>
    sem_step s (s\<lparr>pcs := (pcs s)(t := Idle)\<rparr>)"
| resize: "mu s = None \<Longrightarrow>
    sem_step s (s\<lparr>limit := clamp_limit n, broadcasting := True\<rparr>)"
| resize_broadcast: "broadcasting s \<Longrightarrow>
    sem_step s (s\<lparr>pcs := wake_all (pcs s), broadcasting := False\<rparr>)"
| cancel: "sem_step s (s\<lparr>ctx_done := True\<rparr>)"
| ctx_broadcast: "ctx_done s \<Longrightarrow> armed s t \<Longrightarrow>
    sem_step s (s\<lparr>pcs := wake_all (pcs s), armed := (armed s)(t := False)\<rparr>)"
| restart: "pcs s t = Failed \<Longrightarrow> sem_step s (s\<lparr>pcs := (pcs s)(t := Idle)\<rparr>)"

inductive reachable :: "int \<Rightarrow> dynSemaphore \<Rightarrow> bool" for n where
  init: "reachable n (newDynSemaphore n)"
| step: "reachable n s \<Longrightarrow> sem_step s s' \<Longrightarrow> reachable n s'"

inductive_cases sem_stepE: "sem_step s s'"

section \<open>Counting positions\<close>

definition in_pc :: "pc set \<Rightarrow> (tid \<Rightarrow> pc) \<Rightarrow> tid set" where
  "in_pc P f = {t. f t \<in> P}"

lemma in_pc_upd: "in_pc P (f(t := p)) = (if p \<in> P then insert t (in_pc P f) else in_pc P f - {t})"
  by (auto simp: in_pc_def)

lemma in_pc_iff [simp]: "t \<in> in_pc P f \<longleftrightarrow> f t \<in> P"
  by (simp add: in_pc_def)

definition finite_pcs :: "(tid \<Rightarrow> pc) \<Rightarrow> bool" where
  "finite_pcs f \<longleftrightarrow> finite {t. f t \<noteq> Idle}"

lemma finite_in_pc: "finite_pcs f \<Longrightarrow> Idle \<notin> P \<Longrightarrow> finite (in_pc P f)"
  unfolding finite_pcs_def in_pc_def by (erule finite_subset [rotated]) auto

lemma finite_pcs_upd: "finite_pcs f \<Longrightarrow> finite_pcs (f(t := p))"
proof -
  assume "finite_pcs f"
  moreover have "{u. (f(t := p)) u \<noteq> Idle} \<subseteq> insert t {u. f u \<noteq> Idle}" by auto
  ultimately show ?thesis unfolding finite_pcs_def by (metis finite_insert finite_subset)
qed

lemma finite_pcs_wake: "finite_pcs f \<Longrightarrow> finite_pcs (wake_all f)"
  unfolding finite_pcs_def wake_all_def by (erule finite_subset [rotated]) (auto split: if_splits)

lemma card_in_pc_upd:
  assumes "finite_pcs f" and "Idle \<notin> P"
  shows "int (card (in_pc P (f(t := p)))) =
    int (card (in_pc P f)) + (if p \<in> P then 1 else 0) - (if f t \<in> P then 1 else 0)"
proof -
  have fin: "finite (in_pc P f)" using assms by (rule finite_in_pc)
  show ?thesis
  proof (cases "f t \<in> P")
    case True
    then have "0 < card (in_pc P f)" using fin card_gt_0_iff by (metis empty_iff in_pc_iff)
    with True fin show ?thesis by (auto simp: in_pc_upd card_insert_if card_Diff_singleton)
  next
    case False
    with fin show ?thesis by (simp add: in_pc_upd card_insert_if)
  qed
qed

lemma wake_all_simps [simp]:
  "wake_all f t = Waiting \<longleftrightarrow> False"
  "in_pc {Holding} (wake_all f) = in_pc {Holding} f"
  "wake_all f t = ToWait \<longleftrightarrow> f t = ToWait"
  "wake_all f t = Testing \<longleftrightarrow> f t = Testing"
  "wake_all f t = Retesting \<longleftrightarrow> f t = Retesting"
  by (auto simp: wake_all_def in_pc_def)

section \<open>Invariants\<close>

text \<open>The mutex is held exactly at the positions inside the critical section.\<close>

definition critical :: "pc set" where
  "critical = {Testing, Retesting, ToWait}"

definition inv_lock :: "dynSemaphore \<Rightarrow> bool" where
  "inv_lock s \<longleftrightarrow> (\<forall>t. pcs s t \<in> critical \<longleftrightarrow> mu s = Some t)"

lemma critical_simps [simp]:
  "Testing \<in> critical" "Retesting \<in> critical" "ToWait \<in> critical" "Idle \<notin> critical" "Entering \<notin> critical"
  "Waiting \<notin> critical" "Woken \<notin> critical" "Holding \<notin> critical" "Failed \<notin> critical" "Signalling \<notin> critical"
  "wake_all f t \<in> critical \<longleftrightarrow> f t \<in> critical"
  by (simp_all add: critical_def wake_all_def)

definition inv_active :: "dynSemaphore \<Rightarrow> bool" where
  "inv_active s \<longleftrightarrow> finite_pcs (pcs s) \<and> active s = int (card (in_pc {Holding} (pcs s))) \<and> 1 \<le> limit s"

definition inv_full :: "dynSemaphore \<Rightarrow> bool" where
  "inv_full s \<longleftrightarrow> (\<forall>t. pcs s t = ToWait \<longrightarrow> limit s \<le> active s)"

text \<open>The callers that are bound to look at the semaphore again, or to wake one that does.\<close>

definition wakers :: "dynSemaphore \<Rightarrow> tid set" where
  "wakers s = in_pc {Signalling, Woken, Retesting} (pcs s)"

definition inv_wake :: "dynSemaphore \<Rightarrow> bool" where
  "inv_wake s \<longleftrightarrow>
     (\<not> ctx_done s \<and> \<not> broadcasting s \<and> (\<exists>t. pcs s t = Waiting)
       \<longrightarrow> limit s - active s \<le> int (card (wakers s)))"

lemma inv_lock_step:
  assumes "sem_step s s'" and "inv_lock s"
  shows "inv_lock s'"
proof -
  have mx: "pcs s t \<in> critical \<longleftrightarrow> mu s = Some t" for t using assms(2) by (simp add: inv_lock_def)
  from assms(1) show ?thesis
  proof (cases rule: sem_step.cases)
    case (full_done t)
    then have "mu s = Some t" using mx [of t] by auto
    with full_done show ?thesis by (simp add: inv_lock_def leave_def mx)
  next
    case (full t)
    then have "mu s = Some t" using mx [of t] by auto
    with full show ?thesis by (simp add: inv_lock_def mx)
  next
    case (wait t)
    then have "mu s = Some t" using mx [of t] by auto
    with wait show ?thesis by (simp add: inv_lock_def mx)
  next
    case (free_done t)
    then have "mu s = Some t" using mx [of t] by auto
    with free_done show ?thesis by (simp add: inv_lock_def leave_def mx)
  next
    case (acquire t)
    then have "mu s = Some t" using mx [of t] by auto
    with acquire show ?thesis by (simp add: inv_lock_def leave_def mx)
  next
    case (lock t)
    then show ?thesis using assms(2) by (auto simp: inv_lock_def)
  next
    case (relock t)
    then show ?thesis using assms(2) by (auto simp: inv_lock_def)
  next
    case (enter t)
    then have "mu s \<noteq> Some t" using mx [of t] by auto
    with enter show ?thesis by (auto simp: inv_lock_def mx)
  next
    case (signal_none t)
    then have "mu s \<noteq> Some t" using mx [of t] by auto
    with signal_none show ?thesis by (auto simp: inv_lock_def mx)
  next
    case (restart t)
    then have "mu s \<noteq> Some t" using mx [of t] by auto
    with restart show ?thesis by (auto simp: inv_lock_def mx)
  next
    case (signal t w)
    then show ?thesis using mx [of t] mx [of w] by (simp add: inv_lock_def mx)
  qed (use assms(2) in \<open>auto simp: inv_lock_def split: if_splits\<close>)
qed

lemma inv_active_step: "sem_step s s' \<Longrightarrow> inv_active s \<Longrightarrow> inv_active s'"
  by (induction rule: sem_step.induct)
     (auto simp: inv_active_def leave_def card_in_pc_upd finite_pcs_upd finite_pcs_wake clamp_limit_def)

lemma inv_lock_crit: "inv_lock s \<Longrightarrow> pcs s t \<in> critical \<Longrightarrow> mu s = Some t"
  by (simp add: inv_lock_def)

lemma inv_full_step:
  assumes "sem_step s s'" and "inv_lock s" and "inv_full s"
  shows "inv_full s'"
proof -
  have tw: "mu s = Some u" if "pcs s u = ToWait" for u
    using inv_lock_crit [OF assms(2), of u] that by simp
  from assms(1) show ?thesis
  proof (cases rule: sem_step.cases)
    case (acquire t)
    then have "pcs s t \<in> critical" by auto
    then have "mu s = Some t" by (rule inv_lock_crit [OF assms(2)])
    then have "pcs s u \<noteq> ToWait" if "u \<noteq> t" for u using tw [of u] that by auto
    with acquire show ?thesis by (simp add: inv_full_def leave_def)
  next
    case (release t)
    then have "pcs s u \<noteq> ToWait" for u using tw [of u] by auto
    with release show ?thesis by (simp add: inv_full_def)
  next
    case (resize n)
    then have "pcs s u \<noteq> ToWait" for u using tw [of u] by auto
    with resize show ?thesis by (simp add: inv_full_def)
  next
    case (full t)
    then show ?thesis by (simp add: inv_full_def)
  qed (use assms(3) in \<open>auto simp: inv_full_def leave_def split: if_splits\<close>)
qed

lemma card_in_pc_pos: "finite_pcs f \<Longrightarrow> Idle \<notin> P \<Longrightarrow> f t \<in> P \<Longrightarrow> 0 < card (in_pc P f)"
  using finite_in_pc [of f P] by (auto simp: card_gt_0_iff)

lemma inv_wake_step:
  assumes "sem_step s s'" and "inv_active s" and "inv_full s" and "inv_wake s"
  shows "inv_wake s'"
proof -
  have fin: "finite_pcs (pcs s)" using assms(2) by (simp add: inv_active_def)
  note card = card_in_pc_upd [OF fin] card_in_pc_upd [OF finite_pcs_upd [OF fin]]
  from assms(1) show ?thesis
  proof (cases rule: sem_step.cases)
    case (full t)
    then show ?thesis
      using card_in_pc_pos [OF fin, of "{Signalling, Woken, Retesting}" t]
      by (auto simp: inv_wake_def wakers_def card)
  qed (use assms(3,4) in \<open>auto simp: inv_full_def inv_wake_def wakers_def leave_def card split: if_splits\<close>)
qed

definition inv_all :: "dynSemaphore \<Rightarrow> bool" where
  "inv_all s \<longleftrightarrow> inv_lock s \<and> inv_active s \<and> inv_full s \<and> inv_wake s"

lemma inv_init: "inv_all (newDynSemaphore n)"
  by (simp add: inv_all_def inv_lock_def inv_active_def inv_full_def inv_wake_def newDynSemaphore_def
      finite_pcs_def in_pc_def clamp_limit_def)

lemma inv_step: "sem_step s s' \<Longrightarrow> inv_all s \<Longrightarrow> inv_all s'"
  unfolding inv_all_def using inv_lock_step inv_active_step inv_full_step inv_wake_step by blast

lemma inv_reachable: "reachable n s \<Longrightarrow> inv_all s"
  by (induction rule: reachable.induct) (auto intro: inv_init inv_step)

section \<open>Properties\<close>

text \<open>
  C9: Mutual exclusion and accounting: in every reachable state at most one caller is inside the
  critical section, the counter \<^verbatim>\<open>active\<close> is the number of callers that hold a slot (so it is never
  negative), and a step that raises it does so below the limit and before cancellation.
\<close>
theorem semaphore_counts:
  assumes "reachable n s"
  shows "(\<forall>t u. pcs s t \<in> critical \<and> pcs s u \<in> critical \<longrightarrow> t = u)
    \<and> active s = int (card {t. pcs s t = Holding})
    \<and> (\<forall>s'. sem_step s s' \<and> active s < active s' \<longrightarrow> active s' \<le> limit s' \<and> \<not> ctx_done s)"
proof -
  have inv: "inv_lock s" "inv_active s" using inv_reachable [OF assms] by (simp_all add: inv_all_def)
  have "t = u" if "pcs s t \<in> critical" "pcs s u \<in> critical" for t u
    using inv_lock_crit [OF inv(1) that(1)] inv_lock_crit [OF inv(1) that(2)] by simp
  moreover have "active s = int (card {t. pcs s t = Holding})"
    using inv(2) by (simp add: inv_active_def in_pc_def)
  moreover have "active s' \<le> limit s' \<and> \<not> ctx_done s" if "sem_step s s'" "active s < active s'" for s'
    using that by (cases rule: sem_step.cases) (auto simp: leave_def)
  ultimately show ?thesis by blast
qed

text \<open>
  C10: No wake-up is lost: in a reachable state whose context is alive and in which no resize
  broadcast is due, a caller that waits although a slot is free is outnumbered by the callers that
  have been woken, or have given a slot back and are about to signal; so when everybody is at rest
  nobody waits for a free slot.
\<close>
theorem semaphore_no_lost_wakeup:
  assumes "reachable n s" and "\<not> ctx_done s" and "\<not> broadcasting s" and "pcs s t = Waiting"
  shows "limit s - active s \<le> int (card {u. pcs s u \<in> {Signalling, Woken, Retesting}})"
proof -
  have "inv_wake s" using inv_reachable [OF assms(1)] by (simp add: inv_all_def)
  with assms(2-4) show ?thesis unfolding inv_wake_def wakers_def in_pc_def by blast
qed

text \<open>A run with one slot: caller 0 takes it, caller 1 is about to wait.\<close>

definition run_state :: "int \<Rightarrow> tid option \<Rightarrow> pc \<Rightarrow> pc \<Rightarrow> bool \<Rightarrow> bool \<Rightarrow> dynSemaphore" where
  "run_state a m p0 p1 c ar = \<lparr>active = a, limit = 1, mu = m, pcs = (\<lambda>_. Idle)(0 := p0, 1 := p1),
     ctx_done = c, armed = (\<lambda>_. False)(1 := ar), broadcasting = False\<rparr>"

lemma run_ToWait: "reachable 1 (run_state 1 (Some 1) Holding ToWait False True)"
proof -
  have *: "(\<lambda>t. False)(0 := False) = (\<lambda>t :: tid. False)" "(\<lambda>t. Idle)(Suc 0 := Idle) = (\<lambda>t :: tid. Idle)" by auto
  have "reachable 1 (newDynSemaphore 1)" by (rule reachable.init)
  from reachable.step [OF this sem_step.enter [of _ 0]]
  have "reachable 1 \<lparr>active = 0, limit = 1, mu = None, pcs = (\<lambda>_. Idle)(0 := Entering), ctx_done = False,
      armed = (\<lambda>_. False)(0 := True), broadcasting = False\<rparr>"
    by (simp add: newDynSemaphore_def clamp_limit_def)
  from reachable.step [OF this sem_step.lock [of _ 0]]
  have "reachable 1 \<lparr>active = 0, limit = 1, mu = Some 0, pcs = (\<lambda>_. Idle)(0 := Testing), ctx_done = False,
      armed = (\<lambda>_. False)(0 := True), broadcasting = False\<rparr>" by simp
  from reachable.step [OF this sem_step.acquire [of _ 0]]
  have "reachable 1 \<lparr>active = 1, limit = 1, mu = None, pcs = (\<lambda>_. Idle)(0 := Holding), ctx_done = False,
      armed = (\<lambda>_. False), broadcasting = False\<rparr>" by (simp add: leave_def *)
  from reachable.step [OF this sem_step.enter [of _ 1]]
  have "reachable 1 (run_state 1 None Holding Entering False True)" by (simp add: run_state_def)
  from reachable.step [OF this sem_step.lock [of _ 1]]
  have "reachable 1 (run_state 1 (Some 1) Holding Testing False True)" by (simp add: run_state_def)
  from reachable.step [OF this sem_step.full [of _ 1]]
  show ?thesis by (simp add: run_state_def)
qed

lemma run_signalling: "reachable 1 (run_state 0 None Signalling Waiting False True)"
proof -
  from reachable.step [OF run_ToWait sem_step.wait [of _ 1]]
  have "reachable 1 (run_state 1 None Holding Waiting False True)" by (simp add: run_state_def)
  from reachable.step [OF this sem_step.release [of _ 0]]
  show ?thesis by (simp add: run_state_def fun_upd_twist)
qed

theorem semaphore_counts_witness: "active (run_state 0 None Signalling Waiting False True) = 0
    \<and> active (run_state 0 None Signalling Waiting False True)
        = int (card {t. pcs (run_state 0 None Signalling Waiting False True) t = Holding})"
  using semaphore_counts [OF run_signalling] by (simp add: run_state_def)

theorem semaphore_no_lost_wakeup_witness:
  "1 \<le> int (card {u. pcs (run_state 0 None Signalling Waiting False True) u \<in> {Signalling, Woken, Retesting}})"
  using semaphore_no_lost_wakeup [OF run_signalling, of 1] by (simp add: run_state_def)

text \<open>
  C28: A cancellation can be lost: \<^verbatim>\<open>AfterFunc\<close> broadcasts without the mutex, so its broadcast can
  fall between the test of the context and the moment at which the caller joins the notify list.  A
  state is reachable in which the context is cancelled, a caller waits, every \<^verbatim>\<open>AfterFunc\<close> has run, and no
  caller is woken, about to signal or about to test again.
\<close>
theorem semaphore_lost_cancel:
  "\<exists>s t. reachable 1 s \<and> ctx_done s \<and> pcs s t = Waiting \<and> armed s = (\<lambda>_. False) \<and> \<not> broadcasting s
     \<and> wakers s = {}"
proof -
  have w: "wake_all ((\<lambda>_. Idle)(0 := Holding, 1 := ToWait)) = (\<lambda>_. Idle)(0 := Holding, 1 := ToWait)"
    by (auto simp: wake_all_def)
  from reachable.step [OF run_ToWait sem_step.cancel]
  have "reachable 1 (run_state 1 (Some 1) Holding ToWait True True)" by (simp add: run_state_def)
  from reachable.step [OF this sem_step.ctx_broadcast [of _ 1]]
  have "reachable 1 (run_state 1 (Some 1) Holding ToWait True False)"
    unfolding run_state_def by (simp add: w [simplified])
  from reachable.step [OF this sem_step.wait [of _ 1]]
  have r: "reachable 1 (run_state 1 None Holding Waiting True False)" by (simp add: run_state_def)
  have "wakers (run_state 1 None Holding Waiting True False) = {}"
    by (auto simp: wakers_def in_pc_def run_state_def split: if_splits)
  moreover have "armed (run_state 1 None Holding Waiting True False) = (\<lambda>_. False)"
    by (auto simp: run_state_def)
  moreover have "ctx_done (run_state 1 None Holding Waiting True False)"
      "pcs (run_state 1 None Holding Waiting True False) 1 = Waiting"
      "\<not> broadcasting (run_state 1 None Holding Waiting True False)"
    by (simp_all add: run_state_def)
  ultimately show ?thesis using r by blast
qed

end
