(* ===== verification/Float64.thy ===== *)
theory Float64
  imports Prelude Complex_Main
begin

text \<open>
  Go's \<^verbatim>\<open>float64\<close> and the parts of \<^verbatim>\<open>strconv\<close> that read and write it.  A finite value is the rational
  number it stands for (the two zeros are one value), every operation is the exact one followed by
  rounding to nearest, ties to even, as IEEE 754 and the Go specification have it.  Converting a
  value that does not fit to an integer gives the smallest \<^verbatim>\<open>int64\<close>, as the amd64 compiler does.
\<close>

section \<open>Values and rounding\<close>

datatype float64 = FNaN | FInf bool | Fin rat

definition round_half_even :: "rat \<Rightarrow> int" where
  "round_half_even x =
     (let k = \<lfloor>x\<rfloor>; r = x - of_int k
      in if r < 1 / 2 then k else if 1 / 2 < r then k + 1 else if even k then k else k + 1)"

definition pow2 :: "int \<Rightarrow> rat" where
  "pow2 e = (if 0 \<le> e then 2 ^ nat e else 1 / 2 ^ nat (- e))"

definition pow10 :: "int \<Rightarrow> rat" where
  "pow10 e = (if 0 \<le> e then 10 ^ nat e else 1 / 10 ^ nat (- e))"

function bits :: "int \<Rightarrow> int" where
  "bits n = (if n \<le> 0 then 0 else 1 + bits (n div 2))"
  by pat_completeness auto
termination by (relation "measure nat") auto

function ndigits :: "int \<Rightarrow> int" where
  "ndigits n = (if n < 10 then 1 else 1 + ndigits (n div 10))"
  by pat_completeness auto
termination by (relation "measure nat") auto

declare bits.simps [simp del] ndigits.simps [simp del]

text \<open>The exponent of the leading bit of a positive number.\<close>

definition exponent :: "rat \<Rightarrow> int" where
  "exponent x =
     (case quotient_of x of (n, d) \<Rightarrow>
        let e = bits n - bits d in if pow2 e \<le> x then e else e - 1)"

text \<open>53 bits of precision, and the fixed quantum of the subnormal numbers below the smallest exponent.\<close>

definition round64 :: "rat \<Rightarrow> float64" where
  "round64 x =
     (if x = 0 then Fin 0
      else
        let q = max (exponent \<bar>x\<bar> - 52) (- 1074);
            v = of_int (round_half_even (\<bar>x\<bar> / pow2 q)) * pow2 q
        in if pow2 1024 \<le> v then FInf (x < 0) else Fin (if x < 0 then - v else v))"

definition float_of_int :: "int \<Rightarrow> float64" where
  "float_of_int n = round64 (of_int n)"

section \<open>Arithmetic and comparison\<close>

fun float_neg :: "float64 \<Rightarrow> float64" where
  "float_neg FNaN = FNaN"
| "float_neg (FInf s) = FInf (\<not> s)"
| "float_neg (Fin x) = Fin (- x)"

fun float_add :: "float64 \<Rightarrow> float64 \<Rightarrow> float64" where
  "float_add (Fin x) (Fin y) = round64 (x + y)"
| "float_add (FInf s) (FInf t) = (if s = t then FInf s else FNaN)"
| "float_add (FInf s) (Fin y) = FInf s"
| "float_add (Fin x) (FInf t) = FInf t"
| "float_add _ _ = FNaN"

definition float_sub :: "float64 \<Rightarrow> float64 \<Rightarrow> float64" where
  "float_sub a b = float_add a (float_neg b)"

fun float_mult :: "float64 \<Rightarrow> float64 \<Rightarrow> float64" where
  "float_mult (Fin x) (Fin y) = round64 (x * y)"
| "float_mult (FInf s) (FInf t) = FInf (s \<noteq> t)"
| "float_mult (FInf s) (Fin y) = (if y = 0 then FNaN else FInf (s \<noteq> (y < 0)))"
| "float_mult (Fin x) (FInf t) = (if x = 0 then FNaN else FInf ((x < 0) \<noteq> t))"
| "float_mult _ _ = FNaN"

text \<open>Division is only used with a divisor that is not zero.\<close>

fun float_div :: "float64 \<Rightarrow> float64 \<Rightarrow> float64" where
  "float_div (Fin x) (Fin y) = (if y = 0 then (if x = 0 then FNaN else FInf (x < 0)) else round64 (x / y))"
| "float_div (FInf s) (FInf t) = FNaN"
| "float_div (FInf s) (Fin y) = FInf (s \<noteq> (y < 0))"
| "float_div (Fin x) (FInf t) = Fin 0"
| "float_div _ _ = FNaN"

fun float_lt :: "float64 \<Rightarrow> float64 \<Rightarrow> bool" where
  "float_lt (Fin x) (Fin y) = (x < y)"
| "float_lt (FInf s) (FInf t) = (s \<and> \<not> t)"
| "float_lt (FInf s) (Fin y) = s"
| "float_lt (Fin x) (FInf t) = (\<not> t)"
| "float_lt _ _ = False"

definition float_eq :: "float64 \<Rightarrow> float64 \<Rightarrow> bool" where
  "float_eq a b \<longleftrightarrow> a \<noteq> FNaN \<and> a = b"

definition float_le :: "float64 \<Rightarrow> float64 \<Rightarrow> bool" where
  "float_le a b \<longleftrightarrow> float_lt a b \<or> float_eq a b"

text \<open>\<^verbatim>\<open>int64(f)\<close> cuts the fraction off.\<close>

definition rat_trunc :: "rat \<Rightarrow> int" where
  "rat_trunc x = (if x < 0 then \<lceil>x\<rceil> else \<lfloor>x\<rfloor>)"

fun float_to_int64 :: "float64 \<Rightarrow> int" where
  "float_to_int64 (Fin x) = (if int64_range (rat_trunc x) then rat_trunc x else - (2 ^ 63))"
| "float_to_int64 _ = - (2 ^ 63)"

section \<open>Reading: \<^verbatim>\<open>strconv.ParseFloat\<close>\<close>

definition hex_val :: "char \<Rightarrow> nat option" where
  "hex_val c = (let n = (of_char (lower_char c) :: nat)
     in if 48 \<le> n \<and> n \<le> 57 then Some (n - 48) else if 97 \<le> n \<and> n \<le> 102 then Some (n - 87) else None)"

definition float_digit :: "bool \<Rightarrow> char \<Rightarrow> nat option" where
  "float_digit hex c = (if hex then hex_val c else digit_val c)"

text \<open>
  The mantissa: its digits as one number, how many of them follow the point, whether there was a
  digit, and what is left.  \<open>dot\<close> says whether the point has been seen.
\<close>

fun scan_mantissa :: "bool \<Rightarrow> int \<Rightarrow> nat \<Rightarrow> bool \<Rightarrow> bool \<Rightarrow> string \<Rightarrow> int \<times> nat \<times> bool \<times> string" where
  "scan_mantissa hex m k dot any [] = (m, k, any, [])"
| "scan_mantissa hex m k dot any (c # s) =
     (if c = CHR ''_'' then scan_mantissa hex m k dot any s
      else if c = CHR ''.'' then
        (if dot then (m, k, any, c # s) else scan_mantissa hex m k True any s)
      else case float_digit hex c of
             Some d \<Rightarrow> scan_mantissa hex ((if hex then 16 else 10) * m + int d) (if dot then Suc k else k) dot True s
           | None \<Rightarrow> (m, k, any, c # s))"

text \<open>The exponent stops growing once it is beyond every finite number.\<close>

fun scan_exponent :: "int \<Rightarrow> string \<Rightarrow> int \<times> string" where
  "scan_exponent e [] = (e, [])"
| "scan_exponent e (c # s) =
     (if c = CHR ''_'' then scan_exponent e s
      else case digit_val c of
             Some d \<Rightarrow> scan_exponent (if e < 10000 then 10 * e + int d else e) s
           | None \<Rightarrow> (e, c # s))"

text \<open>An underscore stands between digits, a base prefix counting as one.\<close>

fun underscores_ok :: "bool \<Rightarrow> char \<Rightarrow> string \<Rightarrow> bool" where
  "underscores_ok hex saw [] = (saw \<noteq> CHR ''_'')"
| "underscores_ok hex saw (c # s) =
     (if float_digit hex c \<noteq> None then underscores_ok hex CHR ''0'' s
      else if c = CHR ''_'' then saw = CHR ''0'' \<and> underscores_ok hex CHR ''_'' s
      else saw \<noteq> CHR ''_'' \<and> underscores_ok hex CHR ''!'' s)"

definition unsigned_float :: "string \<Rightarrow> rat option" where
  "unsigned_float s =
     (let hex = (2 < length s \<and> s ! 0 = CHR ''0'' \<and> lower_char (s ! 1) = CHR ''x'');
          start = (if hex then drop 2 s else s)
      in case scan_mantissa hex 0 0 False False start of (m, k, any, rest) \<Rightarrow>
           if \<not> any then None
           else
             let mant = of_int m / (if hex then 16 else 10) ^ k;
                 ok = (CHR ''_'' \<in> set s \<longrightarrow> underscores_ok hex (if hex then CHR ''0'' else CHR ''^'') start)
             in if rest \<noteq> [] \<and> lower_char (hd rest) = (if hex then CHR ''p'' else CHR ''e'') then
                  let t = tl rest; neg = (t \<noteq> [] \<and> hd t = CHR ''-'');
                      ds = (if t \<noteq> [] \<and> (hd t = CHR ''+'' \<or> hd t = CHR ''-'') then tl t else t)
                  in if ds = [] \<or> digit_val (hd ds) = None then None
                     else case scan_exponent 0 ds of (e, rest') \<Rightarrow>
                            let e' = (if neg then - e else e)
                            in if rest' = [] \<and> ok then Some (mant * (if hex then pow2 e' else pow10 e')) else None
                else if hex \<or> rest \<noteq> [] \<or> \<not> ok then None
                else Some mant)"

text \<open>\<open>None\<close> stands for both errors, a syntax error and a number out of range.\<close>

definition strconv_ParseFloat :: "string \<Rightarrow> float64 option" where
  "strconv_ParseFloat s =
     (let neg = (s \<noteq> [] \<and> hd s = CHR ''-'');
          t = (if s \<noteq> [] \<and> (hd s = CHR ''-'' \<or> hd s = CHR ''+'') then tl s else s);
          name = strings_ToLower t
      in if name = ''inf'' \<or> name = ''infinity'' then Some (FInf neg)
         else if strings_ToLower s = ''nan'' then Some FNaN
         else case unsigned_float t of
                None \<Rightarrow> None
              | Some x \<Rightarrow>
                  (case round64 (if neg then - x else x) of
                     Fin v \<Rightarrow> Some (Fin v)
                   | _ \<Rightarrow> None))"

section \<open>Writing: \<^verbatim>\<open>strconv.FormatFloat(f, 'f', -1, 64)\<close>\<close>

text \<open>The position of the decimal point: \<open>10\<^sup>p\<^sup>-\<^sup>1 \<le> x < 10\<^sup>p\<close>.\<close>

definition point :: "rat \<Rightarrow> int" where
  "point x = (if 1 \<le> x then ndigits \<lfloor>x\<rfloor> else 1 - ndigits (\<lceil>1 / x\<rceil> - 1))"

text \<open>The neighbours of \<open>x\<close> with \<open>n\<close> digits that read back as \<open>x\<close>, the nearer one first.\<close>

definition candidates :: "rat \<Rightarrow> int \<Rightarrow> rat list" where
  "candidates x n =
     (let u = pow10 (point x - n); lo = of_int \<lfloor>x / u\<rfloor> * u; hi = lo + u;
          order = (if of_int (round_half_even (x / u)) * u = lo then [lo, hi] else [hi, lo])
      in filter (\<lambda>c. round64 c = Fin x) order)"

definition shortest :: "rat \<Rightarrow> rat" where
  "shortest x = hd (concat (map (candidates x) [1..17]) @ [x])"

fun strip_zeros :: "string \<Rightarrow> string" where
  "strip_zeros s = rev (dropWhile (\<lambda>c. c = CHR ''0'') (rev s))"

text \<open>The decimal digits of \<open>d\<close> with \<open>k\<close> places after the point.\<close>

definition decimal_text :: "rat \<Rightarrow> nat \<Rightarrow> string" where
  "decimal_text d k =
     (let n = \<lfloor>d * 10 ^ k\<rfloor>; whole = nat (n div 10 ^ k); frac = nat_digits (nat (n mod 10 ^ k));
          padded = replicate (k - length frac) CHR ''0'' @ frac;
          f = (if k = 0 then [] else strip_zeros padded)
      in nat_digits whole @ (if f = [] then [] else CHR ''.'' # f))"

fun strconv_FormatFloat :: "float64 \<Rightarrow> string" where
  "strconv_FormatFloat FNaN = ''NaN''"
| "strconv_FormatFloat (FInf s) = (if s then ''-Inf'' else ''+Inf'')"
| "strconv_FormatFloat (Fin x) =
     (if x = 0 then ''0''
      else (if x < 0 then ''-'' else []) @ decimal_text (shortest \<bar>x\<bar>) (nat (17 - point \<bar>x\<bar>)))"

section \<open>Integers are exact\<close>

lemma bits_bounds: "0 < n \<Longrightarrow> \<exists>k. bits n = int (Suc k) \<and> 2 ^ k \<le> n \<and> n < 2 ^ Suc k"
proof (induction n rule: bits.induct)
  case (1 n)
  show ?case
  proof (cases "n = 1")
    case True
    then show ?thesis by (intro exI [of _ 0]) (simp add: bits.simps)
  next
    case False
    with 1 obtain k where "bits (n div 2) = int (Suc k)" "2 ^ k \<le> n div 2" "n div 2 < 2 ^ Suc k" by fastforce
    moreover from this have "2 ^ Suc k \<le> n" "n < 2 ^ Suc (Suc k)" by simp_all
    ultimately show ?thesis using "1.prems" by (intro exI [of _ "Suc k"]) (simp add: bits.simps [of n])
  qed
qed

lemma pow2_nat [simp]: "pow2 (int k) = 2 ^ k"
  by (simp add: pow2_def)

lemma exponent_int: "0 < m \<Longrightarrow> \<exists>k. exponent (of_int m) = int k \<and> 2 ^ k \<le> m \<and> m < 2 ^ Suc k"
proof -
  assume "0 < m"
  then obtain k where k: "bits m = int (Suc k)" "2 ^ k \<le> m" "m < 2 ^ Suc k" using bits_bounds by blast
  have "bits 1 = 1" by (simp add: bits.simps)
  moreover have "(2 :: rat) ^ k \<le> of_int m" using k(2) by (metis of_int_le_iff of_int_numeral of_int_power)
  ultimately have "exponent (of_int m) = int k" by (simp add: exponent_def k(1))
  with k show ?thesis by blast
qed

lemma round_half_even_int [simp]: "round_half_even (of_int n) = n"
  by (simp add: round_half_even_def Let_def)

lemma round64_pos_int:
  assumes "0 < m" and "m < 2 ^ 53"
  shows "exponent (of_int m) \<le> 52" and "round64 (of_int m) = Fin (of_int m)"
proof -
  obtain k where k: "exponent (of_int m) = int k" "2 ^ k \<le> m" using exponent_int [OF assms(1)] by blast
  have "(2 :: int) ^ k < 2 ^ 53" using k(2) assms(2) by linarith
  then have "k < 53" by (rule power_less_imp_less_exp [rotated]) simp
  then have k52: "k \<le> 52" by simp
  then show "exponent (of_int m) \<le> 52" using k by simp
  define j where "j = 52 - k"
  have q: "max (int k - 52) (- 1074) = - int j" using k52 by (simp add: j_def)
  have p: "pow2 (- int j) = 1 / 2 ^ j" by (cases j) (simp_all add: pow2_def nat_add_distrib)
  have "(of_int m :: rat) * 2 ^ j = of_int (m * 2 ^ j)" by simp
  then have r: "round_half_even (of_int m * 2 ^ j) = m * 2 ^ j" by (metis round_half_even_int)
  have big: "\<not> pow2 1024 \<le> of_int m"
  proof
    assume "pow2 1024 \<le> of_int m"
    then have "(2 :: rat) ^ 1024 \<le> of_int m" by (simp add: pow2_def)
    then have "(2 :: int) ^ 1024 \<le> m" by (metis of_int_le_iff of_int_numeral of_int_power)
    moreover have "(2 :: int) ^ 53 \<le> 2 ^ 1024" by (rule power_increasing) simp_all
    ultimately show False using assms(2) by linarith
  qed
  show "round64 (of_int m) = Fin (of_int m)"
    unfolding round64_def using assms(1) big by (simp add: k(1) q r p Let_def)
qed

lemma round64_neg: "round64 (- x) = float_neg (round64 x)"
proof (cases x "0 :: rat" rule: linorder_cases)
  case less
  then show ?thesis by (simp add: round64_def Let_def)
next
  case equal
  then show ?thesis by (simp add: round64_def)
next
  case greater
  then show ?thesis by (simp add: round64_def Let_def)
qed

lemma round64_int: "\<bar>m\<bar> < 2 ^ 53 \<Longrightarrow> round64 (of_int m) = Fin (of_int m)"
proof (cases m "0 :: int" rule: linorder_cases)
  case less
  assume "\<bar>m\<bar> < 2 ^ 53"
  with less have "round64 (of_int (- m)) = Fin (of_int (- m))" by (intro round64_pos_int) simp_all
  then show ?thesis using round64_neg [of "of_int (- m)"] by simp
next
  case equal
  then show ?thesis by (simp add: round64_def)
next
  case greater
  assume "\<bar>m\<bar> < 2 ^ 53"
  with greater show ?thesis by (intro round64_pos_int) simp_all
qed

lemma ndigits_bounds: "0 < n \<Longrightarrow> \<exists>k. ndigits n = int (Suc k) \<and> 10 ^ k \<le> n \<and> n < 10 ^ Suc k"
proof (induction n rule: ndigits.induct)
  case (1 n)
  show ?case
  proof (cases "n < 10")
    case True
    with 1 show ?thesis by (intro exI [of _ 0]) (simp add: ndigits.simps)
  next
    case False
    with 1 obtain k where "ndigits (n div 10) = int (Suc k)" "10 ^ k \<le> n div 10" "n div 10 < 10 ^ Suc k" by fastforce
    moreover from this have "10 ^ Suc k \<le> n" "n < 10 ^ Suc (Suc k)" by simp_all
    ultimately show ?thesis using False by (intro exI [of _ "Suc k"]) (simp add: ndigits.simps [of n])
  qed
qed

lemma candidates_exact:
  assumes "of_int \<lfloor>x / u\<rfloor> * u = x" and "u = pow10 (point x - n)" and "round64 x = Fin x"
  shows "hd (candidates x n) = x"
proof -
  have "0 < u" by (simp add: assms(2) pow10_def)
  then have "x / u = of_int \<lfloor>x / u\<rfloor>" using assms(1) by (simp add: field_simps)
  then have "round_half_even (x / u) = \<lfloor>x / u\<rfloor>" by (metis round_half_even_int)
  then show ?thesis using assms(1,3) unfolding candidates_def assms(2) [symmetric] Let_def by simp
qed

lemma candidates_none:
  assumes "round64 (of_int \<lfloor>x / u\<rfloor> * u) \<noteq> Fin x" and "round64 (of_int \<lfloor>x / u\<rfloor> * u + u) \<noteq> Fin x"
    and "u = pow10 (point x - n)"
  shows "candidates x n = []"
  using assms(1,2) unfolding candidates_def assms(3) [symmetric] Let_def by simp

lemma candidates_int:
  assumes "0 < m" and "m \<le> 10 ^ 15" and "0 < n"
  shows "candidates (of_int m) n = [] \<or> hd (candidates (of_int m) n) = of_int m"
proof -
  obtain k where k: "ndigits m = int (Suc k)" "10 ^ k \<le> m" using ndigits_bounds [OF assms(1)] by blast
  have rm: "round64 (of_int m) = Fin (of_int m)" using assms by (intro round64_int) simp
  have pt: "point (of_int m) = int (Suc k)" using assms(1) by (simp add: point_def k(1))
  let ?u = "pow10 (point (of_int m) - n)"
  show ?thesis
  proof (cases "n \<le> int k")
    case True
    define j :: int where "j = 10 ^ nat (int (Suc k) - n)"
    have "nat (int (Suc k) - n) \<le> k" using assms(3) by simp
    then have "j \<le> 10 ^ k" unfolding j_def by (rule power_increasing) simp
    then have "j \<le> m" using k(2) by linarith
    moreover have "0 < j" by (simp add: j_def)
    ultimately have j: "0 < j" "j \<le> m" by simp_all
    have u: "?u = of_int j" using True by (simp add: pt pow10_def j_def)
    have fl: "\<lfloor>(of_int m :: rat) / of_int j\<rfloor> = m div j" by (rule floor_divide_of_int_eq)
    let ?lo = "m div j * j"
    have lo: "?lo \<le> m" "0 \<le> ?lo" "m < ?lo + j"
      using j assms(1) div_mult_mod_eq [of m j] pos_mod_bound [of j m] pos_mod_sign [of j m]
      by (linarith, simp add: pos_imp_zdiv_nonneg_iff, linarith)
    have r: "round64 (of_int ?lo) = Fin (of_int ?lo)" "round64 (of_int (?lo + j)) = Fin (of_int (?lo + j))"
      using lo j assms(2) by (intro round64_int; simp)+
    show ?thesis
    proof (cases "?lo = m")
      case True
      then have "of_int \<lfloor>of_int m / ?u\<rfloor> * ?u = of_int m" unfolding u fl by (metis of_int_mult)
      then show ?thesis using candidates_exact [OF _ refl rm] by simp
    next
      case False
      have "candidates (of_int m) n = []"
      proof (rule candidates_none [OF _ _ refl])
        show "round64 (of_int \<lfloor>of_int m / ?u\<rfloor> * ?u) \<noteq> Fin (of_int m)"
          unfolding u fl using r(1) False by (metis float64.inject(2) of_int_eq_iff of_int_mult)
        show "round64 (of_int \<lfloor>of_int m / ?u\<rfloor> * ?u + ?u) \<noteq> Fin (of_int m)"
          unfolding u fl using r(2) lo(3) by (metis float64.inject(2) less_irrefl of_int_add of_int_eq_iff of_int_mult)
      qed
      then show ?thesis ..
    qed
  next
    case False
    define i where "i = nat (n - int (Suc k))"
    have "?u = 1 / 10 ^ i" using False by (cases "n = int (Suc k)") (simp_all add: pt pow10_def i_def)
    moreover have "(of_int m :: rat) / (1 / 10 ^ i) = of_int (m * 10 ^ i)" by simp
    ultimately have "of_int \<lfloor>of_int m / ?u\<rfloor> * ?u = of_int m"
      by (simp add: floor_of_int [where 'a = rat, of "m * 10 ^ i", simplified])
    then show ?thesis using candidates_exact [OF _ refl rm] by simp
  qed
qed

lemma hd_concat_const: "(\<And>y. y \<in> set ys \<Longrightarrow> f y = [] \<or> hd (f y) = x) \<Longrightarrow> hd (concat (map f ys) @ [x]) = x"
proof (induction ys)
  case (Cons y ys)
  then show ?case by (cases "f y") fastforce+
qed simp

lemma shortest_int: "0 < m \<Longrightarrow> m \<le> 10 ^ 15 \<Longrightarrow> shortest (of_int m) = of_int m"
  unfolding shortest_def by (rule hd_concat_const) (rule candidates_int; simp)

lemma strip_zeros_replicate: "set s \<subseteq> {CHR ''0''} \<Longrightarrow> strip_zeros s = []"
  by (auto simp: dropWhile_eq_Nil_conv)

lemma decimal_text_int: "0 \<le> m \<Longrightarrow> decimal_text (of_int m) k = nat_digits (nat m)"
proof -
  assume "0 \<le> m"
  have "\<lfloor>(of_int m :: rat) * 10 ^ k\<rfloor> = m * 10 ^ k"
    using floor_of_int [where 'a = rat, of "m * 10 ^ k"] by simp
  moreover have "nat_digits 0 = ''0''" by (simp add: nat_digits.simps digit_char_def)
  moreover have "strip_zeros (replicate (k - Suc 0) CHR ''0'' @ ''0'') = []"
    by (rule strip_zeros_replicate) (auto simp: set_replicate_conv_if)
  ultimately show ?thesis by (simp add: decimal_text_def Let_def del: strip_zeros.simps)
qed

text \<open>Integers of up to 15 digits are written as such.\<close>

lemma FormatFloat_int: "\<bar>m\<bar> \<le> 10 ^ 15 \<Longrightarrow> strconv_FormatFloat (Fin (of_int m)) = strconv_Itoa m"
proof (cases m "0 :: int" rule: linorder_cases)
  case less
  assume "\<bar>m\<bar> \<le> 10 ^ 15"
  with less have "shortest (of_int (- m)) = of_int (- m)" by (intro shortest_int) simp_all
  with less show ?thesis using decimal_text_int [of "- m"] by (simp add: strconv_Itoa_def)
next
  case equal
  then show ?thesis by (simp add: strconv_Itoa_def nat_digits.simps digit_char_def)
next
  case greater
  assume "\<bar>m\<bar> \<le> 10 ^ 15"
  with greater have "shortest (of_int m) = of_int m" by (intro shortest_int) simp_all
  with greater show ?thesis using decimal_text_int [of m] by (simp add: strconv_Itoa_def)
qed

lemma scan_mantissa_digits:
  "digits_val acc s = Some n \<Longrightarrow> scan_mantissa False (int acc) 0 False any s = (int n, 0, any \<or> s \<noteq> [], [])"
proof (induction s arbitrary: acc any)
  case (Cons c s)
  then obtain d where d: "digit_val c = Some d" "digits_val (10 * acc + d) s = Some n" by (auto split: option.splits)
  then have "c \<noteq> CHR ''_''" "c \<noteq> CHR ''.''" by (auto simp: digit_val_def Let_def split: if_splits)
  with d Cons.IH [OF d(2), of True] show ?case by (simp add: float_digit_def)
qed simp

lemma unsigned_float_digits: "unsigned_float (nat_digits n) = Some (of_nat n)"
proof -
  let ?s = "nat_digits n"
  have no_x: "(2 < length ?s \<and> ?s ! 0 = CHR ''0'' \<and> lower_char (?s ! 1) = CHR ''x'') = False"
  proof (rule ccontr)
    assume "(2 < length ?s \<and> ?s ! 0 = CHR ''0'' \<and> lower_char (?s ! 1) = CHR ''x'') \<noteq> False"
    moreover from this have "?s ! 1 \<in> set ''0123456789''" by (intro nat_digits_set [of _ n] nth_mem) simp
    ultimately show False by (auto simp: lower_char_def)
  qed
  have "CHR ''_'' \<notin> set ?s" using nat_digits_set by fastforce
  then show ?thesis
    using scan_mantissa_digits [OF digits_val_nat_digits [of n], of False]
    unfolding unsigned_float_def Let_def no_x by simp
qed

lemma digits_not_special:
  assumes "s \<noteq> []" and "hd s \<in> set ''-0123456789''"
  shows "strings_ToLower s \<noteq> ''inf''" and "strings_ToLower s \<noteq> ''infinity''" and "strings_ToLower s \<noteq> ''nan''"
  using assms by (cases s; auto simp: strings_ToLower_def lower_char_def)+

lemma ParseFloat_Itoa: "\<bar>m\<bar> < 2 ^ 53 \<Longrightarrow> strconv_ParseFloat (strconv_Itoa m) = Some (Fin (of_int m))"
proof -
  assume m: "\<bar>m\<bar> < 2 ^ 53"
  have hd: "hd (nat_digits n) \<in> set ''-0123456789''" for n
    using nat_digits_set [of "hd (nat_digits n)" n] by auto
  note sp = digits_not_special [OF nat_digits_nonempty hd]
  have nan: "strings_ToLower (strconv_Itoa m) \<noteq> ''nan''"
    by (rule digits_not_special) (use Itoa_set [of "hd (strconv_Itoa m)" m] in auto)
  show ?thesis
  proof (cases "m < 0")
    case True
    have "- rat_of_nat (nat (- m)) = of_int m" using True by simp
    with True nan sp show ?thesis
      by (simp add: strconv_ParseFloat_def strconv_Itoa_def unsigned_float_digits Let_def round64_int [OF m])
  next
    case False
    have "rat_of_nat (nat m) = of_int m" using False by simp
    with False nan sp show ?thesis
      by (simp add: strconv_ParseFloat_def strconv_Itoa_def unsigned_float_digits Let_def round64_int [OF m]
          nat_digits_hd)
  qed
qed

lemma float_add_int: "\<bar>a + b\<bar> < 2 ^ 53 \<Longrightarrow> float_add (Fin (of_int a)) (Fin (of_int b)) = Fin (of_int (a + b))"
  using round64_int [of "a + b"] by simp

lemma float_sub_int: "\<bar>a - b\<bar> < 2 ^ 53 \<Longrightarrow> float_sub (Fin (of_int a)) (Fin (of_int b)) = Fin (of_int (a - b))"
  using round64_int [of "a - b"] by (simp add: float_sub_def)

lemma float_mult_int: "\<bar>a * b\<bar> < 2 ^ 53 \<Longrightarrow> float_mult (Fin (of_int a)) (Fin (of_int b)) = Fin (of_int (a * b))"
  using round64_int [of "a * b"] by simp

end
