(* ===== verification/Distribution.thy ===== *)
theory Distribution
  imports Float64
begin

text \<open>
  The pause distributions, \<^verbatim>\<open>internal/distribution/distribution.go\<close>: the samplers, their construction
  from the attributes of an XML element, and sampling.  Durations are nanoseconds in an \<^verbatim>\<open>int64\<close>.
  The random generator is the pair of values it is asked for: what \<^verbatim>\<open>Int63n\<close> gives for a bound, and
  what \<^verbatim>\<open>NormFloat64\<close> gives.
\<close>

datatype Sampler = Fixed (sam_Value: int) | Uniform (sam_Min: int) (sam_Max: int)
  | Normal (sam_Mean: int) (sam_Stdev: int)

datatype dist_error =
    BadMilliseconds | MinRequired | MaxRequired | BadMin | BadMax | MinNegative | MaxNegative | MinAboveMax
  | MeanRequired | StdevRequired | BadMean | BadStdev | MeanNegative | StdevNegative | BothZero
  | UnsupportedType string

abbreviation Millisecond :: int where "Millisecond \<equiv> 1000000"
abbreviation Second :: int where "Second \<equiv> 1000000000"

definition parseDurationMs :: "string \<Rightarrow> int option" where
  "parseDurationMs value0 =
     (let value = strings_TrimSpace value0
      in if value = [] then Some 0
         else case strconv_Atoi value of
                (_, Some e) \<Rightarrow> None
              | (ms, None) \<Rightarrow> if ms < 0 then None else Some (wrap64 (ms * Millisecond)))"

definition parseFloat :: "string \<Rightarrow> float64 option" where
  "parseFloat value0 =
     (let value = strings_TrimSpace value0
      in if value = [] then Some (Fin 0) else strconv_ParseFloat value)"

text \<open>\<^verbatim>\<open>time.Duration(f * float64(time.Millisecond))\<close>.\<close>

definition duration_of_ms :: "float64 \<Rightarrow> int" where
  "duration_of_ms f = float_to_int64 (float_mult f (float_of_int Millisecond))"

definition newUniform :: "string \<Rightarrow> string \<Rightarrow> (dist_error, Sampler) result" where
  "newUniform mn mx =
     (if strings_TrimSpace mn = [] then Inl MinRequired
      else if strings_TrimSpace mx = [] then Inl MaxRequired
      else case parseFloat mn of
             None \<Rightarrow> Inl BadMin
           | Some minFloat \<Rightarrow>
               (case parseFloat mx of
                  None \<Rightarrow> Inl BadMax
                | Some maxFloat \<Rightarrow>
                    if float_lt minFloat (Fin 0) then Inl MinNegative
                    else if float_lt maxFloat (Fin 0) then Inl MaxNegative
                    else if duration_of_ms maxFloat < duration_of_ms minFloat then Inl MinAboveMax
                    else Inr (Uniform (duration_of_ms minFloat) (duration_of_ms maxFloat))))"

definition newNormal :: "string \<Rightarrow> string \<Rightarrow> (dist_error, Sampler) result" where
  "newNormal mean stdev =
     (if strings_TrimSpace mean = [] then Inl MeanRequired
      else if strings_TrimSpace stdev = [] then Inl StdevRequired
      else case parseFloat mean of
             None \<Rightarrow> Inl BadMean
           | Some meanFloat \<Rightarrow>
               (case parseFloat stdev of
                  None \<Rightarrow> Inl BadStdev
                | Some stdevFloat \<Rightarrow>
                    if float_lt meanFloat (Fin 0) then Inl MeanNegative
                    else if float_lt stdevFloat (Fin 0) then Inl StdevNegative
                    else if float_eq meanFloat (Fin 0) \<and> float_eq stdevFloat (Fin 0) then Inl BothZero
                    else Inr (Normal (duration_of_ms meanFloat) (duration_of_ms stdevFloat))))"

definition NewFromXML ::
  "string \<Rightarrow> string \<Rightarrow> string \<Rightarrow> string \<Rightarrow> string \<Rightarrow> string \<Rightarrow> (dist_error, Sampler) result" where
  "NewFromXML distType0 milliseconds mean stdev mn mx =
     (let distType = (if distType0 = [] then ''fixed'' else distType0); lower = strings_ToLower distType
      in if lower = ''fixed'' then
           (case parseDurationMs milliseconds of None \<Rightarrow> Inl BadMilliseconds | Some ms \<Rightarrow> Inr (Fixed ms))
         else if lower = ''uniform'' then newUniform mn mx
         else if lower = ''normal'' then newNormal mean stdev
         else Inl (UnsupportedType distType))"

record rng =
  Int63n :: "int \<Rightarrow> int"
  NormFloat64 :: float64

text \<open>\<^verbatim>\<open>Int63n\<close> panics when its bound is not positive: the result \<open>None\<close>.\<close>

fun Sample :: "rng \<Rightarrow> Sampler \<Rightarrow> int option" where
  "Sample r (Fixed v) = Some v"
| "Sample r (Uniform mn mx) =
     (if mx \<le> mn then Some mn
      else
        let delta = wrap64 (mx - mn)
        in if delta \<le> 0 then None else Some (wrap64 (mn + Int63n r delta)))"
| "Sample r (Normal mean stdev) =
     (let sample = float_add (float_mult (NormFloat64 r) (float_of_int stdev)) (float_of_int mean)
      in Some (if float_lt sample (Fin 0) then 0 else float_to_int64 sample))"

section \<open>Properties\<close>

lemma duration_of_int_ms:
  assumes "\<bar>a\<bar> < 9000000000"
  shows "duration_of_ms (Fin (of_int a)) = a * Millisecond"
proof -
  have "float_of_int Millisecond = Fin (of_int Millisecond)"
    unfolding float_of_int_def by (rule round64_int) simp
  moreover have "float_mult (Fin (of_int a)) (Fin (of_int Millisecond)) = Fin (of_int (a * Millisecond))"
    using assms by (intro float_mult_int) simp
  moreover have "rat_trunc (of_int (a * Millisecond)) = a * Millisecond"
    unfolding rat_trunc_def by (simp only: ceiling_of_int floor_of_int if_cancel)
  moreover have "int64_range (a * Millisecond)" using assms unfolding int64_range_def by simp linarith
  ultimately show ?thesis unfolding duration_of_ms_def by (simp only: float_to_int64.simps if_True)
qed

lemma parseFloat_Itoa: "\<bar>a\<bar> < 2 ^ 53 \<Longrightarrow> parseFloat (strconv_Itoa a) = Some (Fin (of_int a))"
  by (simp add: parseFloat_def ascii_word_trimmed [OF Itoa_word] ParseFloat_Itoa)

definition rng_ok :: "rng \<Rightarrow> bool" where
  "rng_ok r \<longleftrightarrow> (\<forall>n > 0. 0 \<le> Int63n r n \<and> Int63n r n < n)"

text \<open>
  A uniform pause whose bounds are whole milliseconds (below 104 days) is accepted, and
  every sample lies between them: at least the minimum, and below the maximum when they differ.
\<close>
lemma Sample_uniform:
  assumes "0 \<le> a" and "a \<le> b" and "b < 9000000000" and "rng_ok r"
  shows "\<exists>s v. NewFromXML ''uniform'' ms mean sd (strconv_Itoa a) (strconv_Itoa b) = Inr s
    \<and> Sample r s = Some v \<and> a * Millisecond \<le> v \<and> v \<le> b * Millisecond
    \<and> (a < b \<longrightarrow> v < b * Millisecond)"
proof -
  let ?s = "Uniform (a * Millisecond) (b * Millisecond)"
  have n: "NewFromXML ''uniform'' ms mean sd (strconv_Itoa a) (strconv_Itoa b) = Inr ?s"
    using assms by (simp add: NewFromXML_def newUniform_def ascii_word_trimmed [OF Itoa_word] parseFloat_Itoa
        duration_of_int_ms strings_ToLower_def lower_char_def)
  have wd: "wrap64 (b * Millisecond - a * Millisecond) = (b - a) * Millisecond"
    using assms by (subst wrap64_id) (simp_all add: int64_range_def)
  show ?thesis
  proof (cases "a < b")
    case True
    let ?u = "Int63n r ((b - a) * Millisecond)"
    have u: "0 \<le> ?u" "?u < (b - a) * Millisecond" using assms(4) True by (simp_all add: rng_ok_def)
    have "wrap64 (a * Millisecond + ?u) = a * Millisecond + ?u"
      using u assms True by (intro wrap64_id) (simp add: int64_range_def)
    then have "Sample r ?s = Some (a * Millisecond + ?u)"
      using True by (simp add: wd Let_def)
    with n u True show ?thesis by (intro exI [of _ ?s]) auto
  next
    case False
    with n assms show ?thesis by (intro exI [of _ ?s]) auto
  qed
qed

text \<open>
  The bounds of a uniform pause are compared with zero as floats, and no comparison holds for a
  number that is none: the minimum \<^verbatim>\<open>nan\<close> is accepted, becomes the smallest duration, and the
  difference of the bounds overflows, so that the first sample panics.
\<close>
lemma Sample_nan_panics:
  "\<exists>s. NewFromXML ''uniform'' ms mean sd ''nan'' (strconv_Itoa 100) = Inr s \<and> Sample r s = None"
proof -
  have f: "parseFloat ''nan'' = Some FNaN"
    unfolding parseFloat_def Let_def by (subst (1 2) ascii_word_trimmed)
      (simp_all add: ascii_word_def space_runes_def strconv_ParseFloat_def strings_ToLower_def lower_char_def)
  have "strings_TrimSpace ''nan'' = ''nan''" by (rule ascii_word_trimmed) (simp add: ascii_word_def space_runes_def)
  then have n: "NewFromXML ''uniform'' ms mean sd ''nan'' (strconv_Itoa 100) = Inr (Uniform (- (2 ^ 63)) (100 * Millisecond))"
    using duration_of_int_ms [of 100] parseFloat_Itoa [of 100]
    by (simp add: NewFromXML_def newUniform_def ascii_word_trimmed [OF Itoa_word] f
        strings_ToLower_def lower_char_def duration_of_ms_def)
  have "wrap64 (100 * Millisecond - - (2 ^ 63)) \<le> 0" by (simp add: wrap64_def)
  then have "Sample r (Uniform (- (2 ^ 63)) (100 * Millisecond)) = None" by (simp add: Let_def)
  with n show ?thesis by blast
qed

end
