(* ===== verification/Scenario.thy ===== *)
theory Scenario
  imports Distribution
begin

text \<open>
  Scenarios, \<^verbatim>\<open>internal/scenario/model.go\<close> and \<^verbatim>\<open>internal/scenario/parser.go\<close>: the commands and actions a
  scenario consists of, and the translation of the decoded XML document into them.  Decoding itself
  (\<^verbatim>\<open>encoding/xml\<close>), the Latin-1 table (\<^verbatim>\<open>golang.org/x/text\<close>) and the test whether a regular expression
  compiles are parameters; the encoding declaration in front of the document is handled here, with
  the in-place edit of its bytes that the code performs.
\<close>

section \<open>The model\<close>

text \<open>\<open>CommandNone\<close> is the empty type name of a command that is not to be kept.\<close>

datatype CommandType = CommandSend | CommandRecv | CommandSendCmd | CommandRecvCmd | CommandPause | CommandNop
  | CommandLabel | CommandTimeWait | CommandNone

datatype Mode = ModeClient | ModeServer

datatype ActionType = ActionEReg | ActionAssignStr | ActionAssign | ActionToDouble | ActionAdd | ActionSubtract
  | ActionMultiply | ActionDivide | ActionStrCmp | ActionTest | ActionLog | ActionWarning | ActionLookup
  | ActionSample | ActionInsert | ActionReplace | ActionJump | ActionGetTimeOfDay | ActionURLEncode
  | ActionURLDecode | ActionVerifyAuth | ActionExec | ActionSetDest

record Action =
  a_Type :: ActionType
  a_Regexp :: string
  a_SearchIn :: string
  a_Header :: string
  a_Variable :: string
  a_Variable2 :: string
  a_AssignTo :: "string list"
  a_CheckIt :: bool
  a_CheckItInverse :: bool
  a_Value :: string
  a_Compare :: string
  a_Message :: string
  a_File :: string
  a_Key :: string
  a_Username :: string
  a_Password :: string
  a_Command :: string
  a_IntCmd :: string
  a_RTPStream :: string
  a_RTPRecord :: string
  a_RTPCheck :: string
  a_PlayPCAPAudio :: string
  a_PlayPCAPVideo :: string
  a_PlayPCAPImage :: string
  a_SendDTMF :: string
  a_Host :: string
  a_Port :: string
  a_Protocol :: string

text \<open>A compiled regular expression is the pattern it was compiled from.\<close>

record Command =
  c_Type :: CommandType
  c_Index :: int
  c_Display :: string
  c_Counter :: string
  c_StartRTD :: string
  c_StopRTD :: string
  c_NextLabel :: string
  c_NextIndex :: int
  c_Test :: string
  c_Chance :: float64
  c_CondExec :: string
  c_CondExecInverse :: bool
  c_SendText :: string
  c_Retrans :: int
  c_RecvReq :: string
  c_RecvResp :: string
  c_RegexpMatch :: bool
  c_RecvReqRegex :: "string option"
  c_RRS :: bool
  c_CmdDest :: string
  c_CmdSrc :: string
  c_Optional :: bool
  c_Timeout :: int
  c_Pause :: "Sampler option"
  c_LabelID :: string
  c_TimeWait :: bool
  c_Actions :: "Action list"

record Scenario =
  s_Name :: string
  s_BasePath :: string
  s_Mode :: Mode
  s_WebRTC :: bool
  s_Commands :: "Command list"
  s_InitCommands :: "Command list"
  s_Labels :: "string \<Rightarrow> int option"
  s_InitLabels :: "string \<Rightarrow> int option"
  s_GlobalVariables :: "string list"
  s_UserVariables :: "string list"
  s_References :: "string list"

definition IsReceive :: "Command \<Rightarrow> bool" where
  "IsReceive c \<longleftrightarrow> c_Type c = CommandRecv \<or> c_Type c = CommandRecvCmd"

definition IsSend :: "Command \<Rightarrow> bool" where
  "IsSend c \<longleftrightarrow> c_Type c = CommandSend \<or> c_Type c = CommandSendCmd"

section \<open>The decoded document\<close>

record rawActionItem =
  ra_Name :: string
  ra_Regexp :: string
  ra_SearchIn :: string
  ra_Header :: string
  ra_Variable :: string
  ra_Variable2 :: string
  ra_AssignTo :: string
  ra_CheckIt :: string
  ra_CheckItInverse :: string
  ra_Value :: string
  ra_Compare :: string
  ra_Message :: string
  ra_File :: string
  ra_Key :: string
  ra_Username :: string
  ra_Password :: string
  ra_Command :: string
  ra_IntCmd :: string
  ra_RTPStream :: string
  ra_RTPRecord :: string
  ra_RTPCheck :: string
  ra_PlayPCAPAudio :: string
  ra_PlayPCAPVideo :: string
  ra_PlayPCAPImage :: string
  ra_SendDTMF :: string
  ra_Host :: string
  ra_Port :: string
  ra_Protocol :: string

type_synonym rawAction = "rawActionItem list"

record rawElement =
  r_Name :: string
  r_Text :: string
  r_Next :: string
  r_Test :: string
  r_Chance :: string
  r_CondExec :: string
  r_CondExecInverse :: string
  r_Counter :: string
  r_Display :: string
  r_StartRTD :: string
  r_RTD :: string
  r_Retrans :: string
  r_Request :: string
  r_Response :: string
  r_RegexpMatch :: string
  r_RRS :: string
  r_Optional :: string
  r_Timeout :: string
  r_Milliseconds :: string
  r_ID :: string
  r_Dest :: string
  r_Src :: string
  r_Actions :: "rawAction list"
  r_Distribution :: string
  r_Mean :: string
  r_Stdev :: string
  r_Min :: string
  r_Max :: string

record rawScenarioItem = rawElement +
  r_Variables :: string
  r_Elements :: "rawElement list"

record rawScenario =
  raw_Name :: string
  raw_WebRTC :: string
  raw_Elements :: "rawScenarioItem list"

section \<open>Attributes\<close>

datatype scenario_error =
    BadXML
  | BadEncoding string
  | RegexpNoRequest int
  | BadRegexp int
  | BadPause int dist_error
  | BadTimeWait int dist_error
  | UnsupportedAction string
  | BadChance string
  | LabelNoID int
  | RecvNothing int
  | UnknownLabel int string
  | UnknownInitLabel int string
  | NoCommands

definition parseBool :: "string \<Rightarrow> bool" where
  "parseBool value \<longleftrightarrow> strings_ToLower (strings_TrimSpace value) \<in> {''1'', ''true'', ''yes''}"

definition parseDurationMilliseconds :: "string \<Rightarrow> int" where
  "parseDurationMilliseconds value0 =
     (let value = strings_TrimSpace value0
      in if value = [] then 0
         else case strconv_Atoi value of
                (_, Some e) \<Rightarrow> 0
              | (ms, None) \<Rightarrow> wrap64 (ms * Millisecond))"

definition normalizeInnerXML :: "string \<Rightarrow> string" where
  "normalizeInnerXML value0 =
     (let v1 = strings_ReplaceAll value0 CRLF [LF];
          v2 = strings_ReplaceAll v1 ''<![CDATA['' [];
          v3 = strings_ReplaceAll v2 '']]>'' [];
          value = strings_TrimSpace v3
      in if value = [] then [] else strings_ReplaceAll value [LF] CRLF @ CRLF)"

definition parseVariablesList :: "string \<Rightarrow> string list" where
  "parseVariablesList value =
     filter (\<lambda>part. part \<noteq> []) (map strings_TrimSpace (strings_Split value '',''))"

definition action_names :: "(string \<times> ActionType) list" where
  "action_names =
     [(''ereg'', ActionEReg), (''assignstr'', ActionAssignStr), (''assign'', ActionAssign),
      (''todouble'', ActionToDouble), (''add'', ActionAdd), (''subtract'', ActionSubtract),
      (''multiply'', ActionMultiply), (''divide'', ActionDivide), (''strcmp'', ActionStrCmp),
      (''test'', ActionTest), (''log'', ActionLog), (''warning'', ActionWarning), (''lookup'', ActionLookup),
      (''sample'', ActionSample), (''insert'', ActionInsert), (''replace'', ActionReplace),
      (''jump'', ActionJump), (''gettimeofday'', ActionGetTimeOfDay), (''urlencode'', ActionURLEncode),
      (''urldecode'', ActionURLDecode), (''verifyauth'', ActionVerifyAuth), (''exec'', ActionExec),
      (''setdest'', ActionSetDest)]"

definition parseActionType :: "string \<Rightarrow> ActionType option" where
  "parseActionType name = map_of action_names (strings_TrimSpace name)"

definition parse_action :: "rawActionItem \<Rightarrow> (scenario_error, Action) result" where
  "parse_action child =
     (case parseActionType (ra_Name child) of
        None \<Rightarrow> Inl (UnsupportedAction (ra_Name child))
      | Some actionType \<Rightarrow>
          Inr \<lparr>a_Type = actionType,
            a_Regexp = strings_TrimSpace (ra_Regexp child),
            a_SearchIn = strings_TrimSpace (ra_SearchIn child),
            a_Header = strings_TrimSpace (ra_Header child),
            a_Variable = strings_TrimSpace (ra_Variable child),
            a_Variable2 = strings_TrimSpace (ra_Variable2 child),
            a_AssignTo = (let assignTo = strings_TrimSpace (ra_AssignTo child)
              in if assignTo = [] then [] else parseVariablesList assignTo),
            a_CheckIt = parseBool (ra_CheckIt child),
            a_CheckItInverse = parseBool (ra_CheckItInverse child),
            a_Value = strings_TrimSpace (ra_Value child),
            a_Compare = strings_TrimSpace (ra_Compare child),
            a_Message = strings_TrimSpace (ra_Message child),
            a_File = strings_TrimSpace (ra_File child),
            a_Key = strings_TrimSpace (ra_Key child),
            a_Username = strings_TrimSpace (ra_Username child),
            a_Password = strings_TrimSpace (ra_Password child),
            a_Command = strings_TrimSpace (ra_Command child),
            a_IntCmd = strings_TrimSpace (ra_IntCmd child),
            a_RTPStream = strings_TrimSpace (ra_RTPStream child),
            a_RTPRecord = strings_TrimSpace (ra_RTPRecord child),
            a_RTPCheck = strings_TrimSpace (ra_RTPCheck child),
            a_PlayPCAPAudio = strings_TrimSpace (ra_PlayPCAPAudio child),
            a_PlayPCAPVideo = strings_TrimSpace (ra_PlayPCAPVideo child),
            a_PlayPCAPImage = strings_TrimSpace (ra_PlayPCAPImage child),
            a_SendDTMF = strings_TrimSpace (ra_SendDTMF child),
            a_Host = strings_TrimSpace (ra_Host child),
            a_Port = strings_TrimSpace (ra_Port child),
            a_Protocol = strings_TrimSpace (ra_Protocol child)\<rparr>)"

fun map_result :: "('a \<Rightarrow> ('e, 'b) result) \<Rightarrow> 'a list \<Rightarrow> ('e, 'b list) result" where
  "map_result f [] = Inr []"
| "map_result f (x # xs) =
     bind_result (f x) (\<lambda>y. bind_result (map_result f xs) (\<lambda>ys. Inr (y # ys)))"

definition parseActions :: "rawAction list \<Rightarrow> (scenario_error, Action list) result" where
  "parseActions raw = map_result parse_action (concat raw)"

section \<open>Commands\<close>

definition new_command :: "int \<Rightarrow> Command" where
  "new_command index = \<lparr>c_Type = CommandNone, c_Index = index, c_Display = [], c_Counter = [], c_StartRTD = [],
     c_StopRTD = [], c_NextLabel = [], c_NextIndex = - 1, c_Test = [], c_Chance = Fin 1, c_CondExec = [],
     c_CondExecInverse = False, c_SendText = [], c_Retrans = 0, c_RecvReq = [], c_RecvResp = [],
     c_RegexpMatch = False, c_RecvReqRegex = None, c_RRS = False, c_CmdDest = [], c_CmdSrc = [],
     c_Optional = False, c_Timeout = 0, c_Pause = None, c_LabelID = [], c_TimeWait = False, c_Actions = []\<rparr>"

text \<open>The switch on the element's name; \<open>None\<close> is its default branch.\<close>

definition command_body ::
  "(string \<Rightarrow> bool) \<Rightarrow> rawElement \<Rightarrow> int \<Rightarrow> (scenario_error, Command option) result" where
  "command_body regex_ok elem index =
     (let cmd = new_command index; name = r_Name elem
      in if name = ''send'' then
           Inr (Some (cmd\<lparr>c_Type := CommandSend, c_SendText := normalizeInnerXML (r_Text elem),
             c_Retrans := parseDurationMilliseconds (r_Retrans elem)\<rparr>))
         else if name = ''sendCmd'' then
           Inr (Some (cmd\<lparr>c_Type := CommandSendCmd, c_SendText := normalizeInnerXML (r_Text elem),
             c_CmdDest := strings_TrimSpace (r_Dest elem)\<rparr>))
         else if name = ''recv'' then
           (let request = strings_TrimSpace (r_Request elem); rm = parseBool (r_RegexpMatch elem)
            in if rm \<and> request = [] then Inl (RegexpNoRequest index)
               else if rm \<and> \<not> regex_ok request then Inl (BadRegexp index)
               else Inr (Some (cmd\<lparr>c_Type := CommandRecv, c_RecvReq := request,
                 c_RecvResp := strings_TrimSpace (r_Response elem), c_RegexpMatch := rm,
                 c_RecvReqRegex := (if rm then Some request else None), c_RRS := parseBool (r_RRS elem),
                 c_Optional := parseBool (r_Optional elem),
                 c_Timeout := parseDurationMilliseconds (r_Timeout elem)\<rparr>)))
         else if name = ''recvCmd'' then
           Inr (Some (cmd\<lparr>c_Type := CommandRecvCmd, c_CmdSrc := strings_TrimSpace (r_Src elem),
             c_Optional := parseBool (r_Optional elem), c_Timeout := parseDurationMilliseconds (r_Timeout elem)\<rparr>))
         else if name = ''pause'' then
           (case NewFromXML (r_Distribution elem) (r_Milliseconds elem) (r_Mean elem) (r_Stdev elem)
                   (r_Min elem) (r_Max elem) of
              Inl e \<Rightarrow> Inl (BadPause index e)
            | Inr sampler \<Rightarrow> Inr (Some (cmd\<lparr>c_Type := CommandPause, c_Pause := Some sampler\<rparr>)))
         else if name = ''nop'' then Inr (Some (cmd\<lparr>c_Type := CommandNop\<rparr>))
         else if name = ''label'' then
           Inr (Some (cmd\<lparr>c_Type := CommandLabel, c_LabelID := strings_TrimSpace (r_ID elem)\<rparr>))
         else if name = ''timewait'' then
           (case NewFromXML ''fixed'' (r_Milliseconds elem) [] [] [] [] of
              Inl e \<Rightarrow> Inl (BadTimeWait index e)
            | Inr sampler \<Rightarrow>
                Inr (Some (cmd\<lparr>c_Type := CommandTimeWait, c_TimeWait := True, c_Pause := Some sampler\<rparr>)))
         else Inr None)"

definition parse_chance :: "string \<Rightarrow> (scenario_error, float64) result" where
  "parse_chance raw =
     (let chance = strings_TrimSpace raw
      in if chance = [] then Inr (Fin 1)
         else case strconv_ParseFloat chance of
                None \<Rightarrow> Inl (BadChance chance)
              | Some value \<Rightarrow>
                  Inr (if float_lt value (Fin 0) then Fin 0
                       else if float_lt (Fin 1) value then Fin 1 else value))"

definition rawElementToCommand ::
  "(string \<Rightarrow> bool) \<Rightarrow> rawElement \<Rightarrow> int \<Rightarrow> (scenario_error, Command) result" where
  "rawElementToCommand regex_ok elem index =
     bind_result (command_body regex_ok elem index) (\<lambda>body.
       case body of
         None \<Rightarrow> Inr (new_command 0)
       | Some cmd \<Rightarrow>
           bind_result (parseActions (r_Actions elem)) (\<lambda>actions.
             bind_result (parse_chance (r_Chance elem)) (\<lambda>chance.
               let cmd' = cmd\<lparr>c_NextLabel := strings_TrimSpace (r_Next elem),
                     c_Test := strings_TrimSpace (r_Test elem), c_Counter := strings_TrimSpace (r_Counter elem),
                     c_Display := strings_TrimSpace (r_Display elem),
                     c_StartRTD := strings_TrimSpace (r_StartRTD elem),
                     c_StopRTD := strings_TrimSpace (r_RTD elem),
                     c_CondExec := strings_TrimSpace (r_CondExec elem),
                     c_CondExecInverse := parseBool (r_CondExecInverse elem), c_Actions := actions,
                     c_Chance := chance\<rparr>
               in if c_Type cmd' = CommandLabel \<and> c_LabelID cmd' = [] then Inl (LabelNoID index)
                  else if c_Type cmd' = CommandRecv \<and> c_RecvReq cmd' = [] \<and> c_RecvResp cmd' = []
                  then Inl (RecvNothing index)
                  else Inr cmd')))"

definition rawScenarioItemToCommand ::
  "(string \<Rightarrow> bool) \<Rightarrow> rawScenarioItem \<Rightarrow> int \<Rightarrow> (scenario_error, Command) result" where
  "rawScenarioItemToCommand regex_ok elem index = rawElementToCommand regex_ok (rawElement.truncate elem) index"

section \<open>Scenarios\<close>

text \<open>The label table and the command list after one more command.\<close>

definition add_command ::
  "Command \<Rightarrow> Command list \<Rightarrow> (string \<Rightarrow> int option) \<Rightarrow> Command list \<times> (string \<Rightarrow> int option)" where
  "add_command cmd cmds labels =
     (if c_Type cmd = CommandNone then (cmds, labels)
      else (cmds @ [cmd],
            if c_Type cmd = CommandLabel then labels(c_LabelID cmd \<mapsto> int (length cmds)) else labels))"

fun parse_init ::
  "(string \<Rightarrow> bool) \<Rightarrow> rawElement list \<Rightarrow> Scenario \<Rightarrow> (scenario_error, Scenario) result" where
  "parse_init regex_ok [] sc = Inr sc"
| "parse_init regex_ok (child # rest) sc =
     bind_result (rawElementToCommand regex_ok child (int (length (s_InitCommands sc)))) (\<lambda>cmd.
       case add_command cmd (s_InitCommands sc) (s_InitLabels sc) of (cmds, labels) \<Rightarrow>
         parse_init regex_ok rest (sc\<lparr>s_InitCommands := cmds, s_InitLabels := labels\<rparr>))"

definition parse_item ::
  "(string \<Rightarrow> bool) \<Rightarrow> rawScenarioItem \<Rightarrow> Scenario \<Rightarrow> (scenario_error, Scenario) result" where
  "parse_item regex_ok elem sc =
     (let name = r_Name elem; vars = parseVariablesList (r_Variables elem)
      in if name = ''Global'' then Inr (sc\<lparr>s_GlobalVariables := s_GlobalVariables sc @ vars\<rparr>)
         else if name = ''User'' then Inr (sc\<lparr>s_UserVariables := s_UserVariables sc @ vars\<rparr>)
         else if name = ''Reference'' then Inr (sc\<lparr>s_References := s_References sc @ vars\<rparr>)
         else if name = ''init'' then parse_init regex_ok (r_Elements elem) sc
         else bind_result (rawScenarioItemToCommand regex_ok elem (int (length (s_Commands sc)))) (\<lambda>cmd.
                case add_command cmd (s_Commands sc) (s_Labels sc) of (cmds, labels) \<Rightarrow>
                  Inr (sc\<lparr>s_Commands := cmds, s_Labels := labels,
                    s_Mode := (if c_Type cmd = CommandRecv \<and> c_RecvReq cmd \<noteq> [] then ModeServer
                               else s_Mode sc)\<rparr>)))"

fun parse_items ::
  "(string \<Rightarrow> bool) \<Rightarrow> rawScenarioItem list \<Rightarrow> Scenario \<Rightarrow> (scenario_error, Scenario) result" where
  "parse_items regex_ok [] sc = Inr sc"
| "parse_items regex_ok (elem # rest) sc = bind_result (parse_item regex_ok elem sc) (parse_items regex_ok rest)"

text \<open>Resolving the \<^verbatim>\<open>next\<close> labels of the commands from position \<open>i\<close> on.\<close>

fun resolve_labels ::
  "(int \<Rightarrow> string \<Rightarrow> scenario_error) \<Rightarrow> (string \<Rightarrow> int option) \<Rightarrow> int \<Rightarrow> Command list
    \<Rightarrow> (scenario_error, Command list) result" where
  "resolve_labels err labels i [] = Inr []"
| "resolve_labels err labels i (c # cs) =
     bind_result
       (if c_NextLabel c = [] then Inr c
        else case labels (c_NextLabel c) of
               None \<Rightarrow> Inl (err i (c_NextLabel c))
             | Some next \<Rightarrow> Inr (c\<lparr>c_NextIndex := next\<rparr>))
       (\<lambda>c'. bind_result (resolve_labels err labels (i + 1) cs) (\<lambda>cs'. Inr (c' # cs')))"

definition new_scenario :: "rawScenario \<Rightarrow> Scenario" where
  "new_scenario raw = \<lparr>s_Name = raw_Name raw, s_BasePath = ''.'', s_Mode = ModeClient,
     s_WebRTC = parseBool (raw_WebRTC raw), s_Commands = [], s_InitCommands = [], s_Labels = Map.empty,
     s_InitLabels = Map.empty, s_GlobalVariables = [], s_UserVariables = [], s_References = []\<rparr>"

definition build_scenario :: "(string \<Rightarrow> bool) \<Rightarrow> rawScenario \<Rightarrow> (scenario_error, Scenario) result" where
  "build_scenario regex_ok raw =
     bind_result (parse_items regex_ok (raw_Elements raw) (new_scenario raw)) (\<lambda>sc.
       bind_result (resolve_labels UnknownLabel (s_Labels sc) 0 (s_Commands sc)) (\<lambda>cmds.
         bind_result (resolve_labels UnknownInitLabel (s_InitLabels sc) 0 (s_InitCommands sc)) (\<lambda>inits.
           if cmds = [] then Inl NoCommands
           else Inr (sc\<lparr>s_Commands := cmds, s_InitCommands := inits\<rparr>))))"

section \<open>The encoding declaration\<close>

abbreviation DQUOTE :: char where "DQUOTE \<equiv> CHR 0x22"
abbreviation SQUOTE :: char where "SQUOTE \<equiv> CHR 0x27"

definition latin1_names :: "string list" where
  "latin1_names = [''iso-8859-1'', ''iso8859-1'', ''latin-1'', ''latin1'', ''ibm819'', ''cp819'', ''csisolatin1'']"

definition isISO88591DeclEncoding :: "string \<Rightarrow> bool" where
  "isISO88591DeclEncoding enc \<longleftrightarrow> strings_ToLower (strings_TrimSpace enc) \<in> set latin1_names"

definition sniffXMLDeclEncoding :: "string \<Rightarrow> string" where
  "sniffXMLDeclEncoding data =
     (case strings_Index data ''?>'' of
        None \<Rightarrow> []
      | Some e \<Rightarrow>
          let head = take (e + 2) data
          in case strings_Index (strings_ToLower head) ''encoding='' of
               None \<Rightarrow> []
             | Some i \<Rightarrow>
                 (case strings_TrimSpace (drop (i + 9) head) of
                    [] \<Rightarrow> []
                  | q # rest \<Rightarrow>
                      if q \<noteq> DQUOTE \<and> q \<noteq> SQUOTE then []
                      else case strings_IndexByte rest q of
                             None \<Rightarrow> []
                           | Some j \<Rightarrow> strings_TrimSpace (take j rest)))"

text \<open>
  Where the declaration is to be edited: the end \<open>e\<close> of the prolog, the end \<open>p\<close> of the key, the quote \<open>q\<close>, and
  the bounds \<open>s0\<close> and \<open>s1\<close> of what follows the value.  The slices of the code share the bytes of \<open>b\<close>, so a
  slice is its offset and its length.
\<close>

definition decl_site :: "string \<Rightarrow> (nat \<times> nat \<times> char \<times> nat \<times> nat) option" where
  "decl_site b =
     (case strings_Index b ''?>'' of
        None \<Rightarrow> None
      | Some e \<Rightarrow>
          let pi = take (e + 2) b
          in case strings_Index (strings_ToLower pi) ''encoding='' of
               None \<Rightarrow> None
             | Some i \<Rightarrow>
                 let p = i + 9; rest0 = drop p pi; rest = strings_TrimSpace rest0;
                     off = p + (length rest0 - length (strip_runes space_runes rest0))
                 in if length rest < 3 then None
                    else
                      let q = hd rest; valPart = tl rest
                      in if q \<noteq> DQUOTE \<and> q \<noteq> SQUOTE then None
                         else case strings_IndexByte valPart q of
                                None \<Rightarrow> None
                              | Some j \<Rightarrow>
                                  if \<not> isISO88591DeclEncoding (take j valPart) then None
                                  else Some (e, p, q, off + 1 + j + 1, off + length rest))"

text \<open>Writing \<open>xs\<close> into the bytes of \<open>b\<close> at offset \<open>k\<close>: \<^verbatim>\<open>append\<close> to a slice with room behind it.\<close>

definition write_at :: "string \<Rightarrow> nat \<Rightarrow> string \<Rightarrow> string" where
  "write_at b k xs = take k b @ xs @ drop (k + length xs) b"

definition quoted_utf8 :: "char \<Rightarrow> string" where
  "quoted_utf8 q = [q] @ ''UTF-8'' @ [q]"

definition rewriteXMLDeclEncodingToUTF8 :: "string \<Rightarrow> string" where
  "rewriteXMLDeclEncodingToUTF8 b =
     (case decl_site b of
        None \<Rightarrow> b
      | Some (e, p, q, s0, s1) \<Rightarrow>
          let mid = quoted_utf8 q;
              b1 = write_at b p mid;
              suffix = take (s1 - s0) (drop s0 b1); k2 = p + length mid;
              b2 = write_at b1 k2 suffix;
              tail = drop (e + 2) b2; k3 = k2 + length suffix;
              b3 = write_at b2 k3 tail
          in take (k3 + length tail) b3)"

definition UTF8_BOM :: string where "UTF8_BOM = [CHR 0xEF, CHR 0xBB, CHR 0xBF]"

definition scenarioXMLToUTF8 ::
  "(string \<Rightarrow> string) \<Rightarrow> string \<Rightarrow> (scenario_error, string) result" where
  "scenarioXMLToUTF8 latin1 data0 =
     (let data = strings_TrimPrefix data0 UTF8_BOM; enc = strings_TrimSpace (sniffXMLDeclEncoding data)
      in if strings_ToLower enc \<in> {[], ''utf-8'', ''utf8''} then Inr data
         else if \<not> isISO88591DeclEncoding enc then Inl (BadEncoding enc)
         else Inr (rewriteXMLDeclEncodingToUTF8 (latin1 data)))"

text \<open>\<open>unmarshal\<close> is \<^verbatim>\<open>xml.Unmarshal\<close> into the raw structures.\<close>

definition xmlDecodeScenario ::
  "(string \<Rightarrow> string) \<Rightarrow> (string \<Rightarrow> rawScenario option) \<Rightarrow> string \<Rightarrow> (scenario_error, rawScenario) result" where
  "xmlDecodeScenario latin1 unmarshal data =
     bind_result (scenarioXMLToUTF8 latin1 data) (\<lambda>out.
       case unmarshal out of None \<Rightarrow> Inl BadXML | Some raw \<Rightarrow> Inr raw)"

definition ParseString ::
  "(string \<Rightarrow> bool) \<Rightarrow> (string \<Rightarrow> string) \<Rightarrow> (string \<Rightarrow> rawScenario option) \<Rightarrow> string
    \<Rightarrow> (scenario_error, Scenario) result" where
  "ParseString regex_ok latin1 unmarshal data =
     bind_result (xmlDecodeScenario latin1 unmarshal data) (build_scenario regex_ok)"

section \<open>The in-place edit\<close>

lemma Index_end_bound: "strings_Index s sub = Some i \<Longrightarrow> i + length sub \<le> length s"
proof (induction s arbitrary: i)
  case (Cons c t)
  show ?case
  proof (cases "strings_HasPrefix (c # t) sub")
    case True
    then have "length sub \<le> length (c # t)"
      unfolding strings_HasPrefix_def by (metis length_take min.cobounded1)
    with True Cons.prems show ?thesis by simp
  next
    case False
    with Cons show ?thesis by auto
  qed
qed (auto split: if_splits)

lemma strip_runes_length: "length (strip_runes rs s) \<le> length s"
  using strip_runes_suffix [of s rs] by (metis le_add2 length_append)

lemma TrimSpace_length: "length (strings_TrimSpace s) \<le> length s"
  unfolding strings_TrimSpace_def
  using strip_runes_length [of space_runes s]
    strip_runes_length [of "map rev space_runes" "rev (strip_runes space_runes s)"] by simp

lemma TrimSpace_inner:
  "length (strings_TrimSpace s) \<le> length (strip_runes space_runes s)"
  unfolding strings_TrimSpace_def
  using strip_runes_length [of "map rev space_runes" "rev (strip_runes space_runes s)"] by simp

lemma latin1_name_length: "isISO88591DeclEncoding v \<Longrightarrow> 5 \<le> length v"
proof -
  assume "isISO88591DeclEncoding v"
  then have "5 \<le> length (strings_ToLower (strings_TrimSpace v))"
    unfolding isISO88591DeclEncoding_def by (auto simp: latin1_names_def)
  then show ?thesis using TrimSpace_length [of v] by (simp add: strings_ToLower_def)
qed

lemma decl_site_SomeD:
  assumes "decl_site b = Some (e, p, q, s0, s1)"
  defines "rest0 \<equiv> drop p (take (e + 2) b)"
  defines "lead \<equiv> length rest0 - length (strip_runes space_runes rest0)"
  shows "\<exists>i j. strings_Index b ''?>'' = Some e
    \<and> strings_Index (strings_ToLower (take (e + 2) b)) ''encoding='' = Some i \<and> p = i + 9
    \<and> strings_IndexByte (tl (strings_TrimSpace rest0)) q = Some j
    \<and> isISO88591DeclEncoding (take j (tl (strings_TrimSpace rest0)))
    \<and> s0 = p + lead + 1 + j + 1 \<and> s1 = p + lead + length (strings_TrimSpace rest0)"
  using assms(1) unfolding decl_site_def Let_def lead_def rest0_def
  by (auto split: option.splits if_splits simp del: length_drop length_take One_nat_def add_2_eq_Suc')

lemma decl_site_bounds:
  assumes "decl_site b = Some (e, p, q, s0, s1)"
  shows "p + 7 \<le> s0" and "s0 \<le> s1" and "s1 \<le> e + 2" and "e + 2 \<le> length b"
proof -
  let ?rw = "drop p (take (e + 2) b)"
  let ?rest = "strings_TrimSpace ?rw"
  obtain i j where site: "strings_Index b ''?>'' = Some e"
      "strings_Index (strings_ToLower (take (e + 2) b)) ''encoding='' = Some i" "p = i + 9"
      "strings_IndexByte (tl ?rest) q = Some j" "isISO88591DeclEncoding (take j (tl ?rest))"
      "s0 = p + (length ?rw - length (strip_runes space_runes ?rw)) + 1 + j + 1"
      "s1 = p + (length ?rw - length (strip_runes space_runes ?rw)) + length ?rest"
    using decl_site_SomeD [OF assms] by blast
  have e: "e + 2 \<le> length b" using Index_end_bound [OF site(1)] by simp
  then show "e + 2 \<le> length b" .
  have pi: "p \<le> e + 2"
    using Index_end_bound [OF site(2)] site(3) e by (simp add: strings_ToLower_def)
  have j: "j < length (tl ?rest)" using IndexByte_Some [OF site(4)] by blast
  have "5 \<le> j" using latin1_name_length [OF site(5)] by simp
  with site(6) show "p + 7 \<le> s0" by linarith
  show "s0 \<le> s1" using site(6,7) j by (simp del: length_drop length_take)
  have "length ?rest \<le> length (strip_runes space_runes ?rw)" by (rule TrimSpace_inner)
  moreover have "length (strip_runes space_runes ?rw) \<le> length ?rw" by (rule strip_runes_length)
  moreover have "length ?rw = e + 2 - p" using e by simp
  ultimately show "s1 \<le> e + 2" using site(7) pi by linarith
qed

text \<open>
  The declared encoding is replaced although the code edits the document in place, while the
  slices it still has to copy share its bytes: the result is the document up to the key, the quoted
  new name, what followed the old value in the prolog, and the rest of the document.
\<close>
lemma rewriteXMLDecl_in_place:
  "rewriteXMLDeclEncodingToUTF8 b =
     (case decl_site b of
        None \<Rightarrow> b
      | Some (e, p, q, s0, s1) \<Rightarrow>
          take p b @ quoted_utf8 q @ take (s1 - s0) (drop s0 b) @ drop (e + 2) b)"
proof (cases "decl_site b")
  case (Some site)
  obtain e p q s0 s1 where site: "site = (e, p, q, s0, s1)" by (cases site) auto
  note bd = decl_site_bounds [OF Some [unfolded site]]
  have q7: "length (quoted_utf8 q) = 7" by (simp add: quoted_utf8_def)
  define suf where "suf = take (s1 - s0) (drop s0 b)"
  have ls: "length suf = s1 - s0" using bd by (simp add: suf_def)
  let ?b1 = "write_at b p (quoted_utf8 q)"
  have p: "p \<le> length b" using bd by linarith
  have d1: "drop k ?b1 = drop k b" if "p + 7 \<le> k" for k
    using that p q7 by (simp add: write_at_def drop_append)
  have suf: "take (s1 - s0) (drop s0 ?b1) = suf" using d1 [OF bd(1)] by (simp add: suf_def)
  let ?b2 = "write_at ?b1 (p + 7) suf"
  have t1: "take (p + 7) ?b1 = take p b @ quoted_utf8 q" using p q7 by (simp add: write_at_def)
  have b2: "?b2 = (take p b @ quoted_utf8 q) @ suf @ drop (p + 7 + length suf) b"
    unfolding write_at_def [of ?b1] t1 using d1 [of "p + 7 + length suf"] by simp
  have d2: "drop (e + 2) ?b2 = drop (e + 2) b"
  proof -
    have "p + 7 + length suf \<le> e + 2" using ls bd by linarith
    then show ?thesis unfolding b2 using p q7 by (simp add: drop_append)
  qed
  let ?k3 = "p + 7 + length suf"
  have t2: "take ?k3 ?b2 = take p b @ quoted_utf8 q @ suf" unfolding b2 using p q7 by simp
  have "take (?k3 + length (drop (e + 2) b)) (write_at ?b2 ?k3 (drop (e + 2) b))
      = take p b @ quoted_utf8 q @ suf @ drop (e + 2) b"
    unfolding write_at_def [of ?b2 ?k3] t2 using p q7 by simp
  then show ?thesis
    using Some unfolding rewriteXMLDeclEncodingToUTF8_def site Let_def q7
    by (simp only: option.case prod.case suf d2 q7) (simp only: suf_def)
qed (simp add: rewriteXMLDeclEncodingToUTF8_def)

section \<open>Well-formed scenarios\<close>

text \<open>What the engine relies on of a single command.\<close>

definition wf_command :: "(string \<Rightarrow> bool) \<Rightarrow> Command \<Rightarrow> bool" where
  "wf_command regex_ok c \<longleftrightarrow>
     c_Type c \<noteq> CommandNone
     \<and> (c_Type c = CommandLabel \<longrightarrow> c_LabelID c \<noteq> [])
     \<and> (c_Type c = CommandRecv \<longrightarrow> c_RecvReq c \<noteq> [] \<or> c_RecvResp c \<noteq> [])
     \<and> (c_RegexpMatch c \<longrightarrow> c_RecvReqRegex c = Some (c_RecvReq c) \<and> regex_ok (c_RecvReq c))
     \<and> \<not> float_lt (c_Chance c) (Fin 0) \<and> \<not> float_lt (Fin 1) (c_Chance c)"

definition is_label :: "string \<Rightarrow> Command \<Rightarrow> bool" where
  "is_label l c \<longleftrightarrow> c_Type c = CommandLabel \<and> c_LabelID c = l"

text \<open>The position of the last label with a name.\<close>

definition label_index :: "Command list \<Rightarrow> string \<Rightarrow> int option" where
  "label_index cs l =
     (let js = filter (\<lambda>j. is_label l (cs ! j)) [0..<length cs]
      in if js = [] then None else Some (int (last js)))"

definition numbered :: "(string \<Rightarrow> bool) \<Rightarrow> Command list \<Rightarrow> bool" where
  "numbered regex_ok cs \<longleftrightarrow> (\<forall>i < length cs. c_Index (cs ! i) = int i \<and> wf_command regex_ok (cs ! i))"

definition next_ok :: "Command list \<Rightarrow> Command \<Rightarrow> bool" where
  "next_ok cs c \<longleftrightarrow>
     (if c_NextLabel c = [] then c_NextIndex c = - 1
      else \<exists>j < length cs. c_NextIndex c = int j \<and> is_label (c_NextLabel c) (cs ! j)
             \<and> label_index cs (c_NextLabel c) = Some (int j))"

text \<open>A scenario that waits for a request somewhere acts as a server.\<close>

definition serves :: "Command list \<Rightarrow> bool" where
  "serves cs \<longleftrightarrow> list_ex (\<lambda>c. c_Type c = CommandRecv \<and> c_RecvReq c \<noteq> []) cs"

definition wf_scenario :: "(string \<Rightarrow> bool) \<Rightarrow> Scenario \<Rightarrow> bool" where
  "wf_scenario regex_ok sc \<longleftrightarrow>
     s_Commands sc \<noteq> []
     \<and> numbered regex_ok (s_Commands sc) \<and> s_Labels sc = label_index (s_Commands sc)
     \<and> list_all (next_ok (s_Commands sc)) (s_Commands sc)
     \<and> numbered regex_ok (s_InitCommands sc) \<and> s_InitLabels sc = label_index (s_InitCommands sc)
     \<and> list_all (next_ok (s_InitCommands sc)) (s_InitCommands sc)
     \<and> (s_Mode sc = ModeServer \<longleftrightarrow> serves (s_Commands sc))"

lemma label_index_snoc:
  "label_index (cs @ [c]) = (if c_Type c = CommandLabel then (label_index cs)(c_LabelID c \<mapsto> int (length cs))
     else label_index cs)"
proof
  fix l
  have "filter (\<lambda>j. is_label l ((cs @ [c]) ! j)) [0..<length cs] = filter (\<lambda>j. is_label l (cs ! j)) [0..<length cs]"
    by (rule filter_cong) (auto simp: nth_append)
  then show "label_index (cs @ [c]) l = (if c_Type c = CommandLabel then (label_index cs)(c_LabelID c \<mapsto> int (length cs))
     else label_index cs) l"
    unfolding label_index_def Let_def by (simp add: is_label_def)
qed

lemma label_index_SomeD: "label_index cs l = Some n \<Longrightarrow> \<exists>j < length cs. n = int j \<and> is_label l (cs ! j)"
proof -
  assume a: "label_index cs l = Some n"
  let ?js = "filter (\<lambda>j. is_label l (cs ! j)) [0..<length cs]"
  have js: "?js \<noteq> []" "n = int (last ?js)" using a by (auto simp: label_index_def Let_def split: if_splits)
  have "last ?js \<in> set ?js" using js(1) by (rule last_in_set)
  then have "last ?js < length cs \<and> is_label l (cs ! last ?js)"
    by (simp only: set_filter set_upt mem_Collect_eq) simp
  with js(2) show ?thesis by blast
qed

lemma bind_result_InrD: "bind_result r f = Inr y \<Longrightarrow> \<exists>x. r = Inr x \<and> f x = Inr y"
  by (cases r) auto

lemma parse_chance_range:
  "parse_chance raw = Inr v \<Longrightarrow> \<not> float_lt v (Fin 0) \<and> \<not> float_lt (Fin 1) v"
  by (auto simp: parse_chance_def Let_def split: if_splits option.splits)

lemma command_body_ok:
  assumes "command_body regex_ok elem i = Inr (Some c)"
  shows "c_Type c \<noteq> CommandNone \<and> c_Index c = i \<and> c_NextIndex c = - 1
    \<and> (c_RegexpMatch c \<longrightarrow> c_RecvReqRegex c = Some (c_RecvReq c) \<and> regex_ok (c_RecvReq c))"
  using assms by (auto simp: command_body_def new_command_def Let_def split: if_splits sum.splits)

lemma rawElementToCommand_ok:
  assumes "rawElementToCommand regex_ok elem i = Inr c" and "c_Type c \<noteq> CommandNone"
  shows "c_Index c = i" and "c_NextIndex c = - 1" and "wf_command regex_ok c"
proof -
  obtain body where body: "command_body regex_ok elem i = Inr body"
    using assms(1) unfolding rawElementToCommand_def by (blast dest: bind_result_InrD)
  obtain cmd where cmd: "body = Some cmd"
    using assms body by (cases body) (auto simp: rawElementToCommand_def new_command_def)
  note ok = command_body_ok [OF body [unfolded cmd]]
  obtain acts where acts: "parseActions (r_Actions elem) = Inr acts"
    using assms(1) body cmd by (auto simp: rawElementToCommand_def dest!: bind_result_InrD)
  obtain ch where ch: "parse_chance (r_Chance elem) = Inr ch"
    using assms(1) body cmd by (auto simp: rawElementToCommand_def dest!: bind_result_InrD)
  note eq = assms(1) [unfolded rawElementToCommand_def body cmd acts ch, simplified Let_def, simplified]
  show "c_Index c = i" and "c_NextIndex c = - 1" and "wf_command regex_ok c"
    using eq ok parse_chance_range [OF ch] by (auto simp: wf_command_def split: if_splits)
qed

text \<open>The state of the parser: the commands so far, not yet resolved, with their labels.\<close>

definition parsed_ok :: "(string \<Rightarrow> bool) \<Rightarrow> Command list \<Rightarrow> (string \<Rightarrow> int option) \<Rightarrow> bool" where
  "parsed_ok regex_ok cs labels \<longleftrightarrow>
     numbered regex_ok cs \<and> labels = label_index cs \<and> list_all (\<lambda>c. c_NextIndex c = - 1) cs"

lemma parsed_ok_add:
  assumes "parsed_ok regex_ok cs labels" and "rawElementToCommand regex_ok elem (int (length cs)) = Inr c"
    and "add_command c cs labels = (cs', labels')"
  shows "parsed_ok regex_ok cs' labels'"
proof (cases "c_Type c = CommandNone")
  case False
  note ok = rawElementToCommand_ok [OF assms(2) False]
  from False assms(3) have cs': "cs' = cs @ [c]"
      "labels' = (if c_Type c = CommandLabel then labels(c_LabelID c \<mapsto> int (length cs)) else labels)"
    by (auto simp: add_command_def)
  show ?thesis
    using assms(1) ok unfolding parsed_ok_def numbered_def cs' label_index_snoc
    by (auto simp: nth_append less_Suc_eq)
qed (use assms in \<open>auto simp: add_command_def\<close>)

definition parser_inv :: "(string \<Rightarrow> bool) \<Rightarrow> Scenario \<Rightarrow> bool" where
  "parser_inv regex_ok sc \<longleftrightarrow>
     parsed_ok regex_ok (s_Commands sc) (s_Labels sc) \<and> parsed_ok regex_ok (s_InitCommands sc) (s_InitLabels sc)
     \<and> (s_Mode sc = ModeServer \<longleftrightarrow> serves (s_Commands sc))"

lemma parse_init_inv: "parse_init regex_ok es sc = Inr sc' \<Longrightarrow> parser_inv regex_ok sc \<Longrightarrow> parser_inv regex_ok sc'"
proof (induction es arbitrary: sc)
  case (Cons e es)
  obtain c where c: "rawElementToCommand regex_ok e (int (length (s_InitCommands sc))) = Inr c"
    using Cons.prems(1) by (auto dest: bind_result_InrD)
  obtain cmds labels where add: "add_command c (s_InitCommands sc) (s_InitLabels sc) = (cmds, labels)" by force
  have "parsed_ok regex_ok cmds labels"
    using parsed_ok_add [OF _ c add] Cons.prems(2) by (simp add: parser_inv_def)
  then have "parser_inv regex_ok (sc\<lparr>s_InitCommands := cmds, s_InitLabels := labels\<rparr>)"
    using Cons.prems(2) by (simp add: parser_inv_def)
  then show ?case using Cons.IH Cons.prems(1) c add by simp
qed simp

lemma parse_item_inv:
  assumes "parse_item regex_ok e sc = Inr sc'" and "parser_inv regex_ok sc"
  shows "parser_inv regex_ok sc'"
proof (cases "r_Name e \<in> {''Global'', ''User'', ''Reference'', ''init''}")
  case True
  then consider "r_Name e = ''init''" | "r_Name e \<in> {''Global'', ''User'', ''Reference''}" by blast
  then show ?thesis
  proof cases
    case 1
    with assms(1) have "parse_init regex_ok (r_Elements e) sc = Inr sc'" by (simp add: parse_item_def)
    then show ?thesis using assms(2) by (rule parse_init_inv)
  next
    case 2
    with assms show ?thesis by (auto simp: parse_item_def Let_def parser_inv_def)
  qed
next
  case False
  then obtain c where c: "rawScenarioItemToCommand regex_ok e (int (length (s_Commands sc))) = Inr c"
    using assms(1) by (auto simp: parse_item_def Let_def dest: bind_result_InrD)
  obtain cmds labels where add: "add_command c (s_Commands sc) (s_Labels sc) = (cmds, labels)" by force
  have "parsed_ok regex_ok cmds labels"
    using parsed_ok_add [OF _ c [unfolded rawScenarioItemToCommand_def] add] assms(2) by (simp add: parser_inv_def)
  moreover have "serves cmds \<longleftrightarrow> serves (s_Commands sc) \<or> c_Type c = CommandRecv \<and> c_RecvReq c \<noteq> []"
    using add by (auto simp: add_command_def serves_def split: if_splits)
  moreover have "sc' = sc\<lparr>s_Commands := cmds, s_Labels := labels,
      s_Mode := (if c_Type c = CommandRecv \<and> c_RecvReq c \<noteq> [] then ModeServer else s_Mode sc)\<rparr>"
    using assms(1) c add False by (simp add: parse_item_def Let_def)
  ultimately show ?thesis using assms(2) by (auto simp: parser_inv_def)
qed

lemma parse_items_inv:
  "parse_items regex_ok es sc = Inr sc' \<Longrightarrow> parser_inv regex_ok sc \<Longrightarrow> parser_inv regex_ok sc'"
  by (induction es arbitrary: sc) (auto dest!: bind_result_InrD intro: parse_item_inv)

definition resolved :: "(string \<Rightarrow> int option) \<Rightarrow> Command \<Rightarrow> Command" where
  "resolved labels c = (if c_NextLabel c = [] then c else c\<lparr>c_NextIndex := the (labels (c_NextLabel c))\<rparr>)"

lemma resolve_labels_map:
  "resolve_labels err labels i cs = Inr cs' \<Longrightarrow>
   cs' = map (resolved labels) cs \<and> list_all (\<lambda>c. c_NextLabel c = [] \<or> labels (c_NextLabel c) \<noteq> None) cs"
proof (induction cs arbitrary: i cs')
  case (Cons c cs)
  then obtain c' cs'' where "resolve_labels err labels (i + 1) cs = Inr cs''" "cs' = c' # cs''"
      "(if c_NextLabel c = [] then Inr c else case labels (c_NextLabel c) of None \<Rightarrow> Inl (err i (c_NextLabel c))
         | Some next \<Rightarrow> Inr (c\<lparr>c_NextIndex := next\<rparr>)) = Inr c'"
    by (auto dest!: bind_result_InrD)
  with Cons.IH show ?case by (auto simp: resolved_def split: if_splits option.splits)
qed simp

lemma resolved_simps [simp]:
  "c_Type (resolved labels c) = c_Type c" "c_LabelID (resolved labels c) = c_LabelID c"
  "c_Index (resolved labels c) = c_Index c" "c_NextLabel (resolved labels c) = c_NextLabel c"
  "c_RecvReq (resolved labels c) = c_RecvReq c"
  "wf_command regex_ok (resolved labels c) \<longleftrightarrow> wf_command regex_ok c"
  "is_label l (resolved labels c) \<longleftrightarrow> is_label l c"
  by (simp_all add: resolved_def wf_command_def is_label_def)

lemma label_index_resolved: "label_index (map (resolved labels) cs) = label_index cs"
proof
  fix l
  have "filter (\<lambda>j. is_label l (map (resolved labels) cs ! j)) [0..<length cs] = filter (\<lambda>j. is_label l (cs ! j)) [0..<length cs]"
    by (rule filter_cong) auto
  then show "label_index (map (resolved labels) cs) l = label_index cs l" by (simp add: label_index_def)
qed

lemma resolve_program:
  assumes "parsed_ok regex_ok cs labels" and "resolve_labels err labels 0 cs = Inr cs'"
  shows "numbered regex_ok cs'" and "labels = label_index cs'" and "list_all (next_ok cs') cs'"
    and "serves cs' = serves cs" and "cs' = [] \<longleftrightarrow> cs = []"
proof -
  have map: "cs' = map (resolved labels) cs"
      and known: "list_all (\<lambda>c. c_NextLabel c = [] \<or> labels (c_NextLabel c) \<noteq> None) cs"
    using resolve_labels_map [OF assms(2)] by simp_all
  have labels: "labels = label_index cs" using assms(1) by (simp add: parsed_ok_def)
  show "numbered regex_ok cs'" using assms(1) by (simp add: parsed_ok_def numbered_def map)
  show "labels = label_index cs'" by (simp add: map label_index_resolved labels)
  show "serves cs' = serves cs" by (simp add: serves_def map list_ex_iff)
  show "cs' = [] \<longleftrightarrow> cs = []" by (simp add: map)
  have "next_ok cs' (resolved labels c)" if c: "c \<in> set cs" for c
  proof (cases "c_NextLabel c = []")
    case True
    with c assms(1) show ?thesis by (simp add: next_ok_def resolved_def parsed_ok_def list_all_iff)
  next
    case False
    then obtain n where n: "label_index cs (c_NextLabel c) = Some n" using known c labels by (force simp: list_all_iff)
    then obtain j where "j < length cs" "n = int j" "is_label (c_NextLabel c) (cs ! j)" using label_index_SomeD by blast
    with n False show ?thesis
      unfolding next_ok_def map label_index_resolved by (simp add: resolved_def [of _ c] labels)
  qed
  then show "list_all (next_ok cs') cs'" by (simp add: list_all_iff map)
qed

text \<open>
  C21: Every scenario the parser accepts is well formed.  Commands carry their position; each
  \<^verbatim>\<open>next\<close> leads to the last label of that name, inside the program; labels are named, receives say what
  they wait for, patterns compile, chances lie between 0 and 1; and the mode is server exactly when
  the scenario waits for a request.  The same holds of the commands of the \<^verbatim>\<open>init\<close> section.
\<close>
theorem ParseString_wf:
  assumes "ParseString regex_ok latin1 unmarshal data = Inr sc"
  shows "wf_scenario regex_ok sc"
proof -
  obtain raw where raw: "build_scenario regex_ok raw = Inr sc"
    using assms by (auto simp: ParseString_def dest: bind_result_InrD)
  then obtain sc0 where sc0: "parse_items regex_ok (raw_Elements raw) (new_scenario raw) = Inr sc0"
    by (auto simp: build_scenario_def dest: bind_result_InrD)
  have "parser_inv regex_ok (new_scenario raw)"
    by (simp add: parser_inv_def new_scenario_def parsed_ok_def numbered_def serves_def label_index_def fun_eq_iff)
  then have inv: "parser_inv regex_ok sc0" using sc0 parse_items_inv by blast
  obtain cmds where cmds: "resolve_labels UnknownLabel (s_Labels sc0) 0 (s_Commands sc0) = Inr cmds"
    using raw sc0 by (auto simp: build_scenario_def dest: bind_result_InrD)
  obtain inits where inits: "resolve_labels UnknownInitLabel (s_InitLabels sc0) 0 (s_InitCommands sc0) = Inr inits"
    using raw sc0 cmds by (auto simp: build_scenario_def dest: bind_result_InrD)
  have sc: "sc = sc0\<lparr>s_Commands := cmds, s_InitCommands := inits\<rparr>" "cmds \<noteq> []"
    using raw sc0 cmds inits by (auto simp: build_scenario_def split: if_splits)
  have ok: "parsed_ok regex_ok (s_Commands sc0) (s_Labels sc0)" "parsed_ok regex_ok (s_InitCommands sc0) (s_InitLabels sc0)"
    using inv by (simp_all add: parser_inv_def)
  note main = resolve_program [OF ok(1) cmds] and init = resolve_program [OF ok(2) inits]
  have "s_Mode sc0 = ModeServer \<longleftrightarrow> serves cmds" using inv main(4) by (simp add: parser_inv_def)
  then show ?thesis
    unfolding wf_scenario_def sc(1) using sc(2) main(1-3) init(1-3) by simp
qed

definition blank_item :: "string \<Rightarrow> rawScenarioItem" where
  "blank_item name = \<lparr>r_Name = name, r_Text = [], r_Next = [], r_Test = [], r_Chance = [], r_CondExec = [],
     r_CondExecInverse = [], r_Counter = [], r_Display = [], r_StartRTD = [], r_RTD = [], r_Retrans = [],
     r_Request = [], r_Response = [], r_RegexpMatch = [], r_RRS = [], r_Optional = [], r_Timeout = [],
     r_Milliseconds = [], r_ID = [], r_Dest = [], r_Src = [], r_Actions = [], r_Distribution = [], r_Mean = [],
     r_Stdev = [], r_Min = [], r_Max = [], r_Variables = [], r_Elements = []\<rparr>"

definition sample_raw :: rawScenario where
  "sample_raw = \<lparr>raw_Name = ''uas'', raw_WebRTC = [], raw_Elements =
     [(blank_item ''label'')\<lparr>r_ID := '' again ''\<rparr>, (blank_item ''recv'')\<lparr>r_Request := ''INVITE''\<rparr>,
      (blank_item ''nop'')\<lparr>r_Next := ''again''\<rparr>]\<rparr>"

theorem ParseString_wf_witness:
  "\<exists>sc. ParseString (\<lambda>_. True) id (\<lambda>_. Some sample_raw) ''<scenario/>'' = Inr sc
    \<and> wf_scenario (\<lambda>_. True) sc \<and> map c_NextIndex (s_Commands sc) = [- 1, - 1, 0] \<and> s_Mode sc = ModeServer"
proof -
  have "(case ParseString (\<lambda>_. True) id (\<lambda>_. Some sample_raw) ''<scenario/>'' of
      Inr sc \<Rightarrow> map c_NextIndex (s_Commands sc) = [- 1, - 1, 0] \<and> s_Mode sc = ModeServer | Inl e \<Rightarrow> False)"
    by code_simp
  then obtain sc where sc: "ParseString (\<lambda>_. True) id (\<lambda>_. Some sample_raw) ''<scenario/>'' = Inr sc"
      "map c_NextIndex (s_Commands sc) = [- 1, - 1, 0]" "s_Mode sc = ModeServer"
    by (auto split: sum.splits)
  show ?thesis using ParseString_wf [OF sc(1)] sc by (intro exI conjI)
qed

end
