(* ===== verification/SafePath.thy ===== *)
theory SafePath
  imports Prelude
begin

text \<open>
  Path confinement, \<^verbatim>\<open>internal/safepath\<close>: \<^verbatim>\<open>Within\<close> and \<^verbatim>\<open>Join\<close> (\<^verbatim>\<open>safepath.go\<close>), \<^verbatim>\<open>SafeID\<close>
  (\<^verbatim>\<open>id.go\<close>) and the file operations that resolve a path under a root before they call the
  operating system (\<^verbatim>\<open>fs.go\<close>).  The lexical part of \<^verbatim>\<open>path/filepath\<close> on Unix is modelled on the
  slash-separated elements of a path.  The working directory is an argument \<open>cwd\<close> (\<open>None\<close> when the
  system cannot tell it), and so is the answer \<open>sys\<close> of the operating system to a call.
\<close>

section \<open>path/filepath on Unix\<close>

abbreviation SLASH :: char where "SLASH \<equiv> CHR ''/''"

fun split_slash :: "string \<Rightarrow> string list" where
  "split_slash [] = [[]]"
| "split_slash (c # t) =
     (if c = SLASH then [] # split_slash t
      else case split_slash t of [] \<Rightarrow> [[c]] | w # ws \<Rightarrow> (c # w) # ws)"

text \<open>
  \<^verbatim>\<open>filepath.Clean\<close> on the elements, \<open>out\<close> holding the kept ones in reverse: \<^verbatim>\<open>..\<close> removes the last
  kept element, is dropped at the root, and is kept where a relative path has nothing to remove.
\<close>

definition go_up :: "bool \<Rightarrow> string list \<Rightarrow> string list" where
  "go_up rooted out =
     (case out of
        [] \<Rightarrow> if rooted then [] else [''..'']
      | x # xs \<Rightarrow> if x = ''..'' then ''..'' # out else xs)"

fun clean_elems :: "bool \<Rightarrow> string list \<Rightarrow> string list \<Rightarrow> string list" where
  "clean_elems rooted out [] = out"
| "clean_elems rooted out (e # es) =
     (if e = [] \<or> e = ''.'' then clean_elems rooted out es
      else if e = ''..'' then clean_elems rooted (go_up rooted out) es
      else clean_elems rooted (e # out) es)"

declare clean_elems.simps(2) [simp del]

definition filepath_IsAbs :: "string \<Rightarrow> bool" where
  "filepath_IsAbs p \<longleftrightarrow> p \<noteq> [] \<and> hd p = SLASH"

definition filepath_Clean :: "string \<Rightarrow> string" where
  "filepath_Clean p =
     (let out = strings_Join (rev (clean_elems (filepath_IsAbs p) [] (split_slash p))) ''/''
      in if filepath_IsAbs p then SLASH # out else if out = [] then ''.'' else out)"

definition filepath_Join :: "string list \<Rightarrow> string" where
  "filepath_Join elems =
     (case dropWhile (\<lambda>e. e = []) elems of [] \<Rightarrow> [] | es \<Rightarrow> filepath_Clean (strings_Join es ''/''))"

definition filepath_Abs :: "string option \<Rightarrow> string \<Rightarrow> string option" where
  "filepath_Abs cwd p =
     (if filepath_IsAbs p then Some (filepath_Clean p)
      else case cwd of None \<Rightarrow> None | Some d \<Rightarrow> Some (filepath_Join [d, p]))"

fun strip_common :: "string list \<Rightarrow> string list \<Rightarrow> string list \<times> string list" where
  "strip_common (b # bs) (t # ts) = (if b = t then strip_common bs ts else (b # bs, t # ts))"
| "strip_common bs ts = (bs, ts)"

definition filepath_elems :: "string \<Rightarrow> string list" where
  "filepath_elems p = filter (\<lambda>e. e \<noteq> []) (split_slash p)"

text \<open>The path that leads from \<open>base\<close> to \<open>targ\<close>, \<open>None\<close> when there is none.\<close>

definition filepath_Rel :: "string \<Rightarrow> string \<Rightarrow> string option" where
  "filepath_Rel base targ =
     (let b = filepath_Clean base; t = filepath_Clean targ
      in if b = t then Some ''.''
         else let b' = (if b = ''.'' then [] else b)
         in if filepath_IsAbs b' \<noteq> filepath_IsAbs t then None
         else case strip_common (filepath_elems b') (filepath_elems t) of
                (bs, ts) \<Rightarrow>
                  if bs \<noteq> [] \<and> hd bs = ''..'' then None
                  else Some (strings_Join (replicate (length bs) ''..'' @ ts) ''/''))"

section \<open>safepath.go\<close>

definition Within :: "string option \<Rightarrow> string \<Rightarrow> string \<Rightarrow> bool" where
  "Within cwd root target =
     (case filepath_Abs cwd (filepath_Clean root) of
        None \<Rightarrow> False
      | Some rootAbs \<Rightarrow>
          (case filepath_Abs cwd (filepath_Clean target) of
             None \<Rightarrow> False
           | Some targetAbs \<Rightarrow>
               targetAbs = rootAbs \<or> strings_HasPrefix targetAbs (rootAbs @ ''/'')))"

datatype os_error = ErrInvalid | ErrGetwd | ErrSys

definition Join :: "string option \<Rightarrow> string \<Rightarrow> string list \<Rightarrow> (os_error, string) result" where
  "Join cwd base0 elems =
     (let base = filepath_Clean base0;
          candidate = filepath_Clean (filepath_Join (base # elems))
      in if \<not> Within cwd base candidate then Inl ErrInvalid else Inr candidate)"

section \<open>id.go\<close>

definition id_char :: "char \<Rightarrow> bool" where
  "id_char c \<longleftrightarrow>
     (let n = (of_char c :: nat) in
        (97 \<le> n \<and> n \<le> 122) \<or> (65 \<le> n \<and> n \<le> 90) \<or> (48 \<le> n \<and> n \<le> 57)
        \<or> c = CHR ''_'' \<or> c = CHR ''-'' \<or> c = CHR ''.'')"

definition SafeID :: "string \<Rightarrow> bool" where
  "SafeID id0 =
     (let i = strings_TrimSpace id0
      in if i = [] \<or> 64 < length i then False
         else if \<not> list_all id_char i then False
         else i \<noteq> ''.'' \<and> i \<noteq> ''..'')"

section \<open>fs.go\<close>

definition resolveUnderRoot :: "string option \<Rightarrow> string \<Rightarrow> string \<Rightarrow> (os_error, string) result" where
  "resolveUnderRoot cwd root target =
     (case filepath_Abs cwd (filepath_Clean root) of
        None \<Rightarrow> Inl ErrGetwd
      | Some rootAbs \<Rightarrow>
          (case filepath_Abs cwd (filepath_Clean target) of
             None \<Rightarrow> Inl ErrGetwd
           | Some targetAbs \<Rightarrow>
               (case filepath_Rel rootAbs targetAbs of
                  None \<Rightarrow> Inl ErrInvalid
                | Some rel \<Rightarrow>
                    if rel = ''..'' \<or> strings_HasPrefix rel ''../'' then Inl ErrInvalid
                    else if targetAbs \<noteq> rootAbs \<and> \<not> strings_HasPrefix targetAbs (rootAbs @ ''/'')
                    then Inl ErrInvalid
                    else Inr targetAbs)))"

text \<open>The calls of the operating system, and the paths each of them receives.\<close>

datatype fs_call =
    MkdirAll string int
  | OpenFile string int int
  | OsReadFile string
  | OsStat string
  | OsReadDir string
  | Rename string string

fun call_paths :: "fs_call \<Rightarrow> string list" where
  "call_paths (MkdirAll p perm) = [p]"
| "call_paths (OpenFile p flag perm) = [p]"
| "call_paths (OsReadFile p) = [p]"
| "call_paths (OsStat p) = [p]"
| "call_paths (OsReadDir p) = [p]"
| "call_paths (Rename p q) = [p, q]"

text \<open>
  An operation returns the calls it made and its result; \<open>sys call\<close> says whether the call succeeded.
\<close>

definition call :: "(fs_call \<Rightarrow> bool) \<Rightarrow> fs_call \<Rightarrow> 'a \<Rightarrow> fs_call list \<times> (os_error, 'a) result" where
  "call sys c v = ([c], if sys c then Inr v else Inl ErrSys)"

definition JobArtifactsDir :: "string option \<Rightarrow> string \<Rightarrow> string \<Rightarrow> (os_error, string) result" where
  "JobArtifactsDir cwd dataRoot jobID =
     (if \<not> SafeID jobID then Inl ErrInvalid
      else case Join cwd dataRoot [''artifacts'', ''jobs''] of
             Inl e \<Rightarrow> Inl e
           | Inr jobsRoot \<Rightarrow> Join cwd jobsRoot [jobID])"

definition EnsureJobArtifactsDir ::
  "(fs_call \<Rightarrow> bool) \<Rightarrow> string option \<Rightarrow> string \<Rightarrow> string \<Rightarrow> int \<Rightarrow> fs_call list \<times> (os_error, string) result" where
  "EnsureJobArtifactsDir sys cwd dataRoot jobID perm =
     (case JobArtifactsDir cwd dataRoot jobID of
        Inl e \<Rightarrow> ([], Inl e)
      | Inr dir \<Rightarrow>
          (case resolveUnderRoot cwd dataRoot dir of
             Inl e \<Rightarrow> ([], Inl e)
           | Inr dirAbs \<Rightarrow> call sys (MkdirAll dirAbs perm) dirAbs))"

definition OpenJobArtifact ::
  "(fs_call \<Rightarrow> bool) \<Rightarrow> string option \<Rightarrow> string \<Rightarrow> string \<Rightarrow> string \<Rightarrow> int \<Rightarrow> int
    \<Rightarrow> fs_call list \<times> (os_error, string) result" where
  "OpenJobArtifact sys cwd dataRoot jobID name flag perm =
     (case EnsureJobArtifactsDir sys cwd dataRoot jobID 488 of
        (cs, Inl e) \<Rightarrow> (cs, Inl e)
      | (cs, Inr dir) \<Rightarrow>
          (case Join cwd dir [name] of
             Inl e \<Rightarrow> (cs, Inl e)
           | Inr path \<Rightarrow>
               (case resolveUnderRoot cwd dir path of
                  Inl e \<Rightarrow> (cs, Inl e)
                | Inr pathAbs \<Rightarrow>
                    (case call sys (OpenFile pathAbs flag perm) pathAbs of
                       (cs', r) \<Rightarrow> (cs @ cs', r)))))"

definition under_root ::
  "string option \<Rightarrow> string \<Rightarrow> string \<Rightarrow> (string \<Rightarrow> fs_call list \<times> (os_error, 'a) result)
    \<Rightarrow> fs_call list \<times> (os_error, 'a) result" where
  "under_root cwd root target k =
     (case resolveUnderRoot cwd root target of Inl e \<Rightarrow> ([], Inl e) | Inr a \<Rightarrow> k a)"

definition ReadFile :: "(fs_call \<Rightarrow> bool) \<Rightarrow> string option \<Rightarrow> string \<Rightarrow> string \<Rightarrow> fs_call list \<times> (os_error, unit) result" where
  "ReadFile sys cwd root target = under_root cwd root target (\<lambda>a. call sys (OsReadFile a) ())"

definition Stat :: "(fs_call \<Rightarrow> bool) \<Rightarrow> string option \<Rightarrow> string \<Rightarrow> string \<Rightarrow> fs_call list \<times> (os_error, unit) result" where
  "Stat sys cwd root target = under_root cwd root target (\<lambda>a. call sys (OsStat a) ())"

definition ReadDir :: "(fs_call \<Rightarrow> bool) \<Rightarrow> string option \<Rightarrow> string \<Rightarrow> string \<Rightarrow> fs_call list \<times> (os_error, unit) result" where
  "ReadDir sys cwd baseRoot dir = under_root cwd baseRoot dir (\<lambda>a. call sys (OsReadDir a) ())"

definition EnsureDirUnder ::
  "(fs_call \<Rightarrow> bool) \<Rightarrow> string option \<Rightarrow> string \<Rightarrow> string \<Rightarrow> int \<Rightarrow> fs_call list \<times> (os_error, unit) result" where
  "EnsureDirUnder sys cwd root dir perm = under_root cwd root dir (\<lambda>a. call sys (MkdirAll a perm) ())"

definition RenameUnder ::
  "(fs_call \<Rightarrow> bool) \<Rightarrow> string option \<Rightarrow> string \<Rightarrow> string \<Rightarrow> string \<Rightarrow> fs_call list \<times> (os_error, unit) result" where
  "RenameUnder sys cwd root src dst =
     under_root cwd root src (\<lambda>s. under_root cwd root dst (\<lambda>d. call sys (Rename s d) ()))"

section \<open>Elements of cleaned paths\<close>

definition good_elem :: "string \<Rightarrow> bool" where
  "good_elem e \<longleftrightarrow> e \<noteq> [] \<and> e \<noteq> ''.'' \<and> e \<noteq> ''..'' \<and> SLASH \<notin> set e"

text \<open>The absolute path with the given elements.\<close>

definition canon :: "string list \<Rightarrow> string" where
  "canon es = SLASH # strings_Join es ''/''"

lemma split_slash_nonempty [simp]: "split_slash s \<noteq> []"
  by (cases s) (auto split: list.splits)

lemma split_slash_append: "split_slash (a @ SLASH # b) = split_slash a @ split_slash b"
  by (induction a) (auto split: list.splits)

lemma split_slash_no_slash: "e \<in> set (split_slash s) \<Longrightarrow> SLASH \<notin> set e"
  by (induction s arbitrary: e) (auto split: if_splits list.splits)

lemma split_slash_single: "SLASH \<notin> set e \<Longrightarrow> split_slash e = [e]"
  by (induction e) auto

lemma split_slash_Join: "es \<noteq> [] \<Longrightarrow> split_slash (strings_Join es ''/'') = concat (map split_slash es)"
proof (induction es "''/''" rule: strings_Join.induct)
  case (3 x y ys)
  then show ?case using split_slash_append [of x "strings_Join (y # ys) ''/''"] by simp
qed simp_all

lemma split_slash_Join_elems:
  assumes "es \<noteq> []" and "\<forall>e \<in> set es. SLASH \<notin> set e"
  shows "split_slash (strings_Join es ''/'') = es"
proof -
  have "concat (map split_slash es) = es"
    using assms(2) by (induction es) (simp_all add: split_slash_single)
  with assms(1) show ?thesis by (simp add: split_slash_Join)
qed

lemma Join_append:
  "xs \<noteq> [] \<Longrightarrow> ys \<noteq> [] \<Longrightarrow>
   strings_Join (xs @ ys) ''/'' = strings_Join xs ''/'' @ SLASH # strings_Join ys ''/''"
proof (induction xs "''/''" rule: strings_Join.induct)
  case (2 x)
  then show ?case by (cases ys) auto
qed auto

lemma clean_elems_cases:
  obtains (skip) "e = [] \<or> e = ''.''" "\<And>r out es. clean_elems r out (e # es) = clean_elems r out es"
  | (up) "e = ''..''" "\<And>r out es. clean_elems r out (e # es) = clean_elems r (go_up r out) es"
  | (push) "e \<noteq> []" "e \<noteq> ''.''" "e \<noteq> ''..''"
      "\<And>r out es. clean_elems r out (e # es) = clean_elems r (e # out) es"
  by (cases "e = [] \<or> e = ''.''"; cases "e = ''..''") (auto simp: clean_elems.simps)

lemma clean_elems_append:
  "clean_elems r out (xs @ ys) = clean_elems r (clean_elems r out xs) ys"
proof (induction xs arbitrary: out)
  case (Cons e xs)
  then show ?case by (cases e rule: clean_elems_cases) simp_all
qed simp

text \<open>What is kept is free of empty and dot elements; at the root it is free of \<^verbatim>\<open>..\<close> as well.\<close>

definition kept_elem :: "string \<Rightarrow> bool" where
  "kept_elem e \<longleftrightarrow> e \<noteq> [] \<and> e \<noteq> ''.'' \<and> SLASH \<notin> set e"

lemma go_up_good: "\<forall>e \<in> set out. good_elem e \<Longrightarrow> \<forall>e \<in> set (go_up True out). good_elem e"
  by (cases out) (auto simp: go_up_def)

lemma go_up_kept: "\<forall>e \<in> set out. kept_elem e \<Longrightarrow> \<forall>e \<in> set (go_up r out). kept_elem e"
  by (cases out) (auto simp: go_up_def kept_elem_def)

lemma clean_elems_good:
  "\<forall>e \<in> set out. good_elem e \<Longrightarrow> \<forall>e \<in> set es. SLASH \<notin> set e \<Longrightarrow>
   \<forall>e \<in> set (clean_elems True out es). good_elem e"
proof (induction es arbitrary: out)
  case (Cons e es)
  show ?case
  proof (cases e rule: clean_elems_cases)
    case push
    have "\<forall>x \<in> set (e # out). good_elem x" using push Cons.prems by (simp add: good_elem_def)
    then show ?thesis unfolding push(4) using Cons.prems(2) by (intro Cons.IH) auto
  next
    case up
    show ?thesis
      unfolding up(2) using Cons.prems by (intro Cons.IH go_up_good) auto
  next
    case skip
    show ?thesis unfolding skip(2) using Cons.prems by (intro Cons.IH) auto
  qed
qed simp

lemma clean_elems_kept:
  "\<forall>e \<in> set out. kept_elem e \<Longrightarrow> \<forall>e \<in> set es. SLASH \<notin> set e \<Longrightarrow>
   \<forall>e \<in> set (clean_elems r out es). kept_elem e"
proof (induction es arbitrary: out)
  case (Cons e es)
  show ?case
  proof (cases e rule: clean_elems_cases)
    case push
    have "\<forall>x \<in> set (e # out). kept_elem x" using push Cons.prems by (simp add: kept_elem_def)
    then show ?thesis unfolding push(4) using Cons.prems(2) by (intro Cons.IH) auto
  next
    case up
    show ?thesis
      unfolding up(2) using Cons.prems by (intro Cons.IH go_up_kept) auto
  next
    case skip
    show ?thesis unfolding skip(2) using Cons.prems by (intro Cons.IH) auto
  qed
qed simp

lemma clean_elems_id: "\<forall>e \<in> set es. good_elem e \<Longrightarrow> clean_elems r out es = rev es @ out"
proof (induction es arbitrary: out)
  case (Cons e es)
  then show ?case by (cases e rule: clean_elems_cases) (simp_all add: good_elem_def)
qed simp

text \<open>Cleaning a relative path first does not change what it resolves to.\<close>

lemma clean_elems_relative:
  "\<forall>e \<in> set stk. kept_elem e \<Longrightarrow> \<forall>e \<in> set es. SLASH \<notin> set e \<Longrightarrow>
   clean_elems True out (rev (clean_elems False stk es))
     = clean_elems True (clean_elems True out (rev stk)) es"
proof (induction es arbitrary: stk)
  case (Cons e es)
  show ?case
  proof (cases e rule: clean_elems_cases)
    case up
    have "clean_elems True out (rev (go_up False stk)) = go_up True (clean_elems True out (rev stk))"
    proof (cases stk)
      case Nil
      then show ?thesis using up by (simp add: go_up_def)
    next
      case (Cons x xs)
      show ?thesis
      proof (cases x rule: clean_elems_cases)
        case skip
        with Cons Cons.prems show ?thesis by (auto simp: kept_elem_def)
      qed (use Cons up in \<open>simp_all add: go_up_def clean_elems_append\<close>)
    qed
    moreover have "clean_elems True out (rev (clean_elems False (go_up False stk) es))
        = clean_elems True (clean_elems True out (rev (go_up False stk))) es"
      using Cons.prems by (intro Cons.IH go_up_kept) auto
    ultimately show ?thesis by (simp only: up(2))
  next
    case push
    have "\<forall>x \<in> set (e # stk). kept_elem x" using push Cons.prems by (simp add: kept_elem_def)
    then have "clean_elems True out (rev (clean_elems False (e # stk) es))
        = clean_elems True (clean_elems True out (rev (e # stk))) es"
      using Cons.prems by (intro Cons.IH) auto
    then show ?thesis by (simp add: push(4) clean_elems_append)
  next
    case skip
    then show ?thesis using Cons by simp
  qed
qed simp

section \<open>Absolute paths\<close>

definition resolve_elems :: "string option \<Rightarrow> string \<Rightarrow> string list" where
  "resolve_elems cwd p =
     rev (clean_elems True [] (if filepath_IsAbs p then split_slash p
                               else split_slash (the cwd) @ split_slash p))"

definition cwd_ok :: "string option \<Rightarrow> bool" where
  "cwd_ok cwd \<longleftrightarrow> (\<exists>d. cwd = Some d \<and> filepath_IsAbs d)"

lemma resolve_good: "\<forall>e \<in> set (resolve_elems cwd p). good_elem e"
  unfolding resolve_elems_def set_rev
  by (rule clean_elems_good) (auto dest: split_slash_no_slash)

lemma Clean_abs: "filepath_IsAbs p \<Longrightarrow> filepath_Clean p = canon (resolve_elems cwd p)"
  by (simp add: filepath_Clean_def canon_def resolve_elems_def Let_def)

lemma IsAbs_canon [simp]: "filepath_IsAbs (canon es)"
  by (simp add: filepath_IsAbs_def canon_def)

lemma Clean_relative:
  assumes "\<not> filepath_IsAbs p"
  shows "\<not> filepath_IsAbs (filepath_Clean p)" "filepath_Clean p \<noteq> []"
    and "clean_elems True out (split_slash (filepath_Clean p)) = clean_elems True out (split_slash p)"
proof -
  let ?es = "rev (clean_elems False [] (split_slash p))"
  have es: "\<forall>e \<in> set ?es. kept_elem e"
    unfolding set_rev by (rule clean_elems_kept) (auto dest: split_slash_no_slash)
  then have slashless: "\<forall>e \<in> set ?es. SLASH \<notin> set e" by (simp add: kept_elem_def)
  have rel: "clean_elems True out ?es = clean_elems True out (split_slash p)" for out
    using clean_elems_relative [of "[]" "split_slash p"] split_slash_no_slash by auto
  have cl: "filepath_Clean p = (if ?es = [] then ''.'' else strings_Join ?es ''/'')"
    using assms es
    by (cases ?es; cases "tl ?es") (auto simp: filepath_Clean_def Let_def kept_elem_def)
  show "\<not> filepath_IsAbs (filepath_Clean p)" "filepath_Clean p \<noteq> []"
    using es unfolding cl filepath_IsAbs_def
    by (cases ?es; cases "tl ?es"; auto simp: neq_Nil_conv kept_elem_def)+
  show "clean_elems True out (split_slash (filepath_Clean p)) = clean_elems True out (split_slash p)"
  proof (cases "?es = []")
    case True
    with rel [of out] cl show ?thesis by (simp add: split_slash_single clean_elems.simps)
  next
    case False
    with rel [of out] cl slashless show ?thesis by (simp add: split_slash_Join_elems)
  qed
qed

lemma resolve_Clean: "resolve_elems cwd (filepath_Clean p) = resolve_elems cwd p"
proof (cases "filepath_IsAbs p")
  case True
  let ?es = "resolve_elems cwd p"
  have "clean_elems True [] (split_slash (canon ?es)) = rev ?es"
  proof (cases "?es = []")
    case True
    then show ?thesis by (simp add: canon_def clean_elems.simps)
  next
    case False
    then have "split_slash (canon ?es) = [] # ?es"
      using resolve_good [of cwd p] by (simp add: canon_def split_slash_Join_elems good_elem_def)
    then show ?thesis using resolve_good [of cwd p] by (simp add: clean_elems.simps clean_elems_id)
  qed
  then show ?thesis using True by (simp add: Clean_abs [of p cwd] resolve_elems_def [of cwd "canon _"])
next
  case False
  then show ?thesis by (simp add: resolve_elems_def Clean_relative clean_elems_append)
qed

lemma Abs_resolve:
  assumes "cwd_ok cwd"
  shows "filepath_Abs cwd p = Some (canon (resolve_elems cwd p))"
proof (cases "filepath_IsAbs p")
  case True
  then show ?thesis by (simp add: filepath_Abs_def Clean_abs [of p cwd])
next
  case False
  from assms obtain d where d: "cwd = Some d" "filepath_IsAbs d" by (auto simp: cwd_ok_def)
  then have "filepath_IsAbs (d @ SLASH # p)" "d \<noteq> []" by (auto simp: filepath_IsAbs_def)
  then have "filepath_Join [d, p] = canon (resolve_elems cwd (d @ SLASH # p))"
    by (simp add: filepath_Join_def Clean_abs [of _ cwd])
  with d False \<open>filepath_IsAbs (d @ SLASH # p)\<close> show ?thesis
    by (simp add: filepath_Abs_def resolve_elems_def split_slash_append)
qed

lemma Join_resolve:
  assumes "b \<noteq> []"
  shows "resolve_elems cwd (strings_Join (b # es) ''/'') =
    rev (clean_elems True (rev (resolve_elems cwd b)) (concat (map split_slash es)))"
proof -
  have "filepath_IsAbs (strings_Join (b # es) ''/'') \<longleftrightarrow> filepath_IsAbs b"
    using assms by (cases es) (auto simp: filepath_IsAbs_def)
  moreover have "split_slash (strings_Join (b # es) ''/'') = split_slash b @ concat (map split_slash es)"
    using split_slash_Join [of "b # es"] by simp
  ultimately show ?thesis by (simp add: resolve_elems_def clean_elems_append)
qed

lemma split_slash_canon:
  "es \<noteq> [] \<Longrightarrow> \<forall>e \<in> set es. good_elem e \<Longrightarrow> split_slash (canon es) = [] # es"
  by (simp add: canon_def split_slash_Join_elems good_elem_def)

lemma elems_canon:
  assumes "\<forall>e \<in> set es. good_elem e"
  shows "filepath_elems (canon es) = es"
proof (cases "es = []")
  case True
  then show ?thesis by (simp add: filepath_elems_def canon_def)
next
  case False
  have "filter (\<lambda>e. e \<noteq> []) es = es" using assms by (simp add: filter_id_conv good_elem_def)
  with False assms show ?thesis by (simp add: filepath_elems_def split_slash_canon)
qed

lemma canon_inj:
  "\<forall>e \<in> set as. good_elem e \<Longrightarrow> \<forall>e \<in> set bs. good_elem e \<Longrightarrow> canon as = canon bs \<longleftrightarrow> as = bs"
  using elems_canon by metis

text \<open>A path is below another exactly when it has its elements as a prefix.\<close>

lemma canon_below:
  assumes "rs \<noteq> []" and "\<forall>e \<in> set rs. good_elem e" and "\<forall>e \<in> set ts. good_elem e"
  shows "canon ts = canon rs \<or> strings_HasPrefix (canon ts) (canon rs @ ''/'') \<longleftrightarrow> (\<exists>ds. ts = rs @ ds)"
    (is "?L \<longleftrightarrow> ?R")
proof
  assume ?L
  then consider "canon ts = canon rs" | x where "canon ts = canon rs @ SLASH # x"
    by (auto simp: HasPrefix_iff)
  then show ?R
  proof cases
    case 1
    then have "ts = rs" using canon_inj assms by blast
    then show ?thesis by simp
  next
    case 2
    have "length (canon ts) \<noteq> 1" unfolding 2 by (simp add: canon_def)
    then have ne: "ts \<noteq> []" by (auto simp: canon_def)
    have "[] # ts = split_slash (canon ts)" by (simp only: split_slash_canon [OF ne assms(3)])
    also have "\<dots> = ([] # rs) @ split_slash x"
      by (simp only: 2 split_slash_append split_slash_canon [OF assms(1,2)])
    finally have "ts = rs @ split_slash x" by simp
    then show ?thesis by blast
  qed
next
  assume ?R
  then obtain ds where "ts = rs @ ds" by blast
  with assms(1) show ?L by (cases "ds = []") (auto simp: canon_def HasPrefix_iff Join_append)
qed

lemma strip_common_append: "strip_common rs (rs @ ds) = ([], ds)"
  by (induction rs) auto

section \<open>Confinement\<close>

text \<open>The absolute path \<open>p\<close> has the elements of the root, followed by proper path elements.\<close>

definition inside :: "string option \<Rightarrow> string \<Rightarrow> string \<Rightarrow> bool" where
  "inside cwd root p \<longleftrightarrow>
     (\<exists>ds. p = canon (resolve_elems cwd root @ ds) \<and> (\<forall>d \<in> set ds. good_elem d))"

lemma Within_resolve:
  assumes "cwd_ok cwd" and "resolve_elems cwd root \<noteq> []"
  shows "Within cwd root target \<longleftrightarrow> (\<exists>ds. resolve_elems cwd target = resolve_elems cwd root @ ds)"
  unfolding Within_def Abs_resolve [OF assms(1)] resolve_Clean option.case
  by (rule canon_below [OF assms(2) resolve_good resolve_good])

lemma Join_resolve_elems:
  assumes "b \<noteq> []" and "\<forall>e \<in> set es. good_elem e"
  shows "resolve_elems cwd (filepath_Join (b # es)) = resolve_elems cwd b @ es"
proof -
  have c: "concat (map split_slash es) = es"
    using assms(2) by (induction es) (simp_all add: split_slash_single good_elem_def)
  have "filepath_Join (b # es) = filepath_Clean (strings_Join (b # es) ''/'')"
    using assms(1) by (simp add: filepath_Join_def del: strings_Join.simps)
  then show ?thesis
    unfolding Join_resolve [OF assms(1)] c clean_elems_id [OF assms(2)] by (simp add: resolve_Clean
      Join_resolve [OF assms(1)] c clean_elems_id [OF assms(2)] del: strings_Join.simps)
qed

lemma Clean_nonempty: "filepath_Clean p \<noteq> []"
  by (cases "filepath_IsAbs p") (simp_all add: Clean_abs [of p None] canon_def Clean_relative)

lemma Join_inside:
  assumes "cwd_ok cwd" and "resolve_elems cwd base \<noteq> []" and "\<forall>e \<in> set es. good_elem e"
  shows "\<exists>p. Join cwd base es = Inr p \<and> resolve_elems cwd p = resolve_elems cwd base @ es"
proof -
  let ?p = "filepath_Clean (filepath_Join (filepath_Clean base # es))"
  have p: "resolve_elems cwd ?p = resolve_elems cwd base @ es"
    by (simp only: resolve_Clean Join_resolve_elems [OF Clean_nonempty assms(3)])
  have "Within cwd (filepath_Clean base) ?p"
    using assms(2) p by (subst Within_resolve [OF assms(1)]) (simp_all add: resolve_Clean)
  with p show ?thesis by (simp add: Join_def Let_def)
qed

lemma Rel_below:
  assumes "\<forall>e \<in> set rs. good_elem e" and "\<forall>e \<in> set ds. good_elem e"
  shows "\<exists>rel. filepath_Rel (canon rs) (canon (rs @ ds)) = Some rel
    \<and> rel \<noteq> ''..'' \<and> \<not> strings_HasPrefix rel ''../''"
proof (cases "ds = []")
  case True
  then show ?thesis by (simp add: filepath_Rel_def strings_HasPrefix_def)
next
  case False
  have clean: "filepath_Clean (canon es) = canon es" if "\<forall>e \<in> set es. good_elem e" for es
  proof -
    have "rev (clean_elems True [] (split_slash (canon es))) = es"
      using that by (cases "es = []")
        (simp_all add: split_slash_canon clean_elems.simps clean_elems_id, simp add: canon_def clean_elems.simps)
    then show ?thesis using Clean_abs [of "canon es" None] by (simp add: resolve_elems_def)
  qed
  have "canon rs \<noteq> canon (rs @ ds)" using assms False by (subst canon_inj) auto
  then have rel: "filepath_Rel (canon rs) (canon (rs @ ds)) = Some (strings_Join ds ''/'')"
  proof -
    have both: "\<forall>e \<in> set (rs @ ds). good_elem e" using assms by auto
    have "canon rs \<noteq> ''.''" by (simp add: canon_def)
    with \<open>canon rs \<noteq> canon (rs @ ds)\<close> show ?thesis
      by (simp only: filepath_Rel_def Let_def clean [OF assms(1)] clean [OF both] elems_canon [OF assms(1)]
          elems_canon [OF both] strip_common_append IsAbs_canon if_False simp_thms prod.case) simp
  qed
  have sp: "split_slash (strings_Join ds ''/'') = ds"
    using False assms(2) by (simp add: split_slash_Join_elems good_elem_def)
  have "''..'' \<notin> set ds" using assms(2) by (auto simp: good_elem_def)
  moreover have "''..'' \<in> set ds" if "strings_Join ds ''/'' = ''..'' @ t" "t = [] \<or> hd t = SLASH" for t
    using sp that split_slash_append [of "''..''" "tl t"]
    by (cases t) (auto simp: split_slash_single)
  ultimately have "strings_Join ds ''/'' \<noteq> ''..''" "\<not> strings_HasPrefix (strings_Join ds ''/'') ''../''"
    by (auto simp: HasPrefix_iff dest: spec [of _ "[]"])
  with rel show ?thesis by blast
qed

lemma canon_no_double:
  assumes "\<forall>e \<in> set ts. good_elem e"
  shows "\<not> strings_HasPrefix (canon ts) (canon [] @ ''/'')"
proof (cases ts)
  case Nil
  then show ?thesis by (simp add: canon_def strings_HasPrefix_def)
next
  case (Cons e es)
  with assms obtain c e' where e: "e = c # e'" "c \<noteq> SLASH" by (cases e) (auto simp: good_elem_def)
  have "\<exists>u. strings_Join ts ''/'' = c # u" using Cons e by (cases es) auto
  with e(2) show ?thesis by (auto simp: canon_def HasPrefix_iff)
qed

lemma resolveUnderRoot_inside:
  assumes "cwd_ok cwd" and "resolveUnderRoot cwd root target = Inr a"
  shows "inside cwd root a"
proof -
  let ?rs = "resolve_elems cwd root" and ?ts = "resolve_elems cwd target"
  from assms(2) have a: "a = canon ?ts"
    and below: "canon ?ts = canon ?rs \<or> strings_HasPrefix (canon ?ts) (canon ?rs @ ''/'')"
    unfolding resolveUnderRoot_def Abs_resolve [OF assms(1)] resolve_Clean option.case
    by (auto split: option.splits if_splits)
  have "\<exists>ds. ?ts = ?rs @ ds"
  proof (cases "?rs = []")
    case False
    with below show ?thesis using canon_below [OF _ resolve_good resolve_good] by blast
  qed simp
  then obtain ds where ds: "?ts = ?rs @ ds" by blast
  then have "\<forall>d \<in> set ds. good_elem d" using resolve_good [of cwd target] by simp
  with a ds show ?thesis unfolding inside_def by auto
qed

lemma resolveUnderRoot_ok:
  assumes "cwd_ok cwd" and "resolve_elems cwd root \<noteq> []"
    and "resolve_elems cwd target = resolve_elems cwd root @ ds"
  shows "resolveUnderRoot cwd root target = Inr (canon (resolve_elems cwd target))"
proof -
  have "\<forall>e \<in> set ds. good_elem e" using resolve_good [of cwd target] assms(3) by simp
  from Rel_below [OF resolve_good [of cwd root] this] show ?thesis
    using canon_below [OF assms(2) resolve_good resolve_good [of cwd target]] assms(3)
    unfolding resolveUnderRoot_def Abs_resolve [OF assms(1)] resolve_Clean option.case
    by auto
qed

lemma SafeID_good: "SafeID i \<Longrightarrow> good_elem i"
proof -
  assume safe: "SafeID i"
  let ?t = "strings_TrimSpace i"
  have t: "?t \<noteq> []" "?t \<noteq> ''.''" "?t \<noteq> ''..''" "list_all id_char ?t"
    using safe by (auto simp: SafeID_def Let_def split: if_splits)
  have "SLASH \<notin> set i"
  proof
    assume "SLASH \<in> set i"
    then have "SLASH \<in> set ?t" by (rule TrimSpace_keep) (auto simp: space_runes_def)
    with t(4) show False by (auto simp: list_all_iff id_char_def)
  qed
  moreover have "strings_TrimSpace ''.'' = ''.''" "strings_TrimSpace ''..'' = ''..''"
    by (rule ascii_word_trimmed, simp add: ascii_word_def space_runes_def)+
  ultimately show ?thesis using t(1-3) by (auto simp: good_elem_def)
qed

lemma under_root_inside:
  assumes "cwd_ok cwd"
    and "\<And>a c p. inside cwd root a \<Longrightarrow> c \<in> set (fst (k a)) \<Longrightarrow> p \<in> set (call_paths c) \<Longrightarrow> inside cwd root p"
    and "c \<in> set (fst (under_root cwd root target k))" and "p \<in> set (call_paths c)"
  shows "inside cwd root p"
proof (cases "resolveUnderRoot cwd root target")
  case (Inl e)
  with assms(3) show ?thesis by (simp add: under_root_def)
next
  case (Inr a)
  then have "inside cwd root a" by (rule resolveUnderRoot_inside [OF assms(1)])
  moreover have "c \<in> set (fst (k a))" using assms(3) Inr by (simp add: under_root_def)
  ultimately show ?thesis using assms(2,4) by blast
qed

section \<open>Properties\<close>

text \<open>
  C12: No file operation leaves its root: whatever the target is (dot-dot elements,
  absolute paths, doubled slashes), every path that \<^verbatim>\<open>ReadFile\<close>, \<^verbatim>\<open>Stat\<close>, \<^verbatim>\<open>ReadDir\<close>,
  \<^verbatim>\<open>EnsureDirUnder\<close> or \<^verbatim>\<open>RenameUnder\<close> hands to the operating system is the absolute root followed
  by proper elements.
\<close>
theorem fs_confined:
  assumes "cwd_ok cwd"
    and "c \<in> set (fst (ReadFile sys cwd root target)) \<union> set (fst (Stat sys cwd root target))
       \<union> set (fst (ReadDir sys cwd root target)) \<union> set (fst (EnsureDirUnder sys cwd root target perm))
       \<union> set (fst (RenameUnder sys cwd root target target'))"
    and "p \<in> set (call_paths c)"
  shows "inside cwd root p"
proof -
  have one: "inside cwd root p"
    if "c \<in> set (fst (under_root cwd root target (\<lambda>a. call sys (f a) ())))"
      and "\<And>a. set (call_paths (f a)) \<subseteq> {a}" for f
    using assms(1) _ that(1) assms(3)
    by (rule under_root_inside) (use that(2) in \<open>auto simp: call_def\<close>)
  have two: "inside cwd root p" if "c \<in> set (fst (RenameUnder sys cwd root target target'))"
    using assms(1) _ that [unfolded RenameUnder_def] assms(3)
  proof (rule under_root_inside)
    fix a c p
    assume a: "inside cwd root a" and p: "p \<in> set (call_paths c)"
      and c: "c \<in> set (fst (under_root cwd root target' (\<lambda>d. call sys (Rename a d) ())))"
    from assms(1) _ c p show "inside cwd root p"
      by (rule under_root_inside) (use a in \<open>auto simp: call_def\<close>)
  qed
  from assms(2) two one [of OsReadFile] one [of OsStat] one [of OsReadDir] one [of "\<lambda>a. MkdirAll a perm"]
  show ?thesis
    unfolding ReadFile_def Stat_def ReadDir_def EnsureDirUnder_def by auto
qed

theorem fs_confined_witness:
  "inside (Some ''/srv'') ''data'' ''/srv/data/a''"
proof (rule fs_confined [where sys = "\<lambda>_. True" and target = "''data/x/../a''" and c = "OsStat ''/srv/data/a''"])
  show "cwd_ok (Some ''/srv'')" by (simp add: cwd_ok_def filepath_IsAbs_def)
  have "fst (Stat (\<lambda>_. True) (Some ''/srv'') ''data'' ''data/x/../a'') = [OsStat ''/srv/data/a'']"
    by code_simp
  then show "OsStat ''/srv/data/a'' \<in> set (fst (ReadFile (\<lambda>_. True) (Some ''/srv'') ''data'' ''data/x/../a''))
      \<union> set (fst (Stat (\<lambda>_. True) (Some ''/srv'') ''data'' ''data/x/../a''))
      \<union> set (fst (ReadDir (\<lambda>_. True) (Some ''/srv'') ''data'' ''data/x/../a''))
      \<union> set (fst (EnsureDirUnder (\<lambda>_. True) (Some ''/srv'') ''data'' ''data/x/../a'' 0))
      \<union> set (fst (RenameUnder (\<lambda>_. True) (Some ''/srv'') ''data'' ''data/x/../a'' []))"
    by simp
qed simp

text \<open>
  \<^verbatim>\<open>Within\<close> decides containment exactly, for every root but the file system root: it
  holds just when the resolved elements of the target extend those of the root.
\<close>
lemma Within_exact:
  assumes "cwd_ok cwd" and "resolve_elems cwd root \<noteq> []"
  shows "Within cwd root target \<longleftrightarrow> (\<exists>ds. resolve_elems cwd target = resolve_elems cwd root @ ds)"
  using assms by (rule Within_resolve)

text \<open>
  With the file system root as the root nothing but the root itself is accepted: the
  prefix that is looked for starts with two slashes.
\<close>
lemma Within_filesystem_root:
  assumes "cwd_ok cwd" and "resolve_elems cwd target \<noteq> []"
  shows "\<not> Within cwd ''/'' target \<and> resolveUnderRoot cwd ''/'' target = Inl ErrInvalid"
proof -
  have root: "resolve_elems cwd ''/'' = []" by (simp add: resolve_elems_def filepath_IsAbs_def clean_elems.simps)
  have ne: "canon (resolve_elems cwd target) \<noteq> canon []"
    using assms(2) by (subst canon_inj) (simp_all add: resolve_good)
  have "\<not> strings_HasPrefix (canon (resolve_elems cwd target)) (canon [] @ ''/'')"
    by (rule canon_no_double [OF resolve_good])
  with ne show ?thesis
    unfolding Within_def resolveUnderRoot_def Abs_resolve [OF assms(1)] resolve_Clean root option.case
    by (auto split: option.splits)
qed

text \<open>
  C13: For every accepted job id the artifacts directory is the one element with that id below
  \<^verbatim>\<open>artifacts/jobs\<close> of the data root, it is the only directory created, and a file that is opened in
  it lies inside it, whatever its name is.
\<close>
theorem job_artifacts_confined:
  assumes "cwd_ok cwd" and "resolve_elems cwd dataRoot \<noteq> []" and "SafeID jobID"
  defines "dir \<equiv> canon (resolve_elems cwd dataRoot @ [''artifacts'', ''jobs'', jobID])"
  shows "fst (EnsureJobArtifactsDir sys cwd dataRoot jobID perm) = [MkdirAll dir perm]
    \<and> (\<forall>c \<in> set (fst (OpenJobArtifact sys cwd dataRoot jobID name flag perm)).
         c = MkdirAll dir 488 \<or> (\<exists>p. c = OpenFile p flag perm \<and> inside cwd dir p))"
proof -
  have "\<forall>e \<in> set [''artifacts'', ''jobs'']. good_elem e" by (simp add: good_elem_def)
  then obtain j where j: "Join cwd dataRoot [''artifacts'', ''jobs''] = Inr j"
    "resolve_elems cwd j = resolve_elems cwd dataRoot @ [''artifacts'', ''jobs'']"
    using Join_inside [OF assms(1,2)] by blast
  have "\<forall>e \<in> set [jobID]. good_elem e" using SafeID_good [OF assms(3)] by simp
  moreover have "resolve_elems cwd j \<noteq> []" using j(2) by simp
  ultimately obtain d where d: "Join cwd j [jobID] = Inr d"
    "resolve_elems cwd d = resolve_elems cwd dataRoot @ [''artifacts'', ''jobs'', jobID]"
    using Join_inside [OF assms(1)] j(2) by fastforce
  have "resolveUnderRoot cwd dataRoot d = Inr dir"
    using resolveUnderRoot_ok [OF assms(1,2) d(2)] d(2) by (simp add: dir_def)
  then have ens: "EnsureJobArtifactsDir sys cwd dataRoot jobID q
      = ([MkdirAll dir q], if sys (MkdirAll dir q) then Inr dir else Inl ErrSys)" for q
    using assms(3) j(1) d(1) by (simp add: EnsureJobArtifactsDir_def JobArtifactsDir_def call_def)
  then show ?thesis
    using resolveUnderRoot_inside [OF assms(1)]
    by (auto simp: OpenJobArtifact_def call_def split: sum.splits)
qed

theorem job_artifacts_confined_witness:
  "fst (EnsureJobArtifactsDir (\<lambda>_. True) (Some ''/srv'') ''data'' ''job-1'' 488)
     = [MkdirAll ''/srv/data/artifacts/jobs/job-1'' 488]"
proof -
  have "cwd_ok (Some ''/srv'')" by (simp add: cwd_ok_def filepath_IsAbs_def)
  moreover have "resolve_elems (Some ''/srv'') ''data'' = [''srv'', ''data'']" by code_simp
  moreover have "SafeID ''job-1''" by code_simp
  ultimately show ?thesis
    using job_artifacts_confined [of "Some ''/srv''" "''data''" "''job-1''" "\<lambda>_. True" 488]
    by (simp add: canon_def)
qed

end
