(* ===== verification/Injection.thy ===== *)
theory Injection
  imports SafePath Float64
begin

text \<open>
  CSV injection files, the second half of \<^verbatim>\<open>internal/template/render.go\<close>: reading a file with
  \<^verbatim>\<open>encoding/csv\<close>, the choice of the row for a call, the in-memory overrides of single cells, the
  lookup of a row by key with and without an index file, and the token parameters.

  The file system is the argument \<open>fs\<close> (contents by path).  The program parses a file once and
  caches it; a file that does not change is read alike with and without the cache.  An index file
  is represented by the record that its JSON text encodes.
\<close>

section \<open>encoding/csv\<close>

datatype csv_error = ErrBareQuote | ErrQuote | ErrOpen

abbreviation QUOTE :: char where "QUOTE \<equiv> CHR 0x22"

text \<open>
  The reader maps CRLF to LF line by line and drops a carriage return before the end of the file.
\<close>

fun csv_normalize :: "string \<Rightarrow> string" where
  "csv_normalize [] = []"
| "csv_normalize (c # t) =
     (if c = CR \<and> (t = [] \<or> hd t = LF) then csv_normalize t else c # csv_normalize t)"

text \<open>
  A quoted field: the field, whether another field follows on the line, and what is left.
\<close>

fun csv_quoted :: "char \<Rightarrow> string \<Rightarrow> string \<Rightarrow> (csv_error, string \<times> bool \<times> string) result" where
  "csv_quoted comma acc [] = Inl ErrQuote"
| "csv_quoted comma acc (c # t) =
     (if c \<noteq> QUOTE then csv_quoted comma (acc @ [c]) t
      else case t of
             [] \<Rightarrow> Inr (acc, False, [])
           | d # u \<Rightarrow>
               if d = QUOTE then csv_quoted comma (acc @ [QUOTE]) u
               else if d = comma then Inr (acc, True, u)
               else if d = LF then Inr (acc, False, u)
               else Inl ErrQuote)"

lemma csv_quoted_shorter: "csv_quoted comma acc s = Inr (f, more', rest) \<Longrightarrow> length rest < length s"
proof (induction comma acc s rule: csv_quoted.induct)
  case (2 comma acc c t)
  then show ?case by (auto split: if_splits list.splits)
qed simp

function csv_record :: "char \<Rightarrow> string list \<Rightarrow> string \<Rightarrow> (csv_error, string list \<times> string) result" where
  "csv_record comma fs s =
     (if s \<noteq> [] \<and> hd s = QUOTE then
        (case csv_quoted comma [] (tl s) of
           Inl e \<Rightarrow> Inl e
         | Inr (f, follows, rest) \<Rightarrow>
             if follows then csv_record comma (fs @ [f]) rest else Inr (fs @ [f], rest))
      else
        let field = takeWhile (\<lambda>c. c \<noteq> comma \<and> c \<noteq> LF) s;
            rest = dropWhile (\<lambda>c. c \<noteq> comma \<and> c \<noteq> LF) s
        in if QUOTE \<in> set field then Inl ErrBareQuote
           else case rest of
                  [] \<Rightarrow> Inr (fs @ [field], [])
                | d # u \<Rightarrow> if d = comma then csv_record comma (fs @ [field]) u else Inr (fs @ [field], u))"
  by pat_completeness auto
termination
proof (relation "measure (\<lambda>(comma, fs, s). length s)", goal_cases)
  case (2 comma fs s r f p follows rest)
  then have "csv_quoted comma [] (tl s) = Inr (f, follows, rest)" by simp
  from csv_quoted_shorter [OF this] show ?case by simp
next
  case (3 comma fs s field rest d u)
  then have "length (d # u) \<le> length s" by (metis length_dropWhile_le)
  then show ?case by simp
qed simp

declare csv_record.simps [simp del]

lemma csv_record_shorter: "csv_record comma fs s = Inr (r, rest) \<Longrightarrow> s \<noteq> [] \<Longrightarrow> length rest < length s"
proof (induction comma fs s arbitrary: r rest rule: csv_record.induct)
  case (1 comma fs s)
  show ?case
  proof (cases "hd s = QUOTE")
    case True
    with "1.prems" obtain f follows u where q: "csv_quoted comma [] (tl s) = Inr (f, follows, u)"
      by (auto simp: csv_record.simps [of comma fs s] split: sum.splits)
    have u: "length u < length s" using csv_quoted_shorter [OF q] by simp
    show ?thesis
    proof (cases "follows \<and> u \<noteq> []")
      case True
      then have "length rest < length u"
        using "1.IH"(1) "1.prems" \<open>hd s = QUOTE\<close> q
        by (simp add: csv_record.simps [of comma fs s])
      with u show ?thesis by simp
    next
      case False
      then have "rest = u \<or> rest = []"
        using "1.prems" \<open>hd s = QUOTE\<close> q
        by (auto simp: csv_record.simps [of comma fs s] csv_record.simps [of comma _ "[]"] split: if_splits)
      with u "1.prems" show ?thesis by auto
    qed
  next
    case False
    let ?d = "dropWhile (\<lambda>c. c \<noteq> comma \<and> c \<noteq> LF) s"
    have le: "length ?d \<le> length s" by (rule length_dropWhile_le)
    show ?thesis
    proof (cases ?d)
      case Nil
      with False "1.prems" show ?thesis by (auto simp: csv_record.simps [of comma fs s] Let_def split: if_splits)
    next
      case (Cons d u)
      consider "rest = u" | "rest = []" | "length rest < length u"
        using "1.IH"(2) "1.prems" False Cons
        by (cases "d = comma"; cases "u = []")
           (auto simp: csv_record.simps [of comma fs s] csv_record.simps [of comma _ "[]"] Let_def split: if_splits)
      then show ?thesis using Cons le "1.prems"(2) by cases auto
    qed
  qed
qed

function csv_ReadAll :: "char \<Rightarrow> string \<Rightarrow> (csv_error, string list list) result" where
  "csv_ReadAll comma s =
     (case s of
        [] \<Rightarrow> Inr []
      | c # t \<Rightarrow>
          if c = LF then csv_ReadAll comma t
          else case csv_record comma [] (c # t) of
                 Inl e \<Rightarrow> Inl e
               | Inr (r, rest) \<Rightarrow>
                   (case csv_ReadAll comma rest of Inl e \<Rightarrow> Inl e | Inr rs \<Rightarrow> Inr (r # rs)))"
  by pat_completeness auto
termination
  by (relation "measure (\<lambda>(comma, s). length s)") (auto dest!: csv_record_shorter)

declare csv_ReadAll.simps [simp del]

section \<open>Rows\<close>

definition resolvePath :: "string \<Rightarrow> string \<Rightarrow> string" where
  "resolvePath basePath name =
     (if filepath_IsAbs name \<or> basePath = [] then name else filepath_Join [basePath, name])"

definition isIgnorableInfCSVRow :: "string list \<Rightarrow> bool" where
  "isIgnorableInfCSVRow record0 =
     (if record0 = [] then True
      else if strings_HasPrefix (strings_TrimSpace (hd record0)) ''#'' then True
      else list_all (\<lambda>cell. strings_TrimSpace cell = []) record0)"

definition BOM :: string where "BOM = [CHR 0xEF, CHR 0xBB, CHR 0xBF]"

definition isSIPpInfDistributionKeyword :: "string \<Rightarrow> bool" where
  "isSIPpInfDistributionKeyword s \<longleftrightarrow>
     strings_ToUpper (strings_TrimSpace (strings_TrimPrefix s BOM)) \<in> {''SEQUENTIAL'', ''RANDOM'', ''USER''}"

definition isSIPpDistributionHeaderRecord :: "string list \<Rightarrow> bool" where
  "isSIPpDistributionHeaderRecord record0 \<longleftrightarrow>
     record0 \<noteq> [] \<and> isSIPpInfDistributionKeyword (hd record0)
     \<and> list_all (\<lambda>cell. strings_TrimSpace cell = []) (tl record0)"

definition findInfDataRecordsStart :: "string list list \<Rightarrow> nat" where
  "findInfDataRecordsStart records =
     (let i = length (takeWhile isIgnorableInfCSVRow records)
      in if length records \<le> i then length records
         else if isSIPpDistributionHeaderRecord (records ! i) then i + 1 else i)"

text \<open>The first line that holds a separator decides between comma and semicolon.\<close>

fun sniff_lines :: "string list \<Rightarrow> char" where
  "sniff_lines [] = CHR '',''"
| "sniff_lines (raw # rest) =
     (let line = strings_TrimSpace raw
      in if line = [] \<or> strings_HasPrefix line ''#'' then sniff_lines rest
         else if strings_ToUpper line \<in> {''SEQUENTIAL'', ''RANDOM'', ''USER''} then sniff_lines rest
         else if strings_IndexAny line '',;'' = None then sniff_lines rest
         else if strings_CountByte line CHR '','' < strings_CountByte line CHR '';'' then CHR '';''
         else CHR '','')"

definition sniffFieldCSVCommaFromPeek :: "string \<Rightarrow> char" where
  "sniffFieldCSVCommaFromPeek peek = sniff_lines (strings_Split (strings_TrimPrefix peek BOM) [LF])"

definition infDelimiterPeekBytes :: nat where "infDelimiterPeekBytes = 65536"

record csvCacheEntry =
  csv_records :: "string list list"
  csv_dataStart :: nat
  csv_comma :: char

type_synonym files = "string \<Rightarrow> string option"

definition getCachedCSV :: "files \<Rightarrow> string \<Rightarrow> (csv_error, csvCacheEntry) result" where
  "getCachedCSV fs path =
     (case fs path of
        None \<Rightarrow> Inl ErrOpen
      | Some content \<Rightarrow>
          let comma = sniffFieldCSVCommaFromPeek (take infDelimiterPeekBytes content)
          in (case csv_ReadAll comma (csv_normalize content) of
                Inl e \<Rightarrow> Inl e
              | Inr records \<Rightarrow>
                  Inr \<lparr>csv_records = records, csv_dataStart = findInfDataRecordsStart records,
                       csv_comma = comma\<rparr>))"

section \<open>Cell overrides\<close>

type_synonym overrides = "string \<Rightarrow> int \<Rightarrow> int \<Rightarrow> string option"

definition applyCSVFieldOverrides ::
  "string \<Rightarrow> int \<Rightarrow> string list \<Rightarrow> overrides option \<Rightarrow> string list" where
  "applyCSVFieldOverrides fileKey lineNumber record0 ov =
     (case ov of
        None \<Rightarrow> record0
      | Some o' \<Rightarrow>
          map (\<lambda>i. case o' fileKey lineNumber (int i) of None \<Rightarrow> record0 ! i | Some v \<Rightarrow> v)
            [0..<length record0])"

definition storeCSVFieldOverride ::
  "string \<Rightarrow> int \<Rightarrow> int \<Rightarrow> string \<Rightarrow> overrides option \<Rightarrow> overrides option" where
  "storeCSVFieldOverride fileKey lineNumber field value ov =
     map_option (\<lambda>o'. o'(fileKey := (o' fileKey)(lineNumber := (o' fileKey lineNumber)(field := Some value)))) ov"

text \<open>The row, or \<open>None\<close> where Go returns \<^verbatim>\<open>ok == false\<close>.\<close>

definition csvRecordAt ::
  "files \<Rightarrow> string \<Rightarrow> string \<Rightarrow> int \<Rightarrow> overrides option \<Rightarrow> bool \<Rightarrow> (csv_error, string list option) result" where
  "csvRecordAt fs basePath name lineNumber ov physicalLine =
     (if lineNumber \<le> 0 then Inr None
      else
        let path = resolvePath basePath name
        in case getCachedCSV fs path of
             Inl e \<Rightarrow> Inl e
           | Inr entry \<Rightarrow>
               let records = csv_records entry;
                   start = csv_dataStart entry;
                   dataRows = int (length records) - int start
               in if \<not> physicalLine \<and> dataRows \<le> 0 then Inr None
                  else
                    let idx = (if physicalLine then lineNumber - 1
                               else int start + (lineNumber - 1) mod dataRows)
                    in if idx < 0 \<or> int (length records) \<le> idx then Inr None
                       else Inr (Some (applyCSVFieldOverrides path (idx + 1) (records ! nat idx) ov)))"

datatype mutation_error =
    MutFile
  | MutLine
  | MutField
  | MutCsv csv_error
  | MutNoLine int
  | MutRange int
  | MutPosition
  | MutMode string

definition ApplyCSVMutation ::
  "files \<Rightarrow> string \<Rightarrow> string \<Rightarrow> int \<Rightarrow> int \<Rightarrow> string \<Rightarrow> string \<Rightarrow> string \<Rightarrow> overrides option
    \<Rightarrow> (mutation_error, overrides option) result" where
  "ApplyCSVMutation fs basePath name lineNumber field mode txt position ov =
     (if strings_TrimSpace name = [] then Inl MutFile
      else if lineNumber \<le> 0 then Inl MutLine
      else if field < 0 then Inl MutField
      else case csvRecordAt fs basePath name lineNumber ov True of
             Inl e \<Rightarrow> Inl (MutCsv e)
           | Inr None \<Rightarrow> Inl (MutNoLine lineNumber)
           | Inr (Some record0) \<Rightarrow>
               if int (length record0) \<le> field then Inl (MutRange field)
               else
                 let current = record0 ! nat field;
                     m = strings_ToLower (strings_TrimSpace mode);
                     pos = strings_ToLower (strings_TrimSpace position);
                     store = (\<lambda>v. Inr (storeCSVFieldOverride (resolvePath basePath name) lineNumber field v ov))
                 in if m = ''replace'' then store txt
                    else if m = ''insert'' then
                      if pos \<in> {[], ''suffix'', ''append''} then store (current @ txt)
                      else if pos \<in> {''prefix'', ''prepend''} then store (txt @ current)
                      else Inl MutPosition
                    else Inl (MutMode mode))"

section \<open>Lookup by key\<close>

record csvIndex =
  idx_Field :: int
  idx_Lines :: "(string \<times> int) list"

definition buildCSVIndexPath :: "string \<Rightarrow> int \<Rightarrow> string" where
  "buildCSVIndexPath csvPath field = csvPath @ ''.gossipper.idx.'' @ strconv_Itoa field @ ''.json''"

text \<open>\<open>ixs\<close> holds the readable index files.\<close>

type_synonym index_files = "string \<Rightarrow> csvIndex option"

definition lookupCSVLineFromIndex :: "index_files \<Rightarrow> string \<Rightarrow> int \<Rightarrow> string \<Rightarrow> int option option" where
  "lookupCSVLineFromIndex ixs csvPath field key =
     map_option (\<lambda>ix. map_of (idx_Lines ix) key) (ixs (buildCSVIndexPath csvPath field))"

fun scan_first_column :: "int \<Rightarrow> string list list \<Rightarrow> string \<Rightarrow> int option" where
  "scan_first_column n [] key = None"
| "scan_first_column n (record0 # rest) key =
     (if record0 \<noteq> [] \<and> hd record0 = key then Some n else scan_first_column (n + 1) rest key)"

definition LookupCSVLine ::
  "files \<Rightarrow> index_files \<Rightarrow> string \<Rightarrow> string \<Rightarrow> string \<Rightarrow> (csv_error, int option) result" where
  "LookupCSVLine fs ixs basePath name key =
     (let resolvedPath = resolvePath basePath name
      in case lookupCSVLineFromIndex ixs resolvedPath 0 key of
           Some line \<Rightarrow> Inr line
         | None \<Rightarrow>
             (case fs resolvedPath of
                None \<Rightarrow> Inl ErrOpen
              | Some content \<Rightarrow>
                  (case csv_ReadAll CHR '','' (csv_normalize content) of
                     Inl e \<Rightarrow> Inl e
                   | Inr records \<Rightarrow> Inr (scan_first_column 1 records key))))"

fun index_rows :: "int \<Rightarrow> nat \<Rightarrow> string list list \<Rightarrow> (string \<times> int) list \<Rightarrow> (string \<times> int) list" where
  "index_rows n field [] lines = lines"
| "index_rows n field (record0 # rest) lines =
     (if length record0 \<le> field then index_rows (n + 1) field rest lines
      else
        let key = strings_TrimSpace (record0 ! field)
        in if key = [] \<or> map_of lines key \<noteq> None then index_rows (n + 1) field rest lines
           else index_rows (n + 1) field rest (lines @ [(key, n)]))"

datatype index_error = IndexField | IndexCsv csv_error

text \<open>The path of the index, the number of keys, and the index files after the write.\<close>

definition GenerateCSVIndex ::
  "files \<Rightarrow> index_files \<Rightarrow> string \<Rightarrow> string \<Rightarrow> int \<Rightarrow> (index_error, string \<times> int \<times> index_files) result" where
  "GenerateCSVIndex fs ixs basePath name field =
     (if field < 0 then Inl IndexField
      else
        let resolvedPath = resolvePath basePath name
        in case fs resolvedPath of
             None \<Rightarrow> Inl (IndexCsv ErrOpen)
           | Some content \<Rightarrow>
               (case csv_ReadAll CHR '','' (csv_normalize content) of
                  Inl e \<Rightarrow> Inl (IndexCsv e)
                | Inr records \<Rightarrow>
                    let lines = index_rows 1 (nat field) records [];
                        path = buildCSVIndexPath resolvedPath field
                    in Inr (path, int (length lines),
                         ixs(path \<mapsto> \<lparr>idx_Field = field, idx_Lines = lines\<rparr>))))"

section \<open>Token parameters\<close>

text \<open>Later parameters overwrite earlier ones of the same name.\<close>

definition parseKeyParams :: "string \<Rightarrow> string \<Rightarrow> string option" where
  "parseKeyParams value =
     foldl (\<lambda>out part.
        case strings_Cut part CHR ''='' of
          None \<Rightarrow> out
        | Some (key, val) \<Rightarrow>
            out(strings_ToLower (strings_TrimSpace key) \<mapsto> strings_Trim (strings_TrimSpace val) [QUOTE]))
       Map.empty (strings_Fields value)"

definition map_get :: "(string \<Rightarrow> string option) \<Rightarrow> string \<Rightarrow> string" where
  "map_get mp k = (case mp k of None \<Rightarrow> [] | Some v \<Rightarrow> v)"

definition resolveLineNumber :: "string \<Rightarrow> (string \<Rightarrow> string option) \<Rightarrow> int option" where
  "resolveLineNumber raw variables =
     (let value = strings_TrimSpace raw;
          number = (\<lambda>v. case strconv_Atoi v of
                          (n, None) \<Rightarrow> if n \<le> 0 then None else Some n
                        | (_, Some e) \<Rightarrow> None)
      in if value = [] then None
         else if strings_HasPrefix value ''$'' then
           (case variables (strings_TrimPrefix value ''$'') of
              None \<Rightarrow> None
            | Some resolved \<Rightarrow> number (strings_TrimSpace resolved))
         else number value)"

definition renderFieldTokenWithVariables ::
  "files \<Rightarrow> string \<Rightarrow> string \<Rightarrow> int \<Rightarrow> (string \<Rightarrow> string option) \<Rightarrow> overrides option \<Rightarrow> string
    \<Rightarrow> string option" where
  "renderFieldTokenWithVariables fs key basePath callNumber variables ov defaultInjectionFile =
     (if \<not> strings_HasPrefix (strings_ToLower key) ''field'' then None
      else
        let (fieldName, params) =
              (case strings_Index key '' '' of
                 Some idx \<Rightarrow> (take idx key, drop (idx + 1) key)
               | None \<Rightarrow> (key, []))
        in case strconv_Atoi (strings_TrimPrefix (strings_ToLower fieldName) ''field'') of
             (_, Some e) \<Rightarrow> None
           | (fieldIndex, None) \<Rightarrow>
               let parsed = parseKeyParams params;
                   inline = strings_TrimSpace (map_get parsed ''file'');
                   name = (if inline = [] then strings_TrimSpace defaultInjectionFile else inline);
                   csvBasePath = (if inline = [] then [] else basePath);
                   rawLine = map_get parsed ''line'';
                   line = (if rawLine = [] then Some callNumber else resolveLineNumber rawLine variables)
               in if name = [] then None
                  else case line of
                         None \<Rightarrow> None
                       | Some lineNumber \<Rightarrow>
                           (case csvRecordAt fs csvBasePath name lineNumber ov (rawLine \<noteq> []) of
                              Inl e \<Rightarrow> None
                            | Inr None \<Rightarrow> None
                            | Inr (Some record0) \<Rightarrow>
                                if fieldIndex < 0 then None
                                else if int (length record0) \<le> fieldIndex then Some []
                                else Some (record0 ! nat fieldIndex)))"

definition renderFieldToken :: "files \<Rightarrow> string \<Rightarrow> string \<Rightarrow> int \<Rightarrow> string option" where
  "renderFieldToken fs key basePath callNumber =
     renderFieldTokenWithVariables fs key basePath callNumber Map.empty None []"

definition renderFileToken :: "files \<Rightarrow> string \<Rightarrow> string \<Rightarrow> string option" where
  "renderFileToken fs key basePath =
     (let name = map_get (parseKeyParams key) ''name''
      in if name = [] then None else fs (resolvePath basePath name))"

text \<open>The pattern is repeated and cut to the requested length.\<close>

function fill_loop :: "string \<Rightarrow> nat \<Rightarrow> string \<Rightarrow> string" where
  "fill_loop seed n acc = (if seed \<noteq> [] \<and> length acc < n then fill_loop seed n (acc @ seed) else acc)"
  by pat_completeness auto
termination
  by (relation "measure (\<lambda>(seed, n, acc). n - length acc)") (auto simp flip: length_greater_0_conv)

declare fill_loop.simps [simp del]

definition fillByPattern :: "string \<Rightarrow> int \<Rightarrow> string" where
  "fillByPattern seed len =
     (if len \<le> 0 then []
      else if length seed = 1 then concat (replicate (nat len) seed)
      else take (nat len) (fill_loop seed (nat len) []))"

definition parseFillLength :: "string \<Rightarrow> int option" where
  "parseFillLength raw0 =
     (let raw = strings_TrimSpace raw0
      in if raw = [] then None
         else case strconv_Atoi raw of
                (v, None) \<Rightarrow> Some v
              | (_, Some e) \<Rightarrow> map_option float_to_int64 (strconv_ParseFloat raw))"

definition renderFillToken ::
  "string \<Rightarrow> (string \<Rightarrow> string option) \<Rightarrow> string option" where
  "renderFillToken key variables =
     (if \<not> strings_HasPrefix (strings_ToLower key) ''fill'' then None
      else
        let paramsRaw = (case strings_IndexAny key [SP, TAB] of Some idx \<Rightarrow> drop (idx + 1) key | None \<Rightarrow> []);
            params = parseKeyParams paramsRaw;
            varName = strings_TrimSpace (map_get params ''variable'')
        in if varName = [] then None
           else case variables (strings_TrimPrefix varName ''$'') of
                  None \<Rightarrow> None
                | Some rawLen \<Rightarrow>
                    (case parseFillLength rawLen of
                       None \<Rightarrow> None
                     | Some len \<Rightarrow>
                         if len < 0 then None
                         else
                           let seed = map_get params ''text''
                           in Some (fillByPattern (if seed = [] then ''X'' else seed) len)))"

section \<open>Lemmas\<close>

lemma getCachedCSV_start: "getCachedCSV fs path = Inr e \<Longrightarrow> csv_dataStart e \<le> length (csv_records e)"
  by (auto simp: getCachedCSV_def findInfDataRecordsStart_def Let_def length_takeWhile_le
      split: option.splits sum.splits)

lemma csvRecordAt_row:
  assumes "getCachedCSV fs (resolvePath base name) = Inr e" and "csv_dataStart e < length (csv_records e)"
    and "0 < n"
  defines "rows \<equiv> int (length (csv_records e)) - int (csv_dataStart e)"
  defines "i \<equiv> csv_dataStart e + nat ((n - 1) mod rows)"
  shows "i < length (csv_records e)"
    and "csvRecordAt fs base name n ov False =
      Inr (Some (applyCSVFieldOverrides (resolvePath base name) (int i + 1) (csv_records e ! i) ov))"
proof -
  have rows: "0 < rows" using assms(2) by (simp add: rows_def)
  have b: "0 \<le> (n - 1) mod rows" "(n - 1) mod rows < rows" using rows by simp_all
  then show "i < length (csv_records e)" unfolding i_def rows_def by linarith
  have "nat (int (csv_dataStart e) + (n - 1) mod rows) = i" using b by (simp add: i_def nat_add_distrib)
  moreover have "int (csv_dataStart e) + (n - 1) mod rows < int (length (csv_records e))"
    using b(2) unfolding rows_def by linarith
  ultimately show "csvRecordAt fs base name n ov False =
      Inr (Some (applyCSVFieldOverrides (resolvePath base name) (int i + 1) (csv_records e ! i) ov))"
    using assms(1,3) rows b by (simp add: csvRecordAt_def Let_def i_def flip: rows_def)
qed

text \<open>Which row is read does not depend on the overrides.\<close>

lemma csvRecordAt_uniform:
  assumes "csvRecordAt fs base name n ov0 phys = Inr (Some r)"
  shows "\<exists>idx row. (\<forall>ov. csvRecordAt fs base name n ov phys =
      Inr (Some (applyCSVFieldOverrides (resolvePath base name) (idx + 1) row ov))) \<and> (phys \<longrightarrow> idx + 1 = n)"
proof -
  from assms obtain e where e: "getCachedCSV fs (resolvePath base name) = Inr e"
    by (auto simp: csvRecordAt_def Let_def split: if_splits sum.splits)
  let ?idx = "if phys then n - 1
    else int (csv_dataStart e) + (n - 1) mod (int (length (csv_records e)) - int (csv_dataStart e))"
  show ?thesis
    using assms
    by (intro exI [of _ ?idx] exI [of _ "csv_records e ! nat ?idx"])
       (auto simp: csvRecordAt_def e Let_def split: if_splits)
qed

lemma length_applyOverrides [simp]: "length (applyCSVFieldOverrides f n r ov) = length r"
  by (simp add: applyCSVFieldOverrides_def split: option.splits)

lemma applyOverrides_store:
  assumes "j < length r"
  shows "applyCSVFieldOverrides f' n' r (storeCSVFieldOverride f n i v (Some o')) ! j =
    (if f' = f \<and> n' = n \<and> int j = i then v else applyCSVFieldOverrides f' n' r (Some o') ! j)"
  using assms by (simp add: applyCSVFieldOverrides_def storeCSVFieldOverride_def)

lemma fill_loop_prefix:
  "seed \<noteq> [] \<Longrightarrow> acc = concat (replicate k seed) \<Longrightarrow>
   \<exists>m. fill_loop seed n acc = concat (replicate m seed) \<and> n \<le> length (fill_loop seed n acc)"
proof (induction seed n acc arbitrary: k rule: fill_loop.induct)
  case (1 seed n acc)
  show ?case
  proof (cases "length acc < n")
    case True
    have "acc @ seed = concat (replicate (Suc k) seed)"
      unfolding "1.prems"(2) by (induction k) simp_all
    moreover have "fill_loop seed n acc = fill_loop seed n (acc @ seed)"
      using True "1.prems"(1) by (subst fill_loop.simps) simp
    ultimately show ?thesis using "1.IH" True "1.prems"(1) by metis
  next
    case False
    then have "fill_loop seed n acc = acc" by (subst fill_loop.simps) simp
    with False "1.prems"(2) show ?thesis by (metis linorder_not_less)
  qed
qed

lemma nth_concat_replicate:
  "i < m * length xs \<Longrightarrow> concat (replicate m xs) ! i = xs ! (i mod length xs)"
proof (induction m arbitrary: i)
  case (Suc m)
  show ?case
  proof (cases "i < length xs")
    case False
    then have "i - length xs < m * length xs" using Suc.prems by simp
    with Suc.IH False show ?thesis by (simp add: nth_append le_mod_geq)
  qed (simp add: nth_append)
qed simp

lemma index_rows_scan:
  "key \<noteq> [] \<Longrightarrow> \<forall>r \<in> set rs. r \<noteq> [] \<longrightarrow> strings_TrimSpace (hd r) = hd r \<Longrightarrow>
   map_of (index_rows n 0 rs lines) key =
     (case map_of lines key of Some v \<Rightarrow> Some v | None \<Rightarrow> scan_first_column n rs key)"
proof (induction rs arbitrary: n lines)
  case Nil
  then show ?case by (simp split: option.splits)
next
  case (Cons r rs)
  then show ?case by (cases r) (auto simp: Let_def map_add_def split: option.splits)
qed

section \<open>Properties\<close>

text \<open>
  SIPp's SEQUENTIAL rule: when a file has data rows, every call number gets one of them
  (never a comment, a blank row or the distribution header before them), the first call gets the
  first data row, and the rows repeat with the number of data rows as the period.
\<close>
lemma csvRecordAt_rotates:
  assumes "getCachedCSV fs (resolvePath base name) = Inr e" and "csv_dataStart e < length (csv_records e)"
    and "0 < n"
  defines "rows \<equiv> int (length (csv_records e)) - int (csv_dataStart e)"
  shows "(\<exists>i. csv_dataStart e \<le> i \<and> i < length (csv_records e)
       \<and> csvRecordAt fs base name n None False = Inr (Some (csv_records e ! i)))
    \<and> csvRecordAt fs base name 1 None False = Inr (Some (csv_records e ! csv_dataStart e))
    \<and> csvRecordAt fs base name (n + int k * rows) ov False = csvRecordAt fs base name n ov False"
proof -
  have rows: "0 < rows" using assms(2) by (simp add: rows_def)
  have pos: "0 < n + int k * rows" using assms(3) rows by (simp add: add_pos_nonneg)
  have per: "(n + int k * rows - 1) mod rows = (n - 1) mod rows"
  proof -
    have "n + int k * rows - 1 = (n - 1) + int k * rows" by simp
    then show ?thesis by (simp only: mod_mult_self1)
  qed
  have no: "applyCSVFieldOverrides f m r None = r" for f m r by (simp add: applyCSVFieldOverrides_def)
  from csvRecordAt_row [OF assms(1,2,3)] csvRecordAt_row [OF assms(1,2) pos]
    csvRecordAt_row [OF assms(1,2), of 1]
  show ?thesis
    unfolding rows_def [symmetric] per
    by (auto simp: no intro!: exI [of _ "csv_dataStart e + nat ((n - 1) mod rows)"])
qed

definition sample_content :: string where
  "sample_content = ''# users'' @ [LF] @ ''SEQUENTIAL;'' @ [LF] @ ''alice;1'' @ [LF] @ ''bob;2'' @ [LF]"

definition sample_csv :: files where
  "sample_csv = [''/inf.csv'' \<mapsto> sample_content]"

definition sample_entry :: csvCacheEntry where
  "sample_entry = \<lparr>csv_records = [[''# users''], [''SEQUENTIAL'', []], [''alice'', ''1''], [''bob'', ''2'']],
     csv_dataStart = 2, csv_comma = CHR '';''\<rparr>"

lemma sample_csv_cached: "getCachedCSV sample_csv (resolvePath [] ''/inf.csv'') = Inr sample_entry"
proof -
  have "take infDelimiterPeekBytes sample_content = sample_content"
    by (simp add: sample_content_def infDelimiterPeekBytes_def)
  moreover have "sniffFieldCSVCommaFromPeek sample_content = CHR '';''" by code_simp
  moreover have "csv_ReadAll CHR '';'' (csv_normalize sample_content) = Inr (csv_records sample_entry)"
    by code_simp
  moreover have "findInfDataRecordsStart (csv_records sample_entry) = 2" by code_simp
  ultimately show ?thesis
    by (simp add: getCachedCSV_def sample_csv_def resolvePath_def) (simp add: sample_entry_def)
qed



text \<open>
  The fill keyword gives exactly the requested number of bytes, the pattern over and over.
\<close>
lemma fillByPattern_exact:
  assumes "seed \<noteq> []" and "0 \<le> n"
  shows "length (fillByPattern seed n) = nat n
    \<and> (\<forall>i < nat n. fillByPattern seed n ! i = seed ! (i mod length seed))"
proof -
  have nat_len: "nat n \<le> length (concat (replicate (nat n) seed))"
    using assms(1) by (cases seed) (simp_all add: length_concat sum_list_replicate)
  obtain m where m: "fillByPattern seed n = take (nat n) (concat (replicate m seed))"
    "nat n \<le> length (concat (replicate m seed))"
  proof (cases "length seed = 1")
    case True
    with nat_len show ?thesis
      by (intro that [of "nat n"]) (auto simp: fillByPattern_def length_concat sum_list_replicate)
  next
    case False
    obtain k where "fill_loop seed (nat n) [] = concat (replicate k seed)"
      "nat n \<le> length (fill_loop seed (nat n) [])"
      using fill_loop_prefix [OF assms(1), of "[]" 0 "nat n"] by auto
    with False show ?thesis by (intro that [of k]) (auto simp: fillByPattern_def)
  qed
  then show ?thesis
    by (auto simp: nth_concat_replicate length_concat sum_list_replicate)
qed



end
