(* ===== verification/Template.thy ===== *)
theory Template
  imports SipMessage Injection
begin

text \<open>
  Message templates, \<^verbatim>\<open>internal/template/render.go\<close>: line splitting, expansion of \<^verbatim>\<open>[token]\<close>
  keywords in a lenient and a strict variant, and the two-pass rendering that fills in \<^verbatim>\<open>[len]\<close>.

  What a token reads from outside the program is an argument of type \<open>render_env\<close>: the contents of
  files, the clock, and the conversion of a decimal fraction to an integer (\<^verbatim>\<open>int(ParseFloat(s))\<close>).
  The Go maps of the context are functions to an option; a \<^verbatim>\<open>nil\<close> map and an empty one answer every
  lookup of the code alike.  The CSV injection fields (\<^verbatim>\<open>[fieldN]\<close>) are in \<open>Injection\<close>.
\<close>

section \<open>Context\<close>

record render_context =
  Service :: string
  Transport :: string
  RemoteHost :: string
  RemoteIP :: string
  RemotePort :: int
  LocalIP :: string
  ServerIP :: string
  LocalIPType :: string
  LocalPort :: int
  MediaIP :: string
  MediaIPType :: string
  MediaPort :: int
  IceUfrag :: string
  IcePwd :: string
  CallID :: string
  CSeq :: int
  CallNumber :: int
  MessageIndex :: int
  PID :: int
  Users :: int
  UserID :: int
  BranchBase :: string
  LastMessage :: string
  LastHeaders :: headers
  BodyLength :: int
  SIPpVersion :: string
  ClockTick :: int
  DynamicID :: int
  ExtraKeywords :: "string \<Rightarrow> string option"
  Variables :: "string \<Rightarrow> string option"
  CSVFieldOverrides :: "overrides option"
  BasePath :: string
  InjectionFile :: string

record render_env =
  os_ReadFile :: "string \<Rightarrow> string option"
  now_timestamp :: string
  now_date :: string

section \<open>Lines\<close>

text \<open>\<open>cur\<close> is \<^verbatim>\<open>value[start:i]\<close>; a line ends at a line feed or at a carriage return before one.\<close>

function splitLines_from :: "string \<Rightarrow> string \<Rightarrow> string list" where
  "splitLines_from cur s =
     (case s of
        [] \<Rightarrow> if cur = [] then [] else [cur]
      | c # t \<Rightarrow>
          if c = LF then cur # splitLines_from [] t
          else if c = CR \<and> t \<noteq> [] \<and> hd t = LF then cur # splitLines_from [] (tl t)
          else splitLines_from (cur @ [c]) t)"
  by pat_completeness auto
termination
  by (relation "measure (\<lambda>(cur, s). length s)") auto

declare splitLines_from.simps [simp del]

definition splitLinesTo :: "string \<Rightarrow> string list" where
  "splitLinesTo value = splitLines_from [] value"

definition SplitLinesTo :: "string \<Rightarrow> string list" where
  "SplitLinesTo value = splitLinesTo value"

fun firstLineFromMessage :: "string \<Rightarrow> string" where
  "firstLineFromMessage [] = []"
| "firstLineFromMessage (c # t) =
     (if c = LF then []
      else if c = CR \<and> t \<noteq> [] \<and> hd t = LF then []
      else c # firstLineFromMessage t)"

definition computeBodyLength :: "string \<Rightarrow> int" where
  "computeBodyLength msg =
     (case strings_Index msg (CRLF @ CRLF) of
        None \<Rightarrow> 0
      | Some index \<Rightarrow> int (length (drop (index + length (CRLF @ CRLF)) msg)))"

fun hasLenToken :: "string \<Rightarrow> bool" where
  "hasLenToken [] = False"
| "hasLenToken (c # t) =
     ((3 \<le> length t \<and> c = CHR ''['' \<and> (t ! 0 = CHR ''l'' \<or> t ! 0 = CHR ''L'')
        \<and> (t ! 1 = CHR ''e'' \<or> t ! 1 = CHR ''E'') \<and> (t ! 2 = CHR ''n'' \<or> t ! 2 = CHR ''N''))
      \<or> hasLenToken t)"

section \<open>Keywords\<close>

text \<open>\<open>parseArithmetic\<close> splits at the first sign from which the rest of the key is a number.\<close>

fun arithmetic_from :: "string \<Rightarrow> string \<Rightarrow> string \<times> int" where
  "arithmetic_from base [] = (base, 0)"
| "arithmetic_from base (c # t) =
     (if c = CHR ''+'' \<or> c = CHR ''-'' then
        (case strconv_Atoi (c # t) of
           (n, None) \<Rightarrow> (base, n)
         | (_, Some e) \<Rightarrow> arithmetic_from (base @ [c]) t)
      else arithmetic_from (base @ [c]) t)"

definition parseArithmetic :: "string \<Rightarrow> string \<times> int" where
  "parseArithmetic value = (case value of [] \<Rightarrow> ([], 0) | c # t \<Rightarrow> arithmetic_from [c] t)"

definition transportName :: "string \<Rightarrow> string" where
  "transportName mode =
     (let m = strings_ToLower (strings_TrimSpace mode)
      in if m \<in> {''u1'', ''un'', ''ui''} then ''udp''
         else if m \<in> {''t1'', ''tn''} then ''tcp''
         else if m \<in> {''l1'', ''ln''} then ''tls''
         else if m \<in> {''webrtc'', ''wss'', ''ws''} then ''wss''
         else mode)"

fun lookupHeader :: "headers \<Rightarrow> string \<Rightarrow> string list option" where
  "lookupHeader [] name = None"
| "lookupHeader ((key, values) # hs) name =
     (if strings_EqualFold key name then Some values else lookupHeader hs name)"

definition renderLastHeader :: "string \<Rightarrow> string list \<Rightarrow> bool \<Rightarrow> string" where
  "renderLastHeader name values includeName =
     (let prefix = strings_ToLower name @ '':''
      in strings_Join
           (map (\<lambda>value.
              if includeName then
                if strings_HasPrefix (strings_ToLower (strings_TrimSpace value)) prefix then value
                else name @ '': '' @ value
              else value) values) CRLF)"

function peer_tag_scan :: "string \<Rightarrow> string" where
  "peer_tag_scan s =
     (let (part0, rest) = (case strings_Cut s CHR '';'' of None \<Rightarrow> (s, None) | Some (a, b) \<Rightarrow> (a, Some b));
          part = strings_TrimSpace part0
      in if 4 \<le> length part \<and> strings_HasPrefix (strings_ToLower part) ''tag=''
         then strings_TrimSpace (drop 4 part)
         else case rest of None \<Rightarrow> [] | Some b \<Rightarrow> peer_tag_scan b)"
  by pat_completeness auto
termination
  by (relation "measure length") (auto split: option.splits dest!: Cut_SomeD(1))

declare peer_tag_scan.simps [simp del]

definition extractPeerTag :: "headers \<Rightarrow> string" where
  "extractPeerTag hs =
     (case lookupHeader hs ''To'' of
        None \<Rightarrow> []
      | Some values \<Rightarrow> if values = [] then [] else peer_tag_scan (last values))"

definition extractCSeqNumber :: "headers \<Rightarrow> string" where
  "extractCSeqNumber hs =
     (case lookupHeader hs ''CSeq'' of
        None \<Rightarrow> []
      | Some [] \<Rightarrow> []
      | Some (v # vs) \<Rightarrow> (case strings_Fields v of [] \<Rightarrow> [] | f # fs \<Rightarrow> f))"

definition angle_uri :: "string \<Rightarrow> string" where
  "angle_uri value =
     (case (strings_Index value ''<'', strings_Index value ''>'') of
        (Some s, Some e) \<Rightarrow> if s < e then drop (s + 1) (take e value) else value
      | _ \<Rightarrow> value)"

definition extractContactURI :: "headers \<Rightarrow> string" where
  "extractContactURI hs =
     (case lookupHeader hs ''Contact'' of
        None \<Rightarrow> [] | Some [] \<Rightarrow> [] | Some (value # vs) \<Rightarrow> angle_uri value)"

definition to_uri :: "headers \<Rightarrow> string" where
  "to_uri hs =
     (case lookupHeader hs ''To'' of
        None \<Rightarrow> [] | Some [] \<Rightarrow> [] | Some (value # vs) \<Rightarrow> angle_uri value)"

definition extractLastRequestURI :: "string \<Rightarrow> headers \<Rightarrow> string" where
  "extractLastRequestURI lastMessage hs =
     (if strings_TrimSpace lastMessage \<noteq> [] then
        let first = strings_TrimSpace (firstLineFromMessage lastMessage);
            parts = strings_Fields first
        in if first \<noteq> [] \<and> 2 \<le> length parts
             \<and> \<not> strings_HasPrefix (strings_ToUpper (parts ! 0)) ''SIP/2.0''
           then parts ! 1
           else to_uri hs
      else to_uri hs)"

section \<open>Tokens\<close>

definition extra_transport :: "render_context \<Rightarrow> string \<Rightarrow> string option" where
  "extra_transport c k =
     (case ExtraKeywords c k of
        Some v \<Rightarrow> if strings_TrimSpace v \<noteq> [] then Some v else None
      | None \<Rightarrow> None)"

text \<open>
  The arms of the \<^verbatim>\<open>switch\<close> on the lower-case keyword, which both resolvers have; \<open>base\<close> and \<open>delta\<close>
  come from \<^verbatim>\<open>parseArithmetic\<close>.  \<open>None\<close> stands for the default arm.
\<close>

definition keyword_table :: "render_env \<Rightarrow> render_context \<Rightarrow> int \<Rightarrow> (string \<times> string) list" where
  "keyword_table env c delta =
    [(''service'', Service c),
     (''server_ip'', if ServerIP c \<noteq> [] then ServerIP c else LocalIP c),
     (''remote_host'', RemoteHost c),
     (''remote_ip'', RemoteIP c),
     (''remote_port'', strconv_Itoa (wrap64 (RemotePort c + delta))),
     (''local_ip'', LocalIP c),
     (''local_ip_type'', LocalIPType c),
     (''local_port'', strconv_Itoa (wrap64 (LocalPort c + delta))),
     (''transport'', strings_ToUpper (transportName (Transport c))),
     (''sip_transport'', strings_ToUpper (transportName (Transport c))),
     (''contact_transport'',
        (case extra_transport c ''contact_transport'' of
           Some v \<Rightarrow> strings_ToUpper v | None \<Rightarrow> strings_ToUpper (transportName (Transport c)))),
     (''media_transport'',
        (case extra_transport c ''media_transport'' of
           Some v \<Rightarrow> strings_ToLower v | None \<Rightarrow> strings_ToLower (transportName (Transport c)))),
     (''media_ip'', MediaIP c),
     (''media_ip_type'', MediaIPType c),
     (''media_port'', strconv_Itoa (wrap64 (MediaPort c + delta))),
     (''rtpstream_audio_port'', strconv_Itoa (wrap64 (MediaPort c + delta))),
     (''auto_media_port'', strconv_Itoa (wrap64 (MediaPort c + delta))),
     (''ice_ufrag'', IceUfrag c),
     (''ice_pwd'', IcePwd c),
     (''rtpstream_video_port'', strconv_Itoa (wrap64 (MediaPort c + 2 + delta))),
     (''call_id'', CallID c),
     (''cseq'', strconv_Itoa (wrap64 (CSeq c + delta))),
     (''call_number'', strconv_Itoa (CallNumber c)),
     (''msg_index'', strconv_Itoa (MessageIndex c)),
     (''pid'', strconv_Itoa (PID c)),
     (''users'', strconv_Itoa (Users c)),
     (''userid'', strconv_Itoa (UserID c)),
     (''tdmmap'', ''0.0.0/0''),
     (''branch'', if delta = 0 then BranchBase c else BranchBase c @ ''-'' @ strconv_Itoa delta),
     (''len'', strconv_Itoa (wrap64 (BodyLength c + delta))),
     (''last_message'', LastMessage c),
     (''timestamp'', now_timestamp env),
     (''date'', now_date env),
     (''sipp_version'', if strings_TrimSpace (SIPpVersion c) = [] then ''Gossipper'' else SIPpVersion c),
     (''clock_tick'', strconv_Itoa (wrap64 (ClockTick c + delta))),
     (''dynamic_id'', strconv_Itoa (wrap64 (DynamicID c + delta))),
     (''last_cseq_number'', extractCSeqNumber (LastHeaders c)),
     (''next_url'', extractContactURI (LastHeaders c)),
     (''peer_tag_param'',
        (let tag = extractPeerTag (LastHeaders c) in if tag = [] then [] else '';tag='' @ tag)),
     (''dtmf_digits'', map_get (Variables c) ''dtmf_digits'')]"

definition keyword_value :: "render_env \<Rightarrow> render_context \<Rightarrow> string \<Rightarrow> int \<Rightarrow> string option" where
  "keyword_value env c base delta = map_of (keyword_table env c delta) (strings_ToLower base)"

definition token_key :: "string \<Rightarrow> string" where
  "token_key token = strings_TrimSuffix (strings_TrimPrefix token ''['') '']''"

text \<open>The \<^verbatim>\<open>last_*\<close> keywords: \<open>None\<close> when the header is absent, which drops the line.\<close>

definition last_value :: "render_context \<Rightarrow> string \<Rightarrow> string option" where
  "last_value c key =
     (let header = strings_TrimPrefix key ''last_''
      in if strings_EqualFold header ''message'' then Some (LastMessage c)
         else if strings_EqualFold header ''Request_URI''
         then Some (extractLastRequestURI (LastMessage c) (LastHeaders c))
         else
           let includeName = strings_HasSuffix header '':'';
               name = strings_TrimSuffix header '':''
           in map_option (\<lambda>values. renderLastHeader name values includeName) (lookupHeader (LastHeaders c) name))"

definition field_token :: "render_env \<Rightarrow> render_context \<Rightarrow> string \<Rightarrow> string option" where
  "field_token env c key =
     renderFieldTokenWithVariables (os_ReadFile env) key (BasePath c) (CallNumber c) (Variables c)
       (CSVFieldOverrides c) (InjectionFile c)"

text \<open>The lenient resolver gives replacement, \<^verbatim>\<open>ok\<close> and \<^verbatim>\<open>drop\<close>.\<close>

definition resolveToken :: "render_env \<Rightarrow> render_context \<Rightarrow> string \<Rightarrow> string \<times> bool \<times> bool" where
  "resolveToken env c token =
     (let key = token_key token
      in if strings_HasPrefix (strings_ToLower key) ''file '' then
           (case renderFileToken (os_ReadFile env) key (BasePath c) of
              Some value \<Rightarrow> (value, True, False) | None \<Rightarrow> ([], False, False))
         else case field_token env c key of
           Some field \<Rightarrow> (field, True, False)
         | None \<Rightarrow>
             (case renderFillToken key (Variables c) of
                Some value \<Rightarrow> (value, True, False)
              | None \<Rightarrow>
                  if strings_HasPrefix (strings_ToLower key) ''last_'' then
                    (case last_value c key of
                       None \<Rightarrow> ([], False, True) | Some v \<Rightarrow> (v, True, False))
                  else
                    let (base, delta) = parseArithmetic key
                    in case keyword_value env c base delta of
                         Some v \<Rightarrow> (v, True, False)
                       | None \<Rightarrow>
                           if strings_HasPrefix base ''$'' then
                             (case Variables c (strings_TrimPrefix base ''$'') of
                                Some v \<Rightarrow> (v, True, False) | None \<Rightarrow> ([], False, False))
                           else (case ExtraKeywords c key of
                                   Some v \<Rightarrow> (v, True, False) | None \<Rightarrow> ([], False, False))))"

datatype render_error = BadFile string | BadField string | BadFill string | UnsupportedKeyword string

text \<open>The strict resolver gives replacement and \<^verbatim>\<open>drop\<close>, or an error.\<close>

definition resolveTokenStrict ::
  "render_env \<Rightarrow> render_context \<Rightarrow> string \<Rightarrow> (render_error, string \<times> bool) result" where
  "resolveTokenStrict env c token =
     (let key = token_key token; lower = strings_ToLower key
      in if strings_HasPrefix lower ''file '' then
           (case renderFileToken (os_ReadFile env) key (BasePath c) of
              Some value \<Rightarrow> Inr (value, False) | None \<Rightarrow> Inl (BadFile token))
         else if strings_HasPrefix lower ''field'' then
           (case field_token env c key of
              Some value \<Rightarrow> Inr (value, False) | None \<Rightarrow> Inl (BadField token))
         else if strings_HasPrefix lower ''fill'' then
           (case renderFillToken key (Variables c) of
              Some value \<Rightarrow> Inr (value, False) | None \<Rightarrow> Inl (BadFill token))
         else if strings_HasPrefix lower ''last_'' then
           (case last_value c key of None \<Rightarrow> Inr ([], True) | Some v \<Rightarrow> Inr (v, False))
         else
           let (base, delta) = parseArithmetic key
           in case keyword_value env c base delta of
                Some v \<Rightarrow> Inr (v, False)
              | None \<Rightarrow>
                  if strings_HasPrefix base ''$''
                  then Inr (map_get (Variables c) (strings_TrimPrefix base ''$''), False)
                  else (case ExtraKeywords c key of
                          Some v \<Rightarrow> Inr (v, False) | None \<Rightarrow> Inl (UnsupportedKeyword token)))"

section \<open>Rendering\<close>

function expandTokens :: "(string \<Rightarrow> string \<times> bool \<times> bool) \<Rightarrow> string \<Rightarrow> string \<times> bool" where
  "expandTokens resolve line =
     (case line of
        [] \<Rightarrow> ([], False)
      | c # t \<Rightarrow>
          (case (if c = CHR ''['' then strings_IndexByte t CHR '']'' else None) of
             None \<Rightarrow> (case expandTokens resolve t of (out, dropLine) \<Rightarrow> (c # out, dropLine))
           | Some e \<Rightarrow>
               (case resolve (c # take (Suc e) t) of
                  (rep, ok, drop') \<Rightarrow>
                    (case expandTokens resolve (drop (Suc e) t) of
                       (out, dropLine) \<Rightarrow> ((if ok then rep else []) @ out, drop' \<or> dropLine)))))"
  by pat_completeness auto
termination
  by (relation "measure (\<lambda>(r, s). length s)") auto

declare expandTokens.simps [simp del]

definition renderLine :: "render_env \<Rightarrow> render_context \<Rightarrow> string \<Rightarrow> string option" where
  "renderLine env c line =
     (case expandTokens (resolveToken env c) line of
        (value, dropLine) \<Rightarrow>
          if dropLine then None
          else if strings_TrimSpace value = [] \<and> line \<noteq> [] then None
          else Some value)"

text \<open>The lines that are kept, joined by CRLF, with a final CRLF where there is a body.\<close>

definition finish_text :: "string list \<Rightarrow> string" where
  "finish_text values =
     (let result = strings_Join values CRLF
      in if strings_Contains result (CRLF @ CRLF) \<and> \<not> strings_HasSuffix result CRLF
         then result @ CRLF else result)"

definition Render :: "render_env \<Rightarrow> render_context \<Rightarrow> string \<Rightarrow> string" where
  "Render env c raw = finish_text (List.map_filter (renderLine env c) (splitLinesTo raw))"

text \<open>The two passes read the outside world twice: \<open>env1\<close> and \<open>env2\<close>.\<close>

definition RenderMessage :: "render_env \<Rightarrow> render_env \<Rightarrow> string \<Rightarrow> render_context \<Rightarrow> string" where
  "RenderMessage env1 env2 raw ctx =
     (if \<not> hasLenToken raw then Render env1 ctx raw
      else
        let first = Render env1 ctx raw
        in Render env2 (ctx\<lparr>BodyLength := computeBodyLength first\<rparr>) raw)"

text \<open>The strict expansion keeps the first error and resolves the remaining tokens all the same.\<close>

function expandTokensStrict ::
  "(string \<Rightarrow> (render_error, string \<times> bool) result) \<Rightarrow> string \<Rightarrow> string \<times> bool \<times> render_error option" where
  "expandTokensStrict resolve line =
     (case line of
        [] \<Rightarrow> ([], False, None)
      | c # t \<Rightarrow>
          (case (if c = CHR ''['' then strings_IndexByte t CHR '']'' else None) of
             None \<Rightarrow>
               (case expandTokensStrict resolve t of (out, dropLine, e) \<Rightarrow> (c # out, dropLine, e))
           | Some i \<Rightarrow>
               (case expandTokensStrict resolve (drop (Suc i) t) of
                  (out, dropLine, e) \<Rightarrow>
                    (case resolve (c # take (Suc i) t) of
                       Inl err \<Rightarrow> (out, dropLine, Some err)
                     | Inr (rep, drop') \<Rightarrow> (rep @ out, drop' \<or> dropLine, e)))))"
  by pat_completeness auto
termination
  by (relation "measure (\<lambda>(r, s). length s)") auto

declare expandTokensStrict.simps [simp del]

definition renderLineStrict ::
  "render_env \<Rightarrow> render_context \<Rightarrow> string \<Rightarrow> (render_error, string option) result" where
  "renderLineStrict env c line =
     (case expandTokensStrict (resolveTokenStrict env c) line of
        (value, dropLine, firstErr) \<Rightarrow>
          (case firstErr of
             Some e \<Rightarrow> Inl e
           | None \<Rightarrow>
               if dropLine then Inr None
               else if strings_TrimSpace value = [] \<and> line \<noteq> [] then Inr None
               else Inr (Some value)))"

fun render_lines_strict ::
  "render_env \<Rightarrow> render_context \<Rightarrow> string list \<Rightarrow> (render_error, string list) result" where
  "render_lines_strict env c [] = Inr []"
| "render_lines_strict env c (line # rest) =
     (case renderLineStrict env c line of
        Inl e \<Rightarrow> Inl e
      | Inr v \<Rightarrow>
          (case render_lines_strict env c rest of
             Inl e \<Rightarrow> Inl e
           | Inr vs \<Rightarrow> Inr (case v of None \<Rightarrow> vs | Some x \<Rightarrow> x # vs)))"

definition RenderStrict :: "render_env \<Rightarrow> render_context \<Rightarrow> string \<Rightarrow> (render_error, string) result" where
  "RenderStrict env c raw =
     (case render_lines_strict env c (splitLinesTo raw) of
        Inl e \<Rightarrow> Inl e
      | Inr values \<Rightarrow> Inr (finish_text values))"

definition RenderMessageStrict ::
  "render_env \<Rightarrow> render_env \<Rightarrow> string \<Rightarrow> render_context \<Rightarrow> (render_error, string) result" where
  "RenderMessageStrict env1 env2 raw ctx =
     (if \<not> hasLenToken raw then RenderStrict env1 ctx raw
      else
        case RenderStrict env1 ctx raw of
          Inl e \<Rightarrow> Inl e
        | Inr first \<Rightarrow> RenderStrict env2 (ctx\<lparr>BodyLength := computeBodyLength first\<rparr>) raw)"

section \<open>Strict and lenient rendering agree\<close>

lemma field_token_prefix: "\<not> strings_HasPrefix (strings_ToLower key) ''field'' \<Longrightarrow> field_token env c key = None"
  by (simp add: field_token_def renderFieldTokenWithVariables_def)

lemma fill_token_prefix: "\<not> strings_HasPrefix (strings_ToLower key) ''fill'' \<Longrightarrow> renderFillToken key vs = None"
  by (simp add: renderFillToken_def)

lemma prefix_exclusive:
  "strings_HasPrefix s ''fill'' \<Longrightarrow> \<not> strings_HasPrefix s ''field''"
  by (auto simp: HasPrefix_iff)

lemma resolveToken_strict:
  assumes "resolveTokenStrict env c token = Inr (rep, d)"
  shows "\<exists>ok. resolveToken env c token = (if ok then rep else [], ok, d) \<and> (\<not> ok \<longrightarrow> rep = [])"
proof -
  let ?key = "token_key token"
  obtain base delta where ar: "parseArithmetic ?key = (base, delta)" by fastforce
  show ?thesis
    using assms field_token_prefix [of ?key env c] fill_token_prefix [of ?key "Variables c"]
      prefix_exclusive [of "strings_ToLower ?key"]
    unfolding resolveTokenStrict_def resolveToken_def Let_def ar prod.case
    by (cases "keyword_value env c base delta") (auto simp: map_get_def split: if_splits option.splits)
qed

lemma expandTokens_strict:
  assumes res: "\<And>tok rep d. rs tok = Inr (rep, d) \<Longrightarrow>
      \<exists>ok. r tok = (if ok then rep else [], ok, d) \<and> (\<not> ok \<longrightarrow> rep = [])"
  shows "expandTokensStrict rs line = (v, d, None) \<Longrightarrow> expandTokens r line = (v, d)"
proof (induction line arbitrary: v d rule: length_induct)
  case (1 line)
  show ?case
  proof (cases line)
    case Nil
    with "1.prems" show ?thesis by (simp add: expandTokens.simps [of r] expandTokensStrict.simps [of rs])
  next
    case (Cons c t)
    show ?thesis
    proof (cases "if c = CHR ''['' then strings_IndexByte t CHR '']'' else None")
      case None
      obtain out dl e where t: "expandTokensStrict rs t = (out, dl, e)" by (cases "expandTokensStrict rs t")
      with "1.prems" Cons None have "e = None" "v = c # out" "d = dl"
        by (auto simp: expandTokensStrict.simps [of rs "c # t"])
      with t "1.IH" Cons have "expandTokens r t = (out, dl)" by simp
      with Cons None \<open>v = c # out\<close> \<open>d = dl\<close> show ?thesis by (simp add: expandTokens.simps [of r "c # t"])
    next
      case (Some i)
      let ?rest = "drop (Suc i) t" and ?tok = "c # take (Suc i) t"
      obtain out dl e where t: "expandTokensStrict rs ?rest = (out, dl, e)"
        by (cases "expandTokensStrict rs ?rest")
      with "1.prems" Cons Some obtain rep d' where tok: "rs ?tok = Inr (rep, d')"
        and e: "e = None" "v = rep @ out" "d \<longleftrightarrow> d' \<or> dl"
        by (auto simp: expandTokensStrict.simps [of rs "c # t"] split: sum.splits)
      from t e(1) "1.IH" Cons have "expandTokens r ?rest = (out, dl)" by simp
      with res [OF tok] Cons Some e show ?thesis by (auto simp: expandTokens.simps [of r "c # t"])
    qed
  qed
qed

lemma renderLine_strict: "renderLineStrict env c line = Inr v \<Longrightarrow> renderLine env c line = v"
proof -
  assume prem: "renderLineStrict env c line = Inr v"
  obtain val d e where x: "expandTokensStrict (resolveTokenStrict env c) line = (val, d, e)"
    by (cases "expandTokensStrict (resolveTokenStrict env c) line")
  with prem have "e = None" by (auto simp: renderLineStrict_def split: option.splits)
  then have "expandTokens (resolveToken env c) line = (val, d)"
    using x by (intro expandTokens_strict [OF resolveToken_strict]) auto
  with prem x show ?thesis
    by (auto simp: renderLineStrict_def renderLine_def split: option.splits if_splits)
qed

lemma render_lines_strict_ok:
  "render_lines_strict env c ls = Inr vs \<Longrightarrow> vs = List.map_filter (renderLine env c) ls"
proof (induction ls arbitrary: vs)
  case (Cons l ls)
  then show ?case
    by (auto simp: map_filter_simps split: sum.splits option.splits dest!: renderLine_strict)
qed (simp add: map_filter_simps)

lemma RenderStrict_ok: "RenderStrict env c raw = Inr s \<Longrightarrow> Render env c raw = s"
  by (auto simp: RenderStrict_def Render_def split: sum.splits dest: render_lines_strict_ok)

section \<open>Rendering without a length keyword\<close>

lemma arithmetic_from_prefix: "\<exists>t'. base @ t = fst (arithmetic_from base t) @ t'"
proof (induction base t rule: arithmetic_from.induct)
  case (2 base c t)
  then show ?case by (auto split: prod.splits option.splits)
qed simp

lemma parseArithmetic_prefix: "\<exists>t. key = fst (parseArithmetic key) @ t"
proof (cases key)
  case (Cons c t)
  then show ?thesis using arithmetic_from_prefix [of "[c]" t] by (simp add: parseArithmetic_def)
qed (simp add: parseArithmetic_def)

lemma keyword_table_len:
  "keyword_table env (c\<lparr>BodyLength := n\<rparr>) delta =
   map (\<lambda>(k, v). (k, if k = ''len'' then strconv_Itoa (wrap64 (n + delta)) else v)) (keyword_table env c delta)"
  by (simp add: keyword_table_def extra_transport_def cong: option.case_cong)

lemma keyword_value_len:
  assumes "strings_ToLower base \<noteq> ''len''"
  shows "keyword_value env (c\<lparr>BodyLength := n\<rparr>) base delta = keyword_value env c base delta"
proof -
  have "map_of (map (\<lambda>(k, v). (k, if k = a then x else v)) xs) k = map_of xs k" if "k \<noteq> a"
    for a k :: string and x :: string and xs
    using that by (induction xs) auto
  with assms show ?thesis by (simp add: keyword_value_def keyword_table_len)
qed

lemma lower_char_eq:
  "lower_char x = CHR ''l'' \<longleftrightarrow> x = CHR ''l'' \<or> x = CHR ''L''"
  "lower_char x = CHR ''e'' \<longleftrightarrow> x = CHR ''e'' \<or> x = CHR ''E''"
  "lower_char x = CHR ''n'' \<longleftrightarrow> x = CHR ''n'' \<or> x = CHR ''N''"
  by (cases x; auto simp: lower_char_def Let_def split: if_splits)+

lemma hasLen_base:
  assumes "strings_ToLower base = ''len''"
  shows "hasLenToken (CHR ''['' # base @ t)"
proof -
  from assms obtain x y z where "base = [x, y, z]" "lower_char x = CHR ''l''" "lower_char y = CHR ''e''"
    "lower_char z = CHR ''n''"
    by (auto simp: strings_ToLower_def map_eq_Cons_conv)
  then show ?thesis by (simp add: lower_char_eq)
qed

lemma hasLen_append: "hasLenToken b \<Longrightarrow> hasLenToken (b @ c)"
proof (induction b)
  case (Cons x b)
  have "hasLenToken b \<or> (3 \<le> length b \<and> x = CHR ''['' \<and> (b ! 0 = CHR ''l'' \<or> b ! 0 = CHR ''L'')
        \<and> (b ! 1 = CHR ''e'' \<or> b ! 1 = CHR ''E'') \<and> (b ! 2 = CHR ''n'' \<or> b ! 2 = CHR ''N''))"
    using Cons.prems by auto
  then show ?case using Cons.IH by (auto simp: nth_append)
qed simp

lemma hasLen_prepend: "hasLenToken b \<Longrightarrow> hasLenToken (a @ b)"
  by (induction a) auto

lemma TrimPrefix_bracket [simp]: "strings_TrimPrefix (CHR ''['' # s) ''['' = s"
  by (simp add: strings_TrimPrefix_def strings_HasPrefix_def)

lemma TrimSuffix_snoc [simp]: "strings_TrimSuffix (s @ [c]) [c] = s"
  by (simp add: strings_TrimSuffix_def strings_HasSuffix_def strings_HasPrefix_def)

lemma token_key_brackets: "token_key (CHR ''['' # k @ '']'') = k"
  by (simp add: token_key_def)

lemma resolveToken_len:
  assumes "\<not> hasLenToken (CHR ''['' # k @ '']'')"
  shows "resolveToken env (c\<lparr>BodyLength := n\<rparr>) (CHR ''['' # k @ '']'') = resolveToken env c (CHR ''['' # k @ '']'')"
proof -
  obtain base delta where ar: "parseArithmetic k = (base, delta)" by fastforce
  then obtain t where "k = base @ t" using parseArithmetic_prefix [of k] by auto
  then have "strings_ToLower base \<noteq> ''len''" using assms hasLen_base [of base "t @ '']''"] by auto
  then have "keyword_value env (c\<lparr>BodyLength := n\<rparr>) base delta = keyword_value env c base delta"
    by (rule keyword_value_len)
  then show ?thesis
    by (simp add: resolveToken_def token_key_brackets ar field_token_def last_value_def Let_def
        cong: option.case_cong)
qed

lemma expandTokens_len:
  assumes "\<And>k. \<not> hasLenToken (CHR ''['' # k @ '']'') \<Longrightarrow> r (CHR ''['' # k @ '']'') = r' (CHR ''['' # k @ '']'')"
  shows "\<not> hasLenToken line \<Longrightarrow> expandTokens r line = expandTokens r' line"
proof (induction line rule: length_induct)
  case (1 line)
  show ?case
  proof (cases line)
    case Nil
    then show ?thesis by (simp add: expandTokens.simps)
  next
    case (Cons c t)
    have sub: "\<not> hasLenToken t" using "1.prems" Cons by simp
    show ?thesis
    proof (cases "if c = CHR ''['' then strings_IndexByte t CHR '']'' else None")
      case None
      have "expandTokens r t = expandTokens r' t" using "1.IH" sub Cons by simp
      with Cons None show ?thesis by (simp add: expandTokens.simps [of _ "c # t"])
    next
      case (Some i)
      then have c: "c = CHR ''[''" and i: "strings_IndexByte t CHR '']'' = Some i" by (auto split: if_splits)
      from IndexByte_Some [OF i] have tok: "take (Suc i) t = take i t @ '']''"
        by (simp add: take_Suc_conv_app_nth)
      have t: "t = take (Suc i) t @ drop (Suc i) t" by simp
      have "\<not> hasLenToken (c # take (Suc i) t)"
        using "1.prems" Cons hasLen_append [of "c # take (Suc i) t" "drop (Suc i) t"] by auto
      then have "r (c # take (Suc i) t) = r' (c # take (Suc i) t)" using assms c tok by simp
      moreover have "\<not> hasLenToken (drop (Suc i) t)"
        using sub hasLen_prepend [of "drop (Suc i) t" "take (Suc i) t"] by auto
      then have "expandTokens r (drop (Suc i) t) = expandTokens r' (drop (Suc i) t)"
        using "1.IH" Cons by simp
      ultimately show ?thesis using Cons Some by (simp add: expandTokens.simps [of _ "c # t"])
    qed
  qed
qed

lemma renderLine_len:
  assumes "\<not> hasLenToken line"
  shows "renderLine env (c\<lparr>BodyLength := n\<rparr>) line = renderLine env c line"
proof -
  have "expandTokens (resolveToken env (c\<lparr>BodyLength := n\<rparr>)) line = expandTokens (resolveToken env c) line"
    using assms by (rule expandTokens_len [rotated]) (rule resolveToken_len)
  then show ?thesis by (simp add: renderLine_def)
qed

abbreviation rendered :: "render_env \<Rightarrow> render_context \<Rightarrow> string list \<Rightarrow> string list" where
  "rendered env c ls \<equiv> List.map_filter (renderLine env c) ls"

lemma rendered_len:
  "\<forall>l \<in> set ls. \<not> hasLenToken l \<Longrightarrow> rendered env (c\<lparr>BodyLength := n\<rparr>) ls = rendered env c ls"
  by (induction ls) (auto simp: map_filter_simps renderLine_len split: option.splits)

lemma rendered_append: "rendered env c (as @ bs) = rendered env c as @ rendered env c bs"
  by (induction as) (auto simp: map_filter_simps split: option.splits)

lemma rendered_blank: "rendered env c ([] # ls) = [] # rendered env c ls"
  by (simp add: map_filter_simps renderLine_def expandTokens.simps)

section \<open>The header and the body\<close>

text \<open>The text before the blank line does not itself hold one.\<close>

definition head_ok :: "string \<Rightarrow> bool" where
  "head_ok h \<longleftrightarrow> \<not> strings_Contains h (CRLF @ CRLF) \<and> (h \<noteq> [] \<longrightarrow> last h \<noteq> LF)"

lemma Index_None_tail: "strings_Index (c # t) sub = None \<Longrightarrow> strings_Index t sub = None"
  by (auto split: if_splits)

lemma head_ok_tail: "head_ok (c # t) \<Longrightarrow> head_ok t"
  by (auto simp: head_ok_def strings_Contains_def dest: Index_None_tail split: if_splits)

lemma head_ok_no_prefix:
  assumes "head_ok (c # h)"
  shows "\<not> strings_HasPrefix (c # h @ CRLF @ CRLF @ t) (CRLF @ CRLF)"
proof
  assume p: "strings_HasPrefix (c # h @ CRLF @ CRLF @ t) (CRLF @ CRLF)"
  show False
  proof (cases "3 \<le> length h")
    case True
    then obtain d e f h' where h: "h = d # e # f # h'"
      by (metis Suc_le_length_iff numeral_3_eq_3)
    with p have "strings_HasPrefix (c # h) (CRLF @ CRLF)" by (simp add: strings_HasPrefix_def)
    with assms show False by (simp add: head_ok_def strings_Contains_def)
  next
    case False
    then consider "h = []" | d where "h = [d]" | d e where "h = [d, e]"
      by (cases h; cases "tl h"; cases "tl (tl h)") auto
    then show False
    proof cases
      case 2
      with p have "d = LF" by (simp add: strings_HasPrefix_def)
      with 2 assms show False by (simp add: head_ok_def)
    qed (use p in \<open>simp_all add: strings_HasPrefix_def\<close>)
  qed
qed

lemma Index_head: "head_ok h \<Longrightarrow> strings_Index (h @ CRLF @ CRLF @ t) (CRLF @ CRLF) = Some (length h)"
proof (induction h)
  case Nil
  then show ?case by (simp add: strings_HasPrefix_def)
next
  case (Cons c h)
  then show ?case using head_ok_no_prefix [of c h t] head_ok_tail [of c h] by simp
qed

lemma computeBodyLength_head: "head_ok h \<Longrightarrow> computeBodyLength (h @ CRLF @ CRLF @ t) = int (length t)"
  using Index_head [of h t] by (simp add: computeBodyLength_def)

text \<open>The body as it is sent: a final CRLF is added unless the text ends with one.\<close>

definition body_text :: "string list \<Rightarrow> string" where
  "body_text bs =
     (let b = strings_Join bs CRLF
      in if strings_HasSuffix (CRLF @ CRLF @ b) CRLF then b else b @ CRLF)"

lemma Join_blank:
  assumes "hs \<noteq> []" and "bs \<noteq> []"
  shows "strings_Join (hs @ [] # bs) CRLF = strings_Join hs CRLF @ CRLF @ CRLF @ strings_Join bs CRLF"
  using assms(1)
proof (induction hs CRLF rule: strings_Join.induct)
  case (2 x)
  then show ?case using assms(2) by (cases bs) auto
qed auto

lemma HasSuffix_append: "length p \<le> length b \<Longrightarrow> strings_HasSuffix (a @ b) p \<longleftrightarrow> strings_HasSuffix b p"
  by (simp add: strings_HasSuffix_def strings_HasPrefix_def)

lemma finish_text_body:
  assumes "hs \<noteq> []" and "bs \<noteq> []" and "head_ok (strings_Join hs CRLF)"
  shows "finish_text (hs @ [] # bs) = strings_Join hs CRLF @ CRLF @ CRLF @ body_text bs"
proof -
  let ?h = "strings_Join hs CRLF" and ?b = "strings_Join bs CRLF"
  have "strings_Contains (?h @ CRLF @ CRLF @ ?b) (CRLF @ CRLF)"
    unfolding strings_Contains_def Index_head [OF assms(3)] by simp
  moreover have "strings_HasSuffix (?h @ CRLF @ CRLF @ ?b) CRLF \<longleftrightarrow> strings_HasSuffix (CRLF @ CRLF @ ?b) CRLF"
    by (rule HasSuffix_append) simp
  ultimately show ?thesis
    unfolding finish_text_def Join_blank [OF assms(1,2)] body_text_def Let_def by simp
qed

lemma Render_body:
  assumes "splitLinesTo raw = hl @ [] # bl" and "rendered env c hl \<noteq> []" and "rendered env c bl \<noteq> []"
    and "head_ok (strings_Join (rendered env c hl) CRLF)"
  shows "Render env c raw = strings_Join (rendered env c hl) CRLF @ CRLF @ CRLF @ body_text (rendered env c bl)"
  unfolding Render_def assms(1) rendered_append rendered_blank
  using assms(2-4) by (rule finish_text_body)

text \<open>Non-empty lines joined by CRLF hold no blank line.\<close>

lemma Index_line:
  "LF \<notin> set x \<Longrightarrow> strings_Index j (CRLF @ CRLF) = None \<Longrightarrow> \<not> strings_HasPrefix j CRLF \<Longrightarrow>
   strings_Index (x @ CRLF @ j) (CRLF @ CRLF) = None"
proof (induction x)
  case (Cons c x)
  then have "\<not> strings_HasPrefix (c # x @ CRLF @ j) (CRLF @ CRLF)"
    by (cases x) (auto simp: strings_HasPrefix_def)
  with Cons show ?case by simp
qed (simp add: strings_HasPrefix_def)

lemma Index_no_LF: "LF \<notin> set x \<Longrightarrow> strings_Index x (CRLF @ CRLF) = None"
proof (induction x)
  case (Cons c x)
  then have "\<not> strings_HasPrefix (c # x) (CRLF @ CRLF)" by (cases x) (auto simp: strings_HasPrefix_def)
  with Cons show ?case by simp
qed simp

lemma head_ok_lines:
  "\<forall>l \<in> set hs. l \<noteq> [] \<and> LF \<notin> set l \<Longrightarrow>
   head_ok (strings_Join hs CRLF) \<and> \<not> strings_HasPrefix (strings_Join hs CRLF) CRLF"
proof (induction hs CRLF rule: strings_Join.induct)
  case 1
  then show ?case by (simp add: head_ok_def strings_Contains_def strings_HasPrefix_def)
next
  case (2 x)
  then have "last x \<noteq> LF" by (metis last_in_set list.set_intros(1))
  moreover have "strings_Index x (CRLF @ CRLF) = None" using 2 by (intro Index_no_LF) simp
  moreover have "\<not> strings_HasPrefix x CRLF"
    using 2 by (cases x; cases "tl x") (auto simp: strings_HasPrefix_def)
  ultimately show ?case by (simp add: head_ok_def strings_Contains_def)
next
  case (3 x y ys)
  let ?j = "strings_Join (y # ys) CRLF"
  have j: "head_ok ?j" "\<not> strings_HasPrefix ?j CRLF" using 3 by auto
  have x: "x \<noteq> []" "LF \<notin> set x" using "3.prems" by auto
  have "?j \<noteq> []" using "3.prems" by (cases ys) auto
  then have "last (x @ CRLF @ ?j) = last ?j" by simp
  moreover have "strings_Index (x @ CRLF @ ?j) (CRLF @ CRLF) = None"
    using Index_line [OF x(2)] j by (simp add: head_ok_def strings_Contains_def)
  moreover have "\<not> strings_HasPrefix (x @ CRLF @ ?j) CRLF"
    using x by (cases x; cases "tl x") (auto simp: strings_HasPrefix_def)
  ultimately show ?case using j \<open>?j \<noteq> []\<close> by (simp add: head_ok_def strings_Contains_def)
qed

section \<open>Properties\<close>

text \<open>
  Strict and lenient rendering differ in errors only: when \<^verbatim>\<open>RenderMessageStrict\<close>
  accepts a template, \<^verbatim>\<open>RenderMessage\<close> gives the same message, for every context and environment.
\<close>
lemma RenderMessageStrict_agrees:
  assumes "RenderMessageStrict env1 env2 raw ctx = Inr s"
  shows "RenderMessage env1 env2 raw ctx = s"
  using assms RenderStrict_ok
  by (auto simp: RenderMessageStrict_def RenderMessage_def Let_def split: if_splits sum.splits)

definition sample_env :: render_env where
  "sample_env = \<lparr>os_ReadFile = Map.empty, now_timestamp = [], now_date = []\<rparr>"

definition sample_context :: render_context where
  "sample_context =
     \<lparr>Service = ''bob'', Transport = ''u1'', RemoteHost = ''host'', RemoteIP = ''10.0.0.2'', RemotePort = 5060,
      LocalIP = ''10.0.0.1'', ServerIP = [], LocalIPType = ''4'', LocalPort = 5061, MediaIP = ''10.0.0.1'',
      MediaIPType = ''4'', MediaPort = 6000, IceUfrag = [], IcePwd = [], CallID = ''1-2@h'', CSeq = 1,
      CallNumber = 1, MessageIndex = 0, PID = 7, Users = 0, UserID = 0, BranchBase = ''z9hG4bK-1'',
      LastMessage = [], LastHeaders = [], BodyLength = 0, SIPpVersion = [], ClockTick = 0, DynamicID = 0,
      ExtraKeywords = Map.empty, Variables = Map.empty, CSVFieldOverrides = None, BasePath = [],
      InjectionFile = []\<rparr>"

definition sample_template :: string where
  "sample_template = ''OPTIONS sip:[service] SIP/2.0'' @ [LF] @ ''CSeq: [cseq+1] OPTIONS'' @ [LF]
     @ ''Content-Length: [len]'' @ [LF] @ [LF] @ ''o=[local_ip]'' @ [LF]"

definition sample_output :: string where
  "sample_output = ''OPTIONS sip:bob SIP/2.0'' @ CRLF @ ''CSeq: 2 OPTIONS'' @ CRLF
     @ ''Content-Length: 12'' @ CRLF @ CRLF @ ''o=10.0.0.1'' @ CRLF"

lemma sample_strict: "RenderMessageStrict sample_env sample_env sample_template sample_context = Inr sample_output"
  by code_simp

text \<open>
  C14: The two passes agree on the body: for a template with header lines \<open>hl\<close>, a blank line and
  body lines \<open>bl\<close> that do not use the length keyword, the second pass renders the header with
  \<^verbatim>\<open>[len]\<close> equal to the number of bytes that follow the blank line in the final message.
\<close>
theorem RenderMessage_body_length:
  assumes "splitLinesTo raw = hl @ [] # bl" and "hasLenToken raw"
    and "\<forall>l \<in> set bl. \<not> hasLenToken l" and "rendered env ctx bl \<noteq> []"
    and "\<And>n. rendered env (ctx\<lparr>BodyLength := n\<rparr>) hl \<noteq> []"
    and "\<And>n. head_ok (strings_Join (rendered env (ctx\<lparr>BodyLength := n\<rparr>) hl) CRLF)"
  shows "\<exists>body. RenderMessage env env raw ctx =
      strings_Join (rendered env (ctx\<lparr>BodyLength := int (length body)\<rparr>) hl) CRLF @ CRLF @ CRLF @ body
    \<and> computeBodyLength (RenderMessage env env raw ctx) = int (length body)"
proof -
  let ?body = "body_text (rendered env ctx bl)"
  have pass: "Render env (ctx\<lparr>BodyLength := n\<rparr>) raw =
      strings_Join (rendered env (ctx\<lparr>BodyLength := n\<rparr>) hl) CRLF @ CRLF @ CRLF @ ?body" for n
    using Render_body [OF assms(1) assms(5), of n] assms(6) [of n] assms(4)
    unfolding rendered_len [OF assms(3)] by blast
  have "computeBodyLength (Render env ctx raw) = int (length ?body)"
    using pass [of "BodyLength ctx"] computeBodyLength_head [OF assms(6) [of "BodyLength ctx"]] by simp
  then have "RenderMessage env env raw ctx = Render env (ctx\<lparr>BodyLength := int (length ?body)\<rparr>) raw"
    using assms(2) by (simp add: RenderMessage_def Let_def)
  then have rm: "RenderMessage env env raw ctx =
      strings_Join (rendered env (ctx\<lparr>BodyLength := int (length ?body)\<rparr>) hl) CRLF @ CRLF @ CRLF @ ?body"
    unfolding pass .
  have "computeBodyLength (RenderMessage env env raw ctx) = int (length ?body)"
    unfolding rm by (rule computeBodyLength_head [OF assms(6)])
  with rm show ?thesis by blast
qed

lemma renderLine_plain:
  "CHR ''['' \<notin> set l \<Longrightarrow> expandTokens r l = (l, False)"
  by (induction l) (auto simp: expandTokens.simps [of r "_ # _"] expandTokens.simps [of r "[]"])

lemma expandTokens_skip:
  "CHR ''['' \<notin> set p \<Longrightarrow> expandTokens r (p @ s) = (case expandTokens r s of (out, d) \<Rightarrow> (p @ out, d))"
  by (induction p) (auto simp: expandTokens.simps [of r "_ # _"] split: prod.splits)

lemma resolve_len: "resolveToken env c ''[len]'' = (strconv_Itoa (wrap64 (BodyLength c)), True, False)"
proof -
  have "parseArithmetic ''len'' = (''len'', 0)" "token_key ''[len]'' = ''len''" by code_simp+
  moreover have "field_token env c ''len'' = None"
    by (rule field_token_prefix) code_simp
  moreover have "renderFillToken ''len'' vs = None" for vs
    by (rule fill_token_prefix) code_simp
  moreover have "\<not> strings_HasPrefix (strings_ToLower ''len'') ''file ''"
    "\<not> strings_HasPrefix (strings_ToLower ''len'') ''last_''" "strings_ToLower ''len'' = ''len''" by code_simp+
  moreover have "keyword_value env c ''len'' 0 = Some (strconv_Itoa (wrap64 (BodyLength c)))"
    unfolding keyword_value_def \<open>strings_ToLower ''len'' = ''len''\<close> by (simp add: keyword_table_def)
  ultimately show ?thesis by (simp add: resolveToken_def)
qed

lemma renderLine_content_length:
  "renderLine env c ''Content-Length: [len]'' = Some (''Content-Length: '' @ strconv_Itoa (wrap64 (BodyLength c)))"
proof -
  let ?v = "strconv_Itoa (wrap64 (BodyLength c))"
  have "expandTokens (resolveToken env c) ''[len]'' = (?v, False)"
    by (simp add: expandTokens.simps [of _ "_ # _"] expandTokens.simps [of _ "[]"] resolve_len)
  then have "expandTokens (resolveToken env c) (''Content-Length: '' @ ''[len]'') = (''Content-Length: '' @ ?v, False)"
    by (subst expandTokens_skip) simp_all
  moreover have "CHR ''C'' \<in> set (strings_TrimSpace (''Content-Length: '' @ ?v))"
    by (rule TrimSpace_keep) (simp_all add: space_runes_def)
  then have "strings_TrimSpace (''Content-Length: '' @ ?v) \<noteq> []" by auto
  ultimately show ?thesis by (simp add: renderLine_def)
qed

theorem RenderMessage_body_length_witness:
  "\<exists>body. RenderMessage sample_env sample_env sample_template sample_context =
     strings_Join [''OPTIONS sip:bob SIP/2.0'', ''CSeq: 2 OPTIONS'',
       ''Content-Length: '' @ strconv_Itoa (wrap64 (int (length body)))] CRLF @ CRLF @ CRLF @ body"
proof -
  let ?hl = "[''OPTIONS sip:[service] SIP/2.0'', ''CSeq: [cseq+1] OPTIONS'', ''Content-Length: [len]'']"
  have split: "splitLinesTo sample_template = ?hl @ [] # [''o=[local_ip]'']" by code_simp
  have len: "hasLenToken sample_template" "\<not> hasLenToken ''o=[local_ip]''"
    "\<not> hasLenToken ''OPTIONS sip:[service] SIP/2.0''" "\<not> hasLenToken ''CSeq: [cseq+1] OPTIONS''" by code_simp+
  have r: "renderLine sample_env sample_context ''OPTIONS sip:[service] SIP/2.0'' = Some ''OPTIONS sip:bob SIP/2.0''"
    "renderLine sample_env sample_context ''CSeq: [cseq+1] OPTIONS'' = Some ''CSeq: 2 OPTIONS''"
    "renderLine sample_env sample_context ''o=[local_ip]'' = Some ''o=10.0.0.1''" by code_simp+
  have hd: "rendered sample_env (sample_context\<lparr>BodyLength := n\<rparr>) ?hl =
      [''OPTIONS sip:bob SIP/2.0'', ''CSeq: 2 OPTIONS'', ''Content-Length: '' @ strconv_Itoa (wrap64 n)]" for n
    using renderLine_len [OF len(3)] renderLine_len [OF len(4)]
      renderLine_content_length [of sample_env "sample_context\<lparr>BodyLength := n\<rparr>"]
    by (simp add: map_filter_simps r)
  have "LF \<notin> set (strconv_Itoa k)" for k using Itoa_set [of LF k] by auto
  then have lines: "\<forall>l \<in> set (rendered sample_env (sample_context\<lparr>BodyLength := n\<rparr>) ?hl). l \<noteq> [] \<and> LF \<notin> set l" for n
    unfolding hd by simp
  have "\<exists>body. RenderMessage sample_env sample_env sample_template sample_context =
      strings_Join (rendered sample_env (sample_context\<lparr>BodyLength := int (length body)\<rparr>) ?hl) CRLF
        @ CRLF @ CRLF @ body
    \<and> computeBodyLength (RenderMessage sample_env sample_env sample_template sample_context) = int (length body)"
  proof (rule RenderMessage_body_length [OF split len(1)])
    show "rendered sample_env sample_context [''o=[local_ip]''] \<noteq> []" by (simp add: map_filter_simps r)
    show "head_ok (strings_Join (rendered sample_env (sample_context\<lparr>BodyLength := n\<rparr>) ?hl) CRLF)" for n
      using head_ok_lines [OF lines] by blast
  qed (use hd len(2) in simp_all)
  then show ?thesis unfolding hd by blast
qed

end
