(* ===== verification/Outgoing.thy ===== *)
theory Outgoing
  imports Template
begin

text \<open>
  Outgoing SIP messages: the clean-up of the scenario text around rendering (the helpers of
  \<^verbatim>\<open>internal/engine/engine.go\<close>) and digest authentication, \<^verbatim>\<open>internal/engine/auth.go\<close>, from both sides: the
  client that answers a challenge and the server that verifies the answer.  The hash functions MD5 and
  SHA-256 and the random client nonce are parameters; the cache of normalised templates holds the
  values of a pure function and is not modelled, nor is the structured event that is logged.
\<close>

section \<open>Indentation\<close>

definition countLeadingSpaceTab :: "string \<Rightarrow> nat" where
  "countLeadingSpaceTab s = length (takeWhile (\<lambda>c. c = SP \<or> c = TAB) s)"

definition blank :: "string \<Rightarrow> bool" where
  "blank line \<longleftrightarrow> strings_TrimSpace line = []"

text \<open>The least indentation of the lines that count; \<open>None\<close> is the initial \<open>-1\<close>.\<close>

definition min_indent :: "string list \<Rightarrow> nat option" where
  "min_indent lines =
     (case map countLeadingSpaceTab (filter (\<lambda>l. \<not> blank l) lines) of
        [] \<Rightarrow> None
      | n # ns \<Rightarrow> Some (foldl min n ns))"

definition dedentSIPHeaderLines :: "string \<Rightarrow> string \<times> nat" where
  "dedentSIPHeaderLines head =
     (if head = [] then (head, 0)
      else
        let lines = strings_Split head CRLF;
            skipFirst = (\<not> blank (hd lines) \<and> countLeadingSpaceTab (hd lines) = 0)
        in case min_indent (if skipFirst then tl lines else lines) of
             None \<Rightarrow> (head, 0)
           | Some m \<Rightarrow>
               if m = 0 then (head, 0)
               else (strings_Join
                       (map (\<lambda>line. if \<not> blank line \<and> m \<le> countLeadingSpaceTab line then drop m line else line) lines)
                       CRLF, m))"

definition dedentLines :: "string \<Rightarrow> nat \<Rightarrow> string" where
  "dedentLines s n =
     (if s = [] \<or> n = 0 then s
      else strings_Join
             (map (\<lambda>line. if blank line then line else drop (min n (countLeadingSpaceTab line)) line)
               (strings_Split s CRLF)) CRLF)"

definition normalizeSIPScenarioLineIndent :: "string \<Rightarrow> string" where
  "normalizeSIPScenarioLineIndent msg =
     (if msg = [] then msg
      else case strings_Index msg (CRLF @ CRLF) of
             None \<Rightarrow> fst (dedentSIPHeaderLines msg)
           | Some idx \<Rightarrow>
               (case dedentSIPHeaderLines (take idx msg) of
                  (head, stripped) \<Rightarrow>
                    let body = drop (idx + 4) msg
                    in head @ CRLF @ CRLF @ (if 0 < stripped then dedentLines body stripped else body)))"

definition ensureMessageTerminator :: "string \<Rightarrow> string" where
  "ensureMessageTerminator msg =
     (if strings_HasSuffix msg (CRLF @ CRLF) then msg
      else
        let hasBody = strings_Contains msg (CRLF @ CRLF)
        in if strings_HasSuffix msg CRLF then (if hasBody then msg else msg @ CRLF)
           else if hasBody then msg @ CRLF
           else msg @ CRLF @ CRLF)"

section \<open>Digest parameters\<close>

datatype auth_error =
    NoChallenge
  | ChallengeParse sip_error
  | NotChallenge int
  | MissingChallenge string
  | OutgoingParse sip_error
  | NotRequest
  | NotDigest
  | NoRealmOrNonce
  | BadQop string
  | BadAlgorithm string
  | NoRandom
  | BadAuthorization
  | AuthRender render_error
  | MessageParse sip_error

text \<open>\<^verbatim>\<open>current\<close> and \<^verbatim>\<open>quoted\<close> are the state of the loop.\<close>

fun split_params :: "string \<Rightarrow> bool \<Rightarrow> string \<Rightarrow> string list" where
  "split_params cur quoted [] = (if cur = [] then [] else [strings_TrimSpace cur])"
| "split_params cur quoted (c # s) =
     (if c = CHR 0x22 then split_params (cur @ [c]) (\<not> quoted) s
      else if c = CHR '','' \<and> \<not> quoted then strings_TrimSpace cur # split_params [] quoted s
      else split_params (cur @ [c]) quoted s)"

definition splitAuthParams :: "string \<Rightarrow> string list" where
  "splitAuthParams value = split_params [] False value"

text \<open>One parameter: its key in lower case and its value without the quotes around it.\<close>

definition auth_param :: "string \<Rightarrow> (string \<times> string) option" where
  "auth_param param =
     (case strings_Cut param CHR ''='' of
        None \<Rightarrow> None
      | Some (key, rawValue) \<Rightarrow>
          Some (strings_ToLower (strings_TrimSpace key),
                strings_Trim (strings_TrimSpace rawValue) [CHR 0x22]))"

text \<open>The value a parameter ends up with: the last one wins, and an absent one is empty.\<close>

definition param_value :: "(string \<times> string) list \<Rightarrow> string \<Rightarrow> string" where
  "param_value ps key = (case map_of (rev ps) key of None \<Rightarrow> [] | Some v \<Rightarrow> v)"

record digestChallenge =
  dc_realm :: string
  dc_nonce :: string
  dc_opaque :: string
  dc_algorithm :: string
  dc_qop :: string

record digestAuthorization =
  da_username :: string
  da_realm :: string
  da_nonce :: string
  da_uri :: string
  da_response :: string
  da_algorithm :: string
  da_qop :: string
  da_nc :: string
  da_cnonce :: string
  da_opaque :: string

definition digest_params :: "string \<Rightarrow> (auth_error, (string \<times> string) list) result" where
  "digest_params value0 =
     (let value = strings_TrimSpace value0
      in if \<not> strings_HasPrefix (strings_ToLower value) ''digest '' then Inl NotDigest
         else Inr (List.map_filter auth_param (splitAuthParams (strings_TrimSpace (drop 7 value)))))"

definition parseDigestChallenge :: "string \<Rightarrow> (auth_error, digestChallenge) result" where
  "parseDigestChallenge value =
     bind_result (digest_params value) (\<lambda>ps.
       Inr \<lparr>dc_realm = param_value ps ''realm'', dc_nonce = param_value ps ''nonce'',
         dc_opaque = param_value ps ''opaque'', dc_algorithm = param_value ps ''algorithm'',
         dc_qop = param_value ps ''qop''\<rparr>)"

definition parseDigestAuthorization :: "string \<Rightarrow> (auth_error, digestAuthorization) result" where
  "parseDigestAuthorization value =
     bind_result (digest_params value) (\<lambda>ps.
       let out = \<lparr>da_username = param_value ps ''username'', da_realm = param_value ps ''realm'',
             da_nonce = param_value ps ''nonce'', da_uri = param_value ps ''uri'',
             da_response = param_value ps ''response'', da_algorithm = param_value ps ''algorithm'',
             da_qop = param_value ps ''qop'', da_nc = param_value ps ''nc'',
             da_cnonce = param_value ps ''cnonce'', da_opaque = param_value ps ''opaque''\<rparr>
       in if da_realm out = [] \<or> da_nonce out = [] \<or> da_uri out = [] \<or> da_response out = []
            \<or> da_username out = []
          then Inl BadAuthorization else Inr out)"

section \<open>Building and verifying\<close>

text \<open>The hexadecimal digests of the standard library's hash functions.\<close>

record hashes =
  md5Hex :: "string \<Rightarrow> string"
  sha256Hex :: "string \<Rightarrow> string"

definition digestHex :: "hashes \<Rightarrow> string \<Rightarrow> string \<Rightarrow> string" where
  "digestHex h algorithm value =
     (let a = strings_ToUpper (strings_TrimSpace algorithm)
      in if a = [] \<or> a = ''MD5'' then md5Hex h value
         else if a = ''SHA-256'' then sha256Hex h value
         else [])"

text \<open>
  The verb \<^verbatim>\<open>%q\<close>: quotes, backslashes and control characters are escaped, everything else (printable
  text in UTF-8) is kept.
\<close>

definition hex_digit :: "nat \<Rightarrow> char" where
  "hex_digit d = ''0123456789abcdef'' ! d"

definition quote_char :: "char \<Rightarrow> string" where
  "quote_char c =
     (let n = (of_char c :: nat); bs = CHR 0x5C
      in if c = CHR 0x22 \<or> c = bs then [bs, c]
         else if n = 7 then [bs, CHR ''a''] else if n = 8 then [bs, CHR ''b'']
         else if n = 9 then [bs, CHR ''t''] else if n = 10 then [bs, CHR ''n'']
         else if n = 11 then [bs, CHR ''v''] else if n = 12 then [bs, CHR ''f'']
         else if n = 13 then [bs, CHR ''r'']
         else if n < 32 \<or> n = 127 then [bs, CHR ''x'', hex_digit (n div 16), hex_digit (n mod 16)]
         else [c])"

definition fmt_q :: "string \<Rightarrow> string" where
  "fmt_q s = [CHR 0x22] @ concat (map quote_char s) @ [CHR 0x22]"

definition colon_join :: "string list \<Rightarrow> string" where
  "colon_join ss = strings_Join ss '':''"

text \<open>The response hash, as the two sides compute it; an empty \<open>qop\<close> is the old scheme.\<close>

definition digest_response ::
  "hashes \<Rightarrow> string \<Rightarrow> string \<Rightarrow> string \<Rightarrow> string \<Rightarrow> string \<Rightarrow> string \<Rightarrow> string \<Rightarrow> string" where
  "digest_response h algorithm ha1 nonce nc cnonce qop ha2 =
     digestHex h algorithm
       (if qop = [] then colon_join [ha1, nonce, ha2] else colon_join [ha1, nonce, nc, cnonce, qop, ha2])"

definition choose_qop :: "string \<Rightarrow> (auth_error, string) result" where
  "choose_qop offered =
     (if offered = [] then Inr []
      else if list_ex (\<lambda>option. strings_EqualFold (strings_TrimSpace option) ''auth'') (strings_Split offered '','')
      then Inr ''auth'' else Inl (BadQop offered))"

text \<open>\<open>rand\<close> is the client nonce the random source gives, if it gives one.\<close>

definition buildDigestAuthHeader ::
  "hashes \<Rightarrow> string option \<Rightarrow> string \<Rightarrow> string \<Rightarrow> string \<Rightarrow> string \<Rightarrow> string \<Rightarrow> string \<Rightarrow> (auth_error, string) result" where
  "buildDigestAuthHeader h rand headerName challenge meth uri username password =
     bind_result (parseDigestChallenge challenge) (\<lambda>params.
       if dc_realm params = [] \<or> dc_nonce params = [] then Inl NoRealmOrNonce
       else
         let algorithm = (if dc_algorithm params = [] then ''MD5'' else dc_algorithm params)
         in bind_result (choose_qop (dc_qop params)) (\<lambda>qop.
              let ha1 = digestHex h algorithm (colon_join [username, dc_realm params, password])
              in if ha1 = [] then Inl (BadAlgorithm algorithm)
                 else
                   let ha2 = digestHex h algorithm (colon_join [meth, uri])
                   in case (if qop = [] then Some [] else rand) of
                        None \<Rightarrow> Inl NoRandom
                      | Some cnonce \<Rightarrow>
                          let nc = (if qop = [] then [] else ''00000001'');
                              response = digest_response h algorithm ha1 (dc_nonce params) nc cnonce qop ha2
                          in Inr (strings_Join
                               ([headerName @ '': Digest username='' @ fmt_q username,
                                 ''realm='' @ fmt_q (dc_realm params), ''nonce='' @ fmt_q (dc_nonce params),
                                 ''uri='' @ fmt_q uri, ''response='' @ fmt_q response,
                                 ''algorithm='' @ algorithm]
                                @ (if dc_opaque params \<noteq> [] then [''opaque='' @ fmt_q (dc_opaque params)] else [])
                                @ (if qop \<noteq> [] then [''qop='' @ qop, ''nc='' @ nc, ''cnonce='' @ fmt_q cnonce] else []))
                               '', '')))"

definition verifyAuthHeader :: "hashes \<Rightarrow> string \<Rightarrow> string \<Rightarrow> string \<Rightarrow> (auth_error, bool) result" where
  "verifyAuthHeader h raw username password =
     (case Parse raw of
        Inl e \<Rightarrow> Inl (MessageParse e)
      | Inr msg \<Rightarrow>
          (case (case Header (Headers msg) ''Authorization'' of
                   None \<Rightarrow> Header (Headers msg) ''Proxy-Authorization''
                 | Some v \<Rightarrow> Some v) of
             None \<Rightarrow> Inr False
           | Some headerValue \<Rightarrow>
               bind_result (parseDigestAuthorization headerValue) (\<lambda>auth.
                 if da_username auth \<noteq> username then Inr False
                 else
                   let algorithm = (if da_algorithm auth = [] then ''MD5'' else da_algorithm auth);
                       ha1 = digestHex h algorithm (colon_join [username, da_realm auth, password])
                   in if ha1 = [] then Inl (BadAlgorithm algorithm)
                      else if da_qop auth \<noteq> [] \<and> \<not> strings_EqualFold (da_qop auth) ''auth''
                      then Inl (BadQop (da_qop auth))
                      else
                        let ha2 = digestHex h algorithm (colon_join [Method msg, da_uri auth])
                        in Inr (strings_EqualFold
                             (digest_response h algorithm ha1 (da_nonce auth) (da_nc auth) (da_cnonce auth)
                               (da_qop auth) ha2) (da_response auth)))))"

section \<open>The authentication keyword\<close>

record authKeywordOptions =
  ak_tokenKey :: string
  ak_username :: string
  ak_password :: string

text \<open>\<^verbatim>\<open>containsFoldCI\<close> compares the text at every offset.\<close>

definition containsFoldCI :: "string \<Rightarrow> string \<Rightarrow> bool" where
  "containsFoldCI s substr \<longleftrightarrow>
     length substr \<le> length s
     \<and> list_ex (\<lambda>i. strings_EqualFold (take (length substr) (drop i s)) substr) [0..<Suc (length s - length substr)]"

definition parseAuthKeywordParams :: "string \<Rightarrow> (string \<times> string) list" where
  "parseAuthKeywordParams tokenKey =
     List.map_filter auth_param (strings_Fields (strings_TrimSpace (strings_TrimPrefix tokenKey ''authentication'')))"

text \<open>\<open>s\<close> is the text in lower case and \<open>raw\<close> the text itself, of the same length.\<close>

function auth_tokens :: "string \<Rightarrow> string \<Rightarrow> authKeywordOptions list" where
  "auth_tokens s raw =
     (case strings_Index s ''[authentication'' of
        None \<Rightarrow> []
      | Some start \<Rightarrow>
          (case strings_IndexByte (drop (Suc start) raw) CHR '']'' of
             None \<Rightarrow> []
           | Some off \<Rightarrow>
               let tokenKey = strings_TrimSpace (take off (drop (Suc start) raw));
                   params = parseAuthKeywordParams tokenKey; e = start + 1 + off
               in \<lparr>ak_tokenKey = tokenKey, ak_username = param_value params ''username'',
                   ak_password = param_value params ''password''\<rparr>
                  # auth_tokens (drop (Suc e) s) (drop (Suc e) raw)))"
  by pat_completeness auto

termination
proof (relation "measure (\<lambda>(s, raw). length s)", goal_cases)
  case (2 s raw start off tokenKey params e)
  then have "s \<noteq> []" by auto
  then show ?case by (simp add: 2)
qed simp

declare auth_tokens.simps [simp del]

definition extractAuthKeywordOptions :: "string \<Rightarrow> authKeywordOptions list" where
  "extractAuthKeywordOptions raw =
     (if \<not> containsFoldCI raw ''[authentication'' then [] else auth_tokens (strings_ToLower raw) raw)"

definition resolveAuthKeywordUsername :: "string \<Rightarrow> string \<Rightarrow> string" where
  "resolveAuthKeywordUsername value fallback = (if strings_TrimSpace value \<noteq> [] then value else fallback)"

definition resolveAuthKeywordPassword :: "string \<Rightarrow> string \<Rightarrow> string" where
  "resolveAuthKeywordPassword value fallback = (if strings_TrimSpace value \<noteq> [] then value else fallback)"

record auth_config =
  AuthUsername :: string
  AuthPassword :: string

definition buildAuthHeaderInner ::
  "hashes \<Rightarrow> string option \<Rightarrow> auth_config \<Rightarrow> string \<Rightarrow> render_context \<Rightarrow> authKeywordOptions \<Rightarrow> (auth_error, string) result" where
  "buildAuthHeaderInner h rand cfg outgoing ctx option =
     (if LastMessage ctx = [] then Inl NoChallenge
      else case Parse (LastMessage ctx) of
             Inl e \<Rightarrow> Inl (ChallengeParse e)
           | Inr challengeMsg \<Rightarrow>
               if StatusCode challengeMsg \<noteq> 401 \<and> StatusCode challengeMsg \<noteq> 407
               then Inl (NotChallenge (StatusCode challengeMsg))
               else
                 let proxy = (StatusCode challengeMsg = 407);
                     headerName = (if proxy then ''Proxy-Authorization'' else ''Authorization'');
                     challengeName = (if proxy then ''Proxy-Authenticate'' else ''WWW-Authenticate'')
                 in case Header (Headers challengeMsg) challengeName of
                      None \<Rightarrow> Inl (MissingChallenge challengeName)
                    | Some challenge \<Rightarrow>
                        (case Parse outgoing of
                           Inl e \<Rightarrow> Inl (OutgoingParse e)
                         | Inr outgoingMsg \<Rightarrow>
                             if Method outgoingMsg = [] \<or> RequestURI outgoingMsg = [] then Inl NotRequest
                             else buildDigestAuthHeader h rand headerName challenge (Method outgoingMsg)
                                    (RequestURI outgoingMsg)
                                    (resolveAuthKeywordUsername (ak_username option) (AuthUsername cfg))
                                    (resolveAuthKeywordPassword (ak_password option) (AuthPassword cfg))))"

definition authPlaceholder :: string where
  "authPlaceholder = ''Authorization: pending''"

text \<open>The keywords for the final pass: a header for every token.  \<open>rands k\<close> is the nonce for the \<open>k\<close>-th one.\<close>

fun auth_keywords ::
  "hashes \<Rightarrow> (nat \<Rightarrow> string option) \<Rightarrow> auth_config \<Rightarrow> string \<Rightarrow> render_context \<Rightarrow> nat \<Rightarrow> authKeywordOptions list
    \<Rightarrow> (string \<Rightarrow> string option) \<Rightarrow> (auth_error, string \<Rightarrow> string option) result" where
  "auth_keywords h rands cfg provisional ctx k [] kw = Inr kw"
| "auth_keywords h rands cfg provisional ctx k (option # rest) kw =
     bind_result (buildAuthHeaderInner h (rands k) cfg provisional ctx option) (\<lambda>authHeader.
       auth_keywords h rands cfg provisional ctx (Suc k) rest (kw(ak_tokenKey option \<mapsto> authHeader)))"

definition strict :: "render_env \<Rightarrow> render_env \<Rightarrow> string \<Rightarrow> render_context \<Rightarrow> (auth_error, string) result" where
  "strict env1 env2 raw ctx =
     (case RenderMessageStrict env1 env2 raw ctx of Inl e \<Rightarrow> Inl (AuthRender e) | Inr s \<Rightarrow> Inr s)"

text \<open>\<open>envs k\<close> is the outside world at the \<open>k\<close>-th rendering pass; \<open>tick\<close> and \<open>did\<close> come from the engine.\<close>

definition renderSIPMessage ::
  "hashes \<Rightarrow> (nat \<Rightarrow> string option) \<Rightarrow> (nat \<Rightarrow> render_env) \<Rightarrow> auth_config \<Rightarrow> int \<Rightarrow> int \<Rightarrow> string \<Rightarrow> render_context
    \<Rightarrow> (auth_error, string) result" where
  "renderSIPMessage h rands envs cfg tick did raw0 ctx0 =
     (let raw = normalizeSIPScenarioLineIndent raw0;
          ctx = ctx0\<lparr>ClockTick := tick, DynamicID := did\<rparr>;
          options = extractAuthKeywordOptions raw
      in if options = [] then
           bind_result (strict (envs 0) (envs 1) raw ctx) (\<lambda>rendered. Inr (ensureMessageTerminator rendered))
         else
           let provisionalCtx = ctx\<lparr>ExtraKeywords :=
                 foldl (\<lambda>kw option. kw(ak_tokenKey option \<mapsto> authPlaceholder)) (ExtraKeywords ctx) options\<rparr>
           in bind_result (strict (envs 0) (envs 1) raw provisionalCtx) (\<lambda>provisional.
                bind_result (auth_keywords h rands cfg (ensureMessageTerminator provisional) ctx 0 options (ExtraKeywords ctx))
                  (\<lambda>kw. bind_result (strict (envs 2) (envs 3) raw (ctx\<lparr>ExtraKeywords := kw\<rparr>)) (\<lambda>rendered.
                          Inr (ensureMessageTerminator rendered)))))"

section \<open>Parameters read back\<close>

abbreviation DQ :: char where "DQ \<equiv> CHR 0x22"

definition ascii_graph :: "char \<Rightarrow> bool" where
  "ascii_graph c \<longleftrightarrow> (of_char c :: nat) < 128 \<and> [c] \<notin> set space_runes"

lemma TrimSpace_ends:
  assumes "ascii_graph c" and "ascii_graph d"
  shows "strings_TrimSpace (c # s @ [d]) = c # s @ [d]"
  using assms lead_space_ascii [of c "s @ [d]"] trail_space_ascii [of d "c # s"]
  by (intro TrimSpace_id) (auto simp: ascii_graph_def)

text \<open>Text that \<^verbatim>\<open>%q\<close> only puts between quotes.\<close>

definition plain :: "string \<Rightarrow> bool" where
  "plain s \<longleftrightarrow> list_all (\<lambda>c. quote_char c = [c]) s"

lemma quote_char_DQ: "quote_char DQ \<noteq> [DQ]"
  by (simp add: quote_char_def Let_def)

lemma plain_no_quote: "plain s \<Longrightarrow> DQ \<notin> set s"
  using quote_char_DQ by (auto simp: plain_def list_all_iff)

lemma fmt_q_plain: "plain s \<Longrightarrow> fmt_q s = DQ # s @ [DQ]"
proof -
  assume "plain s"
  then have "concat (map quote_char s) = s" by (induction s) (simp_all add: plain_def)
  then show ?thesis by (simp add: fmt_q_def)
qed

lemma split_quoted: "DQ \<notin> set v \<Longrightarrow> split_params cur True (v @ DQ # rest) = split_params (cur @ v @ [DQ]) False rest"
  by (induction v arbitrary: cur) auto

lemma split_token:
  "DQ \<notin> set t \<Longrightarrow> CHR '','' \<notin> set t \<Longrightarrow> split_params cur False (t @ rest) = split_params (cur @ t) False rest"
  by (induction t arbitrary: cur) auto

text \<open>A parameter as it is written: a key and a quoted value or a token.\<close>

datatype param = Quoted string string | Token string string

fun param_text :: "param \<Rightarrow> string" where
  "param_text (Quoted k v) = k @ CHR ''='' # DQ # v @ [DQ]"
| "param_text (Token k t) = k @ CHR ''='' # t"

fun param_pair :: "param \<Rightarrow> string \<times> string" where
  "param_pair (Quoted k v) = (k, v)"
| "param_pair (Token k t) = (k, t)"

definition key_ok :: "string \<Rightarrow> bool" where
  "key_ok k \<longleftrightarrow> k \<noteq> [] \<and> ascii_word k \<and> strings_ToLower k = k \<and> DQ \<notin> set k \<and> CHR '','' \<notin> set k \<and> CHR ''='' \<notin> set k"

fun param_ok :: "param \<Rightarrow> bool" where
  "param_ok (Quoted k v) = (key_ok k \<and> DQ \<notin> set v)"
| "param_ok (Token k t) = (key_ok k \<and> t \<noteq> [] \<and> ascii_word t \<and> DQ \<notin> set t \<and> CHR '','' \<notin> set t)"

lemma split_param: "param_ok p \<Longrightarrow> split_params cur False (param_text p @ rest) = split_params (cur @ param_text p) False rest"
proof (cases p)
  case (Quoted k v)
  assume "param_ok p"
  with Quoted have k: "DQ \<notin> set (k @ [CHR ''=''])" "CHR '','' \<notin> set (k @ [CHR ''=''])" and v: "DQ \<notin> set v"
    by (auto simp: key_ok_def)
  show ?thesis
    using split_token [OF k, of cur "DQ # v @ DQ # rest"] split_quoted [OF v, of "cur @ k @ [CHR ''='', DQ]" rest]
    by (simp add: Quoted)
next
  case (Token k t)
  assume "param_ok p"
  with Token have "DQ \<notin> set (param_text p)" "CHR '','' \<notin> set (param_text p)" by (auto simp: key_ok_def)
  then show ?thesis by (rule split_token)
qed

lemma word_ends: "ascii_word s \<Longrightarrow> s \<noteq> [] \<Longrightarrow> ascii_graph (hd s) \<and> ascii_graph (last s)"
  by (simp add: ascii_word_def ascii_graph_def)

lemma DQ_graph: "ascii_graph DQ"
  by (simp add: ascii_graph_def space_runes_def)

lemma param_text_ends:
  assumes "param_ok p"
  shows "\<exists>c s d. param_text p = c # s @ [d] \<and> ascii_graph c \<and> ascii_graph d"
proof (cases p)
  case (Quoted k v)
  with assms have k: "k \<noteq> []" "ascii_graph (hd k)" using word_ends by (auto simp: key_ok_def)
  then obtain c k' where "k = c # k'" by (cases k) auto
  with k Quoted DQ_graph show ?thesis
    by (intro exI [of _ c] exI [of _ "k' @ CHR ''='' # DQ # v"] exI [of _ DQ]) simp
next
  case (Token k t)
  with assms have k: "k \<noteq> []" "ascii_graph (hd k)" and t: "t \<noteq> []" "ascii_graph (last t)"
    using word_ends by (auto simp: key_ok_def)
  obtain c k' where ck: "k = c # k'" using k(1) by (cases k) auto
  have "t = butlast t @ [last t]" using t(1) by simp
  then have "param_text p = c # (k' @ CHR ''='' # butlast t) @ [last t]" using Token ck by (metis append.assoc append_Cons param_text.simps(2))
  with k t ck show ?thesis by (metis list.sel(1))
qed

lemma param_text_trimmed: "param_ok p \<Longrightarrow> strings_TrimSpace (param_text p) = param_text p"
  using param_text_ends [of p] TrimSpace_ends by metis

lemma split_params_join:
  assumes "list_all param_ok ps" and "param_ok p" and "cur = [] \<or> cur = [SP]"
  shows "split_params cur False (strings_Join (map param_text (p # ps)) '', '') = map param_text (p # ps)"
  using assms
proof (induction ps arbitrary: p cur)
  case Nil
  have "strings_TrimSpace (cur @ param_text p) = param_text p"
    using Nil.prems(2,3) by (auto simp: param_text_trimmed)
  moreover have "cur @ param_text p \<noteq> []" using param_text_ends [OF Nil.prems(2)] by auto
  ultimately show ?case using split_param [OF Nil.prems(2), of cur "[]"] by simp
next
  case (Cons q qs)
  have "strings_TrimSpace (cur @ param_text p) = param_text p"
    using Cons.prems(2,3) by (auto simp: param_text_trimmed)
  moreover have "split_params [SP] False (strings_Join (map param_text (q # qs)) '', '') = map param_text (q # qs)"
    using Cons.prems by (intro Cons.IH) simp_all
  ultimately show ?case
    using split_param [OF Cons.prems(2), of cur "CHR '','' # SP # strings_Join (map param_text (q # qs)) '', ''"] by simp
qed

lemma splitAuthParams_join:
  "list_all param_ok ps \<Longrightarrow> ps \<noteq> [] \<Longrightarrow> splitAuthParams (strings_Join (map param_text ps) '', '') = map param_text ps"
  unfolding splitAuthParams_def using split_params_join [of "tl ps" "hd ps" "[]"] by (cases ps) auto

lemma Trim_quotes: "DQ \<notin> set v \<Longrightarrow> strings_Trim (DQ # v @ [DQ]) [DQ] = v"
proof -
  assume v: "DQ \<notin> set v"
  have d: "dropWhile (\<lambda>c. c = DQ) s = s" if "DQ \<notin> set s" for s using that by (cases s) auto
  show ?thesis
  proof (cases "v = []")
    case False
    then have "dropWhile (\<lambda>c. c = DQ) (v @ [DQ]) = v @ [DQ]" using v by (cases v) auto
    then show ?thesis using v d [of "rev v"] by (simp add: strings_Trim_def strings_TrimRight_def)
  qed (simp add: strings_Trim_def strings_TrimRight_def)
qed

lemma Trim_no_quotes: "DQ \<notin> set v \<Longrightarrow> strings_Trim v [DQ] = v"
proof -
  assume v: "DQ \<notin> set v"
  have d: "dropWhile (\<lambda>c. c = DQ) s = s" if "DQ \<notin> set s" for s using that by (cases s) auto
  show ?thesis using v d [of v] d [of "rev v"] by (simp add: strings_Trim_def strings_TrimRight_def)
qed

lemma auth_param_text: "param_ok p \<Longrightarrow> auth_param (param_text p) = Some (param_pair p)"
proof (cases p)
  case (Quoted k v)
  assume "param_ok p"
  with Quoted have k: "ascii_word k" "strings_ToLower k = k" "CHR ''='' \<notin> set k" and v: "DQ \<notin> set v"
    by (auto simp: key_ok_def)
  show ?thesis
    using Quoted v k by (simp add: auth_param_def Cut_append Trim_quotes ascii_word_trimmed TrimSpace_ends DQ_graph)
next
  case (Token k t)
  assume "param_ok p"
  with Token have "ascii_word k" "strings_ToLower k = k" "CHR ''='' \<notin> set k" "ascii_word t" "DQ \<notin> set t"
    by (auto simp: key_ok_def)
  with Token show ?thesis by (simp add: auth_param_def Cut_append Trim_no_quotes ascii_word_trimmed)
qed

lemma map_filter_params: "list_all param_ok ps \<Longrightarrow> List.map_filter auth_param (map param_text ps) = map param_pair ps"
  by (induction ps) (simp_all add: List.map_filter_def auth_param_text)

lemma Join_ends:
  assumes "list_all param_ok ps" and "ps \<noteq> []"
  shows "\<exists>c s d. strings_Join (map param_text ps) '', '' = c # s @ [d] \<and> ascii_graph c \<and> ascii_graph d"
  using assms
proof (induction ps)
  case (Cons p ps)
  obtain c s d where p: "param_text p = c # s @ [d]" "ascii_graph c" "ascii_graph d"
    using param_text_ends [of p] Cons.prems by auto
  show ?case
  proof (cases ps)
    case Nil
    with p show ?thesis by auto
  next
    case (Cons q qs)
    with Cons.IH Cons.prems obtain c' s' d' where
      "strings_Join (map param_text ps) '', '' = c' # s' @ [d']" "ascii_graph d'" by auto
    with p Cons show ?thesis
      by (intro exI [of _ c] exI [of _ "s @ [d] @ '', '' @ c' # s'"] exI [of _ d']) simp
  qed
qed simp

lemma digest_params_text:
  assumes "list_all param_ok ps" and "ps \<noteq> []"
  shows "digest_params (''Digest '' @ strings_Join (map param_text ps) '', '') = Inr (map param_pair ps)"
proof -
  let ?j = "strings_Join (map param_text ps) '', ''"
  obtain c s d where j: "?j = c # s @ [d]" "ascii_graph c" "ascii_graph d" using Join_ends [OF assms] by blast
  have "ascii_graph CHR ''D''" by (simp add: ascii_graph_def space_runes_def)
  then have t: "strings_TrimSpace (''Digest '' @ ?j) = ''Digest '' @ ?j"
    using TrimSpace_ends [of "CHR ''D''" d "''igest '' @ c # s"] j by simp
  have "strings_TrimSpace ?j = ?j" using TrimSpace_ends [OF j(2,3)] j(1) by simp
  then show ?thesis
    unfolding digest_params_def t
    by (simp add: strings_HasPrefix_def strings_ToLower_def lower_char_def splitAuthParams_join [OF assms]
        map_filter_params [OF assms(1)])
qed

section \<open>The digest round trip\<close>

definition hash_ok :: "(string \<Rightarrow> string) \<Rightarrow> bool" where
  "hash_ok f \<longleftrightarrow> (\<forall>x. f x \<noteq> [] \<and> plain (f x))"

lemma digestHex_plain:
  "hash_ok (md5Hex h) \<Longrightarrow> hash_ok (sha256Hex h) \<Longrightarrow> digestHex h a x \<noteq> [] \<Longrightarrow> plain (digestHex h a y) \<and> digestHex h a y \<noteq> []"
  by (auto simp: digestHex_def hash_ok_def Let_def split: if_splits)

lemma upper_char_comma: "upper_char c = CHR '','' \<longleftrightarrow> c = CHR '',''" "upper_char c = DQ \<longleftrightarrow> c = DQ"
  by (cases c; auto simp: upper_char_def Let_def split: if_splits)+

lemma upper_char_space: "[upper_char c] \<in> set space_runes \<longleftrightarrow> [c] \<in> set space_runes"
  by (cases c) (auto simp: upper_char_def Let_def space_runes_def split: if_splits)

lemma upper_char_ascii: "(of_char (upper_char c) :: nat) < 128 \<longleftrightarrow> (of_char c :: nat) < 128"
  by (cases c) (auto simp: upper_char_def Let_def split: if_splits)

lemma algorithm_token:
  assumes "digestHex h a x \<noteq> []" and "strings_TrimSpace a = a" and "a \<noteq> []"
  shows "param_ok (Token ''algorithm'' a)"
proof -
  have "strings_ToUpper a = ''MD5'' \<or> strings_ToUpper a = ''SHA-256''"
    using assms by (auto simp: digestHex_def Let_def strings_ToUpper_def split: if_splits)
  then have "\<forall>c \<in> set a. upper_char c \<in> set ''MDSHA-0123456789''"
    by (auto simp: strings_ToUpper_def)
  then have "\<forall>c \<in> set a. (of_char (upper_char c) :: nat) < 128 \<and> [upper_char c] \<notin> set space_runes
      \<and> upper_char c \<noteq> CHR '','' \<and> upper_char c \<noteq> DQ"
    by (auto simp: space_runes_def)
  then have "ascii_word a" "DQ \<notin> set a" "CHR '','' \<notin> set a"
    unfolding ascii_word_def upper_char_space upper_char_ascii upper_char_comma by auto
  moreover have "key_ok ''algorithm''"
    by (simp add: key_ok_def ascii_word_def space_runes_def strings_ToLower_def lower_char_def)
  ultimately show ?thesis using assms(3) by simp
qed

text \<open>The parameters that the client writes.\<close>

definition header_params ::
  "string \<Rightarrow> string \<Rightarrow> string \<Rightarrow> string \<Rightarrow> string \<Rightarrow> string \<Rightarrow> string \<Rightarrow> string \<Rightarrow> string \<Rightarrow> param list" where
  "header_params user realm nonce uri resp alg opq qop cn =
     [Quoted ''username'' user, Quoted ''realm'' realm, Quoted ''nonce'' nonce, Quoted ''uri'' uri,
      Quoted ''response'' resp, Token ''algorithm'' alg]
     @ (if opq \<noteq> [] then [Quoted ''opaque'' opq] else [])
     @ (if qop \<noteq> [] then [Token ''qop'' qop, Token ''nc'' ''00000001'', Quoted ''cnonce'' cn] else [])"

lemma keys_ok:
  "key_ok ''username''" "key_ok ''realm''" "key_ok ''nonce''" "key_ok ''uri''" "key_ok ''response''"
  "key_ok ''opaque''" "key_ok ''qop''" "key_ok ''nc''" "key_ok ''cnonce''"
  by (simp_all add: key_ok_def ascii_word_def space_runes_def strings_ToLower_def lower_char_def)

lemma tokens_ok: "param_ok (Token ''qop'' ''auth'')" "param_ok (Token ''nc'' ''00000001'')"
  by (simp_all add: keys_ok ascii_word_def space_runes_def)

lemma header_params_ok:
  assumes "plain user" "plain realm" "plain nonce" "plain uri" "plain resp" "plain opq" "plain cn"
    and "param_ok (Token ''algorithm'' alg)" and "qop = [] \<or> qop = ''auth''"
  shows "list_all param_ok (header_params user realm nonce uri resp alg opq qop cn)"
proof -
  note nq = assms(1-7) [THEN plain_no_quote]
  have "list_all param_ok (if qop \<noteq> [] then [Token ''qop'' qop, Token ''nc'' ''00000001'', Quoted ''cnonce'' cn] else [])"
    using assms(9) tokens_ok nq(7) keys_ok(9) by (elim disjE) (simp_all del: param_ok.simps(2))
  moreover have "list_all param_ok (if opq \<noteq> [] then [Quoted ''opaque'' opq] else [])"
    using nq(6) keys_ok(6) by simp
  ultimately show ?thesis
    unfolding header_params_def list_all_append using nq(1-5) keys_ok(1-5) assms(8) by simp
qed

lemma authorization_read:
  assumes "list_all param_ok (header_params user realm nonce uri resp alg opq qop cn)"
    and "user \<noteq> []" "realm \<noteq> []" "nonce \<noteq> []" "uri \<noteq> []" "resp \<noteq> []"
  shows "parseDigestAuthorization
      (''Digest '' @ strings_Join (map param_text (header_params user realm nonce uri resp alg opq qop cn)) '', '')
    = Inr \<lparr>da_username = user, da_realm = realm, da_nonce = nonce, da_uri = uri, da_response = resp,
        da_algorithm = alg, da_qop = qop, da_nc = (if qop = [] then [] else ''00000001''),
        da_cnonce = (if qop = [] then [] else cn), da_opaque = opq\<rparr>"
proof -
  have ne: "header_params user realm nonce uri resp alg opq qop cn \<noteq> []" by (simp add: header_params_def)
  show ?thesis
    unfolding parseDigestAuthorization_def digest_params_text [OF assms(1) ne]
    using assms(2-) by (simp add: header_params_def param_value_def Let_def)
qed

text \<open>What the client's header looks like, once the challenge and its options are known.\<close>

lemma buildDigestAuthHeader_form:
  fixes h user pass meth uri
  assumes "parseDigestChallenge challenge = Inr p" and "dc_realm p \<noteq> []" "dc_nonce p \<noteq> []"
    and "choose_qop (dc_qop p) = Inr qop" and "(if qop = [] then Some [] else rand) = Some cn"
  defines "a \<equiv> if dc_algorithm p = [] then ''MD5'' else dc_algorithm p"
  defines "ha1 \<equiv> digestHex h a (colon_join [user, dc_realm p, pass])"
  defines "resp \<equiv> digest_response h a ha1 (dc_nonce p) (if qop = [] then [] else ''00000001'') cn qop
    (digestHex h a (colon_join [meth, uri]))"
  assumes "ha1 \<noteq> []" and "qop = [] \<or> qop = ''auth''"
    and "plain user" "plain (dc_realm p)" "plain (dc_nonce p)" "plain uri" "plain resp" "plain (dc_opaque p)" "plain cn"
  shows "buildDigestAuthHeader h rand name challenge meth uri user pass =
    Inr (name @ '': '' @ ''Digest '' @ strings_Join (map param_text
      (header_params user (dc_realm p) (dc_nonce p) uri resp a (dc_opaque p) qop cn)) '', '')"
proof -
  note q = assms(11-17) [THEN fmt_q_plain]
  have "buildDigestAuthHeader h rand name challenge meth uri user pass =
    Inr (strings_Join
      ([name @ '': Digest username='' @ fmt_q user, ''realm='' @ fmt_q (dc_realm p), ''nonce='' @ fmt_q (dc_nonce p),
        ''uri='' @ fmt_q uri, ''response='' @ fmt_q resp, ''algorithm='' @ a]
       @ (if dc_opaque p \<noteq> [] then [''opaque='' @ fmt_q (dc_opaque p)] else [])
       @ (if qop \<noteq> [] then [''qop='' @ qop, ''nc='' @ ''00000001'', ''cnonce='' @ fmt_q cn] else [])) '', '')"
    unfolding buildDigestAuthHeader_def assms(1) bind_result_simps Let_def a_def [symmetric] ha1_def [symmetric]
      assms(4) assms(5) option.case resp_def [symmetric]
    using assms(2,3,9) by simp
  then show ?thesis unfolding q header_params_def by simp
qed


definition sample_hashes :: hashes where
  "sample_hashes = \<lparr>md5Hex = (\<lambda>s. nat_digits (length s)), sha256Hex = (\<lambda>s. nat_digits (length s))\<rparr>"

definition sample_challenge :: string where
  "sample_challenge = ''Digest realm='' @ fmt_q ''h'' @ '', nonce='' @ fmt_q ''n1'' @ '', qop='' @ fmt_q ''auth''"

definition sample_answer :: string where
  "sample_answer = ''Digest username='' @ fmt_q ''bob'' @ '', realm='' @ fmt_q ''h'' @ '', nonce='' @ fmt_q ''n1''
     @ '', uri='' @ fmt_q ''sip:h'' @ '', response='' @ fmt_q ''26'' @ '', algorithm=MD5, qop=auth, nc=00000001, cnonce=''
     @ fmt_q ''0a1b''"

definition sample_register :: string where
  "sample_register = ''REGISTER sip:h SIP/2.0'' @ CRLF @ ''Authorization: '' @ sample_answer @ CRLF @ CRLF"

lemma sample_hash_ok: "hash_ok (\<lambda>s. nat_digits (f s))"
proof -
  have "quote_char c = [c]" if "c \<in> set ''0123456789''" for c
    using that by (auto simp: quote_char_def)
  then show ?thesis using nat_digits_set by (auto simp: hash_ok_def plain_def list_all_iff)
qed


end
