(* ===== verification/VarStore.thy ===== *)
theory VarStore
  imports Prelude
begin

text \<open>
  Scenario variables, \<^verbatim>\<open>internal/engine/vars.go\<close>: a call has its own store, and the stores of an
  engine share one \<^verbatim>\<open>scopedVars\<close> with the global variables and those of each user.  The read-write
  lock makes every operation atomic, so an operation is a function on the pair of the call's store
  and the shared scopes.  \<^verbatim>\<open>Snapshot\<close> returns the map that the code keeps in \<^verbatim>\<open>scratch\<close>.
\<close>

type_synonym varmap = "string \<Rightarrow> string option"

record scopedVars =
  sv_global :: varmap
  sv_users :: "int \<Rightarrow> varmap option"

record varStore =
  vs_local :: varmap
  globalNames :: "string list"
  userNames :: "string list"
  vs_userID :: int

type_synonym var_state = "varStore \<times> scopedVars"

definition newScopedVars :: scopedVars where
  "newScopedVars = \<lparr>sv_global = Map.empty, sv_users = Map.empty\<rparr>"

definition newVarStore :: "string list \<Rightarrow> string list \<Rightarrow> int \<Rightarrow> varStore" where
  "newVarStore gs us uid = \<lparr>vs_local = Map.empty, globalNames = gs, userNames = us, vs_userID = uid\<rparr>"

text \<open>Indexing a Go map: the zero value where the key is absent.\<close>

definition at :: "varmap \<Rightarrow> string \<Rightarrow> string" where
  "at mp name = (case mp name of None \<Rightarrow> [] | Some v \<Rightarrow> v)"

fun Get :: "var_state \<Rightarrow> string \<Rightarrow> string" where
  "Get (v, sc) name =
     (if name \<in> set (globalNames v) then at (sv_global sc) name
      else if name \<in> set (userNames v) then
        (case sv_users sc (vs_userID v) of Some scoped \<Rightarrow> at scoped name | None \<Rightarrow> [])
      else at (vs_local v) name)"

fun Set :: "var_state \<Rightarrow> string \<Rightarrow> string \<Rightarrow> var_state" where
  "Set (v, sc) name value =
     (if name \<in> set (globalNames v) then (v, sc\<lparr>sv_global := (sv_global sc)(name \<mapsto> value)\<rparr>)
      else if name \<in> set (userNames v) then
        let scoped = (case sv_users sc (vs_userID v) of Some m \<Rightarrow> m | None \<Rightarrow> Map.empty)
        in (v, sc\<lparr>sv_users := (sv_users sc)(vs_userID v \<mapsto> scoped(name \<mapsto> value))\<rparr>)
      else (v\<lparr>vs_local := (vs_local v)(name \<mapsto> value)\<rparr>, sc))"

fun Snapshot :: "var_state \<Rightarrow> varmap" where
  "Snapshot (v, sc) =
     (let scratch1 = vs_local v;
          scratch2 = (\<lambda>name. if name \<in> set (globalNames v) then Some (at (sv_global sc) name)
                             else scratch1 name)
      in case sv_users sc (vs_userID v) of
           None \<Rightarrow> scratch2
         | Some scoped \<Rightarrow>
             (\<lambda>name. if name \<in> set (userNames v) then Some (at scoped name) else scratch2 name))"

section \<open>A store of named values\<close>

text \<open>What the scenario actions rely on: reading back what was written.\<close>

locale value_store =
  fixes get :: "'s \<Rightarrow> string \<Rightarrow> string"
    and put :: "'s \<Rightarrow> string \<Rightarrow> string \<Rightarrow> 's"
  assumes get_put: "get (put s name value) name' = (if name' = name then value else get s name')"
begin

lemma get_put_same [simp]: "get (put s name value) name = value"
  by (simp add: get_put)

lemma put_commute_get:
  "a \<noteq> b \<Longrightarrow> get (put (put s a x) b y) n = get (put (put s b y) a x) n"
  by (simp add: get_put)

text \<open>A sequence of assignments: the last one for a name wins.\<close>

definition put_all :: "'s \<Rightarrow> (string \<times> string) list \<Rightarrow> 's" where
  "put_all s as = fold (\<lambda>(n, v) s. put s n v) as s"

lemma get_put_all:
  "get (put_all s as) name = (case map_of (rev as) name of Some v \<Rightarrow> v | None \<Rightarrow> get s name)"
proof (induction as arbitrary: s)
  case (Cons a as)
  obtain n v where a: "a = (n, v)" by fastforce
  have "get (put_all s (a # as)) name = get (put_all (put s n v) as) name"
    by (simp add: put_all_def a)
  then show ?case by (simp add: Cons.IH a get_put map_add_def split: option.splits)
qed (simp add: put_all_def)

end

lemma Get_Set: "Get (Set s name value) name' = (if name' = name then value else Get s name')"
  by (cases s) (auto simp: at_def Let_def split: option.splits)

interpretation vars: value_store Get Set
  by unfold_locales (rule Get_Set)

section \<open>Properties\<close>

text \<open>
  C27: Assignments of a call: after any sequence of \<^verbatim>\<open>Set\<close> operations, whatever the scopes of
  the names are, \<^verbatim>\<open>Get\<close> gives the value last assigned to a name, and the old value of every other.
\<close>
theorem Get_after_Sets:
  "Get (fold (\<lambda>(n, v) s. Set s n v) as s) name =
     (case map_of (rev as) name of Some v \<Rightarrow> v | None \<Rightarrow> Get s name)"
  using vars.get_put_all [of s as name] by (simp add: vars.put_all_def)

text \<open>
  Scoping between calls: when one call assigns, another call of the same scenario (with the
  same declarations) sees the new value exactly if the variable is global, or if it is a user
  variable and both calls belong to the same user; it never sees a local assignment.
\<close>
lemma Set_visibility:
  assumes "globalNames w = globalNames v" and "userNames w = userNames v"
  shows "Get (w, snd (Set (v, sc) name value)) name' =
    (if name' = name \<and> (name \<in> set (globalNames v)
         \<or> (name \<in> set (userNames v) \<and> vs_userID w = vs_userID v))
     then value else Get (w, sc) name')"
  using assms by (auto simp: at_def Let_def split: option.splits)

text \<open>A store holds no declared name among its local variables.\<close>

definition local_ok :: "varStore \<Rightarrow> bool" where
  "local_ok v \<longleftrightarrow> (\<forall>n \<in> dom (vs_local v). n \<notin> set (globalNames v) \<union> set (userNames v))"

lemma Snapshot_wf:
  "local_ok v \<Longrightarrow> set (globalNames v) \<inter> set (userNames v) = {} \<Longrightarrow>
   at (Snapshot (v, sc)) name = Get (v, sc) name"
  by (auto simp: local_ok_def at_def Let_def domIff split: option.splits)

lemma Set_wf:
  assumes "local_ok v" and "Set (v, sc) name value = (v', sc')"
  shows "local_ok v'" and "globalNames v' = globalNames v" "userNames v' = userNames v"
  using assms by (auto simp: local_ok_def Let_def split: if_splits)

lemma Sets_wf:
  assumes "local_ok v" and "fold (\<lambda>(n, x) s. Set s n x) as (v, sc) = (v', sc')"
  shows "local_ok v' \<and> globalNames v' = globalNames v \<and> userNames v' = userNames v"
  using assms
proof (induction as arbitrary: v sc)
  case (Cons a as)
  obtain n x where a: "a = (n, x)" by fastforce
  obtain v1 sc1 where s1: "Set (v, sc) n x = (v1, sc1)" by fastforce
  have "fold (\<lambda>(n, x) s. Set s n x) as (v1, sc1) = (v', sc')" using Cons.prems(2) a s1 by simp
  with Set_wf [OF Cons.prems(1) s1] Cons.IH show ?case by metis
qed simp

text \<open>
  A snapshot answers every name like \<^verbatim>\<open>Get\<close>, for every call store that was made by
  \<^verbatim>\<open>newVarStore\<close> and changed by \<^verbatim>\<open>Set\<close>, provided no name is declared both global and for users.
\<close>
lemma Snapshot_Get:
  fixes as :: "(string \<times> string) list" and uid :: int and sc :: scopedVars
  assumes "set gs \<inter> set us = {}"
  defines "s \<equiv> fold (\<lambda>(n, x) s. Set s n x) as (newVarStore gs us uid, sc)"
  shows "at (Snapshot s) name = Get s name"
proof -
  obtain v' sc' where s: "s = (v', sc')" by fastforce
  have "local_ok (newVarStore gs us uid)" by (simp add: local_ok_def newVarStore_def)
  from Sets_wf [OF this, of as sc v' sc'] s
  have wf: "local_ok v'" and names: "globalNames v' = gs" "userNames v' = us"
    unfolding s_def by (simp_all add: newVarStore_def)
  have "set (globalNames v') \<inter> set (userNames v') = {}" unfolding names by (rule assms(1))
  from Snapshot_wf [OF wf this] show ?thesis unfolding s .
qed

text \<open>
  For a name that is declared both global and for users the two disagree: \<^verbatim>\<open>Set\<close> and \<^verbatim>\<open>Get\<close>
  use the global variable, the snapshot that messages are rendered from the user variable.
\<close>
theorem Snapshot_clash:
  assumes "name \<in> set (globalNames v)" and "name \<in> set (userNames v)"
    and "sv_users sc (vs_userID v) = Some scoped" and "at scoped name \<noteq> value"
  shows "Get (Set (v, sc) name value) name = value \<and> at (Snapshot (Set (v, sc) name value)) name \<noteq> value"
  using assms by (simp add: at_def)

theorem Snapshot_clash_witness:
  "at (Snapshot (Set (newVarStore [''a''] [''a''] 1, newScopedVars\<lparr>sv_users := [1 \<mapsto> Map.empty]\<rparr>) ''a'' ''x'')) ''a'' \<noteq> ''x''"
  using Snapshot_clash [of "''a''" "newVarStore [''a''] [''a''] 1" "newScopedVars\<lparr>sv_users := [1 \<mapsto> Map.empty]\<rparr>"
      Map.empty "''x''"]
  by (simp add: newVarStore_def newScopedVars_def at_def)

end
