(* ===== verification/Bytes.thy ===== *)
theory Bytes
  imports Prelude
begin

text \<open>
  Fixed-width integers as bytes, \<^verbatim>\<open>encoding/binary\<close>: big-endian and little-endian writing and reading, for
  the command frames, the HEP packets, the WAV files and the link-layer headers.
\<close>

definition be_bytes :: "nat \<Rightarrow> nat \<Rightarrow> string" where
  "be_bytes w n = map (\<lambda>k. char_of (n div 256 ^ k mod 256)) (rev [0..<w])"

definition be_value :: "string \<Rightarrow> nat" where
  "be_value s = foldl (\<lambda>acc c. acc * 256 + of_char c) 0 s"

definition le_bytes :: "nat \<Rightarrow> nat \<Rightarrow> string" where
  "le_bytes w n = rev (be_bytes w n)"

definition le_value :: "string \<Rightarrow> nat" where
  "le_value s = be_value (rev s)"

lemma of_char_char_of_mod [simp]: "of_char (char_of (n mod 256) :: char) = n mod (256 :: nat)"
  by (simp add: take_bit_eq_mod)

lemma be_bytes_simps [simp]:
  "be_bytes 0 n = []" "be_bytes (Suc w) n = char_of (n div 256 ^ w mod 256) # be_bytes w n"
  by (simp_all add: be_bytes_def)

lemma length_be_bytes [simp]: "length (be_bytes w n) = w"
  by (simp add: be_bytes_def)

lemma be_value_append: "be_value (s @ [c]) = be_value s * 256 + of_char c"
  by (simp add: be_value_def)

lemma be_value_from: "foldl (\<lambda>acc c. acc * 256 + of_char c) a s = a * 256 ^ length s + be_value s"
proof (induction s rule: rev_induct)
  case Nil
  then show ?case by (simp add: be_value_def)
next
  case (snoc c s)
  then show ?case by (simp add: be_value_append algebra_simps)
qed

lemma be_value_Cons: "be_value (c # s) = of_char c * 256 ^ length s + be_value s"
  using be_value_from [of "of_char c" s] by (simp add: be_value_def)

lemma be_value_single: "be_value [char_of n] = n mod 256"
  by (simp add: be_value_def take_bit_eq_mod)

lemma be_value_bytes: "be_value (be_bytes w n) = n mod 256 ^ w"
proof (induction w)
  case 0
  then show ?case by (simp add: be_value_def)
next
  case (Suc w)
  have "n mod 256 ^ Suc w = 256 ^ w * (n div 256 ^ w mod 256) + n mod 256 ^ w"
    using mod_mult2_eq [of n "256 ^ w" 256] by (simp add: mult.commute)
  with Suc show ?case by (simp add: be_value_Cons algebra_simps)
qed

lemma le_value_bytes: "le_value (le_bytes w n) = n mod 256 ^ w"
  by (simp add: le_value_def le_bytes_def be_value_bytes)

lemma length_le_bytes [simp]: "length (le_bytes w n) = w"
  by (simp add: le_bytes_def)

lemma be_value_bound: "be_value s < 256 ^ length s"
proof (induction s rule: rev_induct)
  case (snoc c s)
  have "of_char c < (256 :: nat)" by (rule nat_of_char_less_256)
  with snoc have "be_value s * 256 + of_char c < 256 ^ length s * 256" by linarith
  then show ?case by (simp add: be_value_append algebra_simps)
qed (simp add: be_value_def)

end
