(* ===== verification/CommandBus.thy ===== *)
theory CommandBus
  imports Bytes SipMessage Template
begin

text \<open>
  Third-party call control, \<^verbatim>\<open>internal/engine/command_bus.go\<close> and \<^verbatim>\<open>command_network.go\<close>: the broker that
  queues command messages by call, the length-prefixed frames that carry them between instances, and
  the helpers of \<^verbatim>\<open>engine.go\<close> that read the Call-ID and the sender of a command.

  The broker's map is an association list in the order in which the runtime iterates it; the mutex
  makes each operation atomic.  Dialling and writing to a peer are parameters.
\<close>

section \<open>The broker\<close>

record commandMessage =
  cmd_raw :: string
  cmd_from :: string

type_synonym commandBroker = "(string \<times> commandMessage list) list"

abbreviation NUL :: char where "NUL \<equiv> CHR 0x00"

definition newCommandBroker :: commandBroker where
  "newCommandBroker = []"

definition broker_key :: "string \<Rightarrow> string \<Rightarrow> string" where
  "broker_key callID channel = callID @ NUL # channel"

definition queue_get :: "commandBroker \<Rightarrow> string \<Rightarrow> commandMessage list" where
  "queue_get b key = (case map_of b key of None \<Rightarrow> [] | Some q \<Rightarrow> q)"

fun queue_put :: "commandBroker \<Rightarrow> string \<Rightarrow> commandMessage list \<Rightarrow> commandBroker" where
  "queue_put [] key q = [(key, q)]"
| "queue_put ((k, q') # b) key q = (if k = key then (k, q) # b else (k, q') # queue_put b key q)"

definition enqueue :: "commandBroker \<Rightarrow> string \<Rightarrow> string \<Rightarrow> commandMessage \<Rightarrow> commandBroker" where
  "enqueue b callID channel msg =
     (let key = broker_key callID channel in queue_put b key (queue_get b key @ [msg]))"

definition from_src :: "string \<Rightarrow> commandMessage \<Rightarrow> bool" where
  "from_src src msg \<longleftrightarrow> src = [] \<or> cmd_from msg = src"

text \<open>The first message of a queue that comes from \<open>src\<close>, and the queue without it.\<close>

fun take_first :: "('a \<Rightarrow> bool) \<Rightarrow> 'a list \<Rightarrow> ('a \<times> 'a list) option" where
  "take_first p [] = None"
| "take_first p (x # xs) =
     (if p x then Some (x, xs) else map_option (\<lambda>(y, r). (y, x # r)) (take_first p xs))"

definition dequeue :: "commandBroker \<Rightarrow> string \<Rightarrow> string \<Rightarrow> string \<Rightarrow> commandMessage option \<times> commandBroker" where
  "dequeue b callID channel src =
     (let key = broker_key callID channel
      in case take_first (from_src src) (queue_get b key) of
           None \<Rightarrow> (None, b)
         | Some (msg, rest) \<Rightarrow> (Some msg, queue_put b key rest))"

datatype any_outcome = AnyNone | AnyMsg string commandMessage commandBroker | AnyPanic

text \<open>
  \<open>full\<close> is the whole map and \<open>rest\<close> what is still to be visited.  Cutting the suffix off a key that
  is shorter panics.
\<close>

fun any_scan :: "commandBroker \<Rightarrow> string \<Rightarrow> string \<Rightarrow> commandBroker \<Rightarrow> any_outcome" where
  "any_scan full suffix src [] = AnyNone"
| "any_scan full suffix src ((key, q) # rest) =
     (if length suffix \<le> length key \<and> drop (length key - length suffix) key \<noteq> suffix
      then any_scan full suffix src rest
      else case take_first (from_src src) q of
             None \<Rightarrow> any_scan full suffix src rest
           | Some (msg, q') \<Rightarrow>
               if length key < length suffix then AnyPanic
               else AnyMsg (take (length key - length suffix) key) msg (queue_put full key q'))"

definition dequeueAny :: "commandBroker \<Rightarrow> string \<Rightarrow> string \<Rightarrow> any_outcome" where
  "dequeueAny b channel src = any_scan b (NUL # channel) src b"

section \<open>Command messages\<close>

definition command_header_line :: "headers \<Rightarrow> string \<Rightarrow> headers" where
  "command_header_line hs line0 =
     (let line = strings_TrimSpace line0
      in if line = [] then hs
         else case strings_Cut line CHR '':'' of
                None \<Rightarrow> hs
              | Some (name0, value) \<Rightarrow>
                  let name = strings_TrimSpace name0
                  in if name = [] then hs else hdr_append hs name [strings_TrimSpace value])"

definition parseCommandHeaders :: "string \<Rightarrow> headers" where
  "parseCommandHeaders msg = foldl command_header_line [] (SplitLinesTo msg)"

definition lookupHeaderCI :: "headers \<Rightarrow> string \<Rightarrow> string list option" where
  "lookupHeaderCI hs name =
     map_option snd (find (\<lambda>(key, values). strings_EqualFold key name) hs)"

definition commandCallID :: "string \<Rightarrow> string \<Rightarrow> string" where
  "commandCallID raw fallback =
     (case lookupHeaderCI (parseCommandHeaders raw) ''Call-ID'' of
        None \<Rightarrow> fallback
      | Some [] \<Rightarrow> fallback
      | Some (v # vs) \<Rightarrow> if strings_TrimSpace v = [] then fallback else NormalizeCallID v)"

definition commandSender :: "string \<Rightarrow> string \<Rightarrow> string" where
  "commandSender raw fallback =
     (case lookupHeaderCI (parseCommandHeaders raw) ''From'' of
        None \<Rightarrow> fallback
      | Some [] \<Rightarrow> fallback
      | Some (v # vs) \<Rightarrow> if strings_TrimSpace v = [] then fallback else strings_TrimSpace v)"

definition fallbackCommandSender :: "string \<Rightarrow> string \<Rightarrow> string" where
  "fallbackCommandSender name dest = (if name \<noteq> [] then name else dest)"

section \<open>Frames\<close>

definition be32 :: "nat \<Rightarrow> string" where
  "be32 n = be_bytes 4 n"

definition uint32_be :: "string \<Rightarrow> nat" where
  "uint32_be s = be_value s"

text \<open>\<^verbatim>\<open>uint32(len(data))\<close> keeps the low 32 bits.\<close>

definition writeCommandFrame :: "string \<Rightarrow> string" where
  "writeCommandFrame raw = be32 (length raw mod 2 ^ 32) @ raw"

text \<open>Reading from the bytes still to come: \<open>None\<close> is an error (the end of the stream).\<close>

definition readCommandFrame :: "string \<Rightarrow> (string \<times> string) option" where
  "readCommandFrame s =
     (if length s < 4 then None
      else
        let size = uint32_be (take 4 s); rest = drop 4 s
        in if size = 0 then Some ([], rest)
           else if length rest < size then None
           else Some (take size rest, drop size rest))"

section \<open>The network\<close>

text \<open>One frame that a peer at \<open>remote\<close> sent.\<close>

definition receive_frame :: "string \<Rightarrow> commandBroker \<Rightarrow> string \<Rightarrow> commandBroker" where
  "receive_frame remote b raw =
     (let callID = commandCallID raw []
      in if callID = [] then b
         else enqueue b callID [] \<lparr>cmd_raw = raw, cmd_from = commandSender raw remote\<rparr>)"

lemma readCommandFrame_shorter: "readCommandFrame s = Some (raw, rest) \<Longrightarrow> length rest < length s"
  by (auto simp: readCommandFrame_def Let_def split: if_splits)

function receive_loop :: "string \<Rightarrow> commandBroker \<Rightarrow> string \<Rightarrow> commandBroker" where
  "receive_loop remote b s =
     (case readCommandFrame s of
        None \<Rightarrow> b
      | Some (raw, rest) \<Rightarrow> receive_loop remote (receive_frame remote b raw) rest)"
  by pat_completeness auto
termination
  by (relation "measure (\<lambda>(r, b, s). length s)") (auto dest: readCommandFrame_shorter)

declare receive_loop.simps [simp del]

datatype send_error = NoCallID | UnknownPeer string | DialError string | WriteError

datatype send_outcome = SendFailed send_error | SentLocal commandBroker | SentRemote string string

text \<open>
  \<open>net\<close> is the command network when it runs (the peers' addresses), \<open>dial\<close> and \<open>write\<close> say whether
  the connection and the write succeed.
\<close>

definition sendCommand ::
  "(string \<Rightarrow> bool) \<Rightarrow> (string \<Rightarrow> bool) \<Rightarrow> string \<Rightarrow> (string \<Rightarrow> string option) option \<Rightarrow> commandBroker
    \<Rightarrow> string \<Rightarrow> string \<Rightarrow> send_outcome" where
  "sendCommand dial write cfgName net b dest raw =
     (let sender = commandSender raw (fallbackCommandSender cfgName dest);
          callID = commandCallID raw []
      in if callID = [] then SendFailed NoCallID
         else case (if dest \<noteq> [] \<and> dest \<noteq> cfgName then net else None) of
                Some peers \<Rightarrow>
                  (case peers dest of
                     None \<Rightarrow> SendFailed (UnknownPeer dest)
                   | Some addr \<Rightarrow>
                       if \<not> dial addr then SendFailed (DialError addr)
                       else if \<not> write (writeCommandFrame raw) then SendFailed WriteError
                       else SentRemote addr (writeCommandFrame raw))
              | None \<Rightarrow> SentLocal (enqueue b callID [] \<lparr>cmd_raw = raw, cmd_from = sender\<rparr>))"

section \<open>Channels with selective receive\<close>

lemma take_first_SomeD:
  "take_first p xs = Some (x, r) \<Longrightarrow>
   \<exists>as bs. xs = as @ x # bs \<and> r = as @ bs \<and> p x \<and> (\<forall>a \<in> set as. \<not> p a)"
proof (induction xs arbitrary: r)
  case (Cons y ys)
  show ?case
  proof (cases "p y")
    case True
    with Cons.prems show ?thesis by (intro exI [of _ "[]"] exI [of _ ys]) simp
  next
    case False
    with Cons.prems obtain r' where r': "take_first p ys = Some (x, r')" "r = y # r'" by auto
    from Cons.IH [OF r'(1)] obtain as bs where
      "ys = as @ x # bs \<and> r' = as @ bs \<and> p x \<and> (\<forall>a \<in> set as. \<not> p a)" by blast
    with r'(2) False show ?thesis by (intro exI [of _ "y # as"] exI [of _ bs]) simp
  qed
qed simp

lemma take_first_None: "take_first p xs = None \<longleftrightarrow> (\<forall>x \<in> set xs. \<not> p x)"
  by (induction xs) auto

lemma take_first_filter:
  "take_first p xs = Some (x, r) \<Longrightarrow> filter p xs = x # filter p r \<and> filter (\<lambda>y. \<not> p y) r = filter (\<lambda>y. \<not> p y) xs"
  by (auto dest!: take_first_SomeD)

text \<open>
  What a call control scenario relies on: a channel per call that keeps the order of the messages,
  from which a receiver takes the first message that it accepts.
\<close>

locale channels =
  fixes content :: "'b \<Rightarrow> 'k \<Rightarrow> 'm list"
    and enq :: "'b \<Rightarrow> 'k \<Rightarrow> 'm \<Rightarrow> 'b"
    and deq :: "'b \<Rightarrow> 'k \<Rightarrow> 's \<Rightarrow> 'm option \<times> 'b"
    and accepts :: "'s \<Rightarrow> 'm \<Rightarrow> bool"
  assumes content_enq: "content (enq b k m) k' = (if k' = k then content b k @ [m] else content b k')"
    and deq_none: "take_first (accepts s) (content b k) = None \<Longrightarrow> deq b k s = (None, b)"
    and deq_some: "take_first (accepts s) (content b k) = Some (m, r) \<Longrightarrow> fst (deq b k s) = Some m"
    and content_deq: "take_first (accepts s) (content b k) = Some (m, r) \<Longrightarrow>
      content (snd (deq b k s)) k' = (if k' = k then r else content b k')"
begin

fun receive :: "nat \<Rightarrow> 'b \<Rightarrow> 'k \<Rightarrow> 's \<Rightarrow> 'm list \<times> 'b" where
  "receive 0 b k s = ([], b)"
| "receive (Suc n) b k s =
     (case deq b k s of
        (None, b') \<Rightarrow> ([], b')
      | (Some m, b') \<Rightarrow> (case receive n b' k s of (ms, b'') \<Rightarrow> (m # ms, b'')))"

lemma receive_order:
  "fst (receive n b k s) = take n (filter (accepts s) (content b k))
   \<and> content (snd (receive n b k s)) k' =
       (if k' = k then content (snd (receive n b k s)) k else content b k')"
proof (induction n arbitrary: b)
  case (Suc n)
  show ?case
  proof (cases "take_first (accepts s) (content b k)")
    case None
    then show ?thesis using deq_none [OF None] by (simp add: take_first_None)
  next
    case (Some p)
    obtain m r where p: "p = (m, r)" by fastforce
    note Some = Some [unfolded p]
    obtain b' where d: "deq b k s = (Some m, b')"
      using deq_some [OF Some] by (cases "deq b k s") auto
    have c: "content b' k = r" "k' \<noteq> k \<Longrightarrow> content b' k' = content b k'"
      using content_deq [OF Some] d by simp_all
    show ?thesis
      using Suc.IH [of b'] take_first_filter [OF Some] c d by (auto split: prod.splits)
  qed
qed simp

end

lemma queue_get_put: "queue_get (queue_put b key q) key' = (if key' = key then q else queue_get b key')"
  by (induction b key q rule: queue_put.induct) (auto simp: queue_get_def)

lemma broker_key_inj [simp]: "broker_key a [] = broker_key b [] \<longleftrightarrow> a = b"
  by (simp add: broker_key_def)

interpretation bus: channels
  "\<lambda>b callID. queue_get b (broker_key callID [])"
  "\<lambda>b callID m. enqueue b callID [] m"
  "\<lambda>b callID src. dequeue b callID [] src"
  from_src
  by unfold_locales (simp_all add: enqueue_def dequeue_def queue_get_put Let_def)

text \<open>Taking up to \<open>n\<close> commands for a call.\<close>

fun dequeue_n :: "nat \<Rightarrow> commandBroker \<Rightarrow> string \<Rightarrow> string \<Rightarrow> commandMessage list \<times> commandBroker" where
  "dequeue_n 0 b callID src = ([], b)"
| "dequeue_n (Suc n) b callID src =
     (case dequeue b callID [] src of
        (None, b') \<Rightarrow> ([], b')
      | (Some m, b') \<Rightarrow> (case dequeue_n n b' callID src of (ms, b'') \<Rightarrow> (m # ms, b'')))"

lemma dequeue_n_receive: "dequeue_n n b callID src = bus.receive n b callID src"
  by (induction n arbitrary: b) (auto split: prod.splits option.splits)

section \<open>Lemmas on frames\<close>

lemma be32_roundtrip: "n < 2 ^ 32 \<Longrightarrow> uint32_be (be32 n) = n"
  by (simp add: uint32_be_def be32_def be_value_bytes)

lemma length_be32 [simp]: "length (be32 n) = 4"
  by (simp add: be32_def)

lemma frame_roundtrip:
  assumes "length raw < 2 ^ 32"
  shows "readCommandFrame (writeCommandFrame raw @ rest) = Some (raw, rest)"
proof -
  have "uint32_be (take 4 (writeCommandFrame raw @ rest)) = length raw"
    using assms by (simp add: writeCommandFrame_def be32_roundtrip)
  then show ?thesis by (simp add: readCommandFrame_def Let_def) (simp add: writeCommandFrame_def)
qed

lemma receive_loop_frames:
  "\<forall>raw \<in> set raws. length raw < 2 ^ 32 \<Longrightarrow> readCommandFrame rest = None \<Longrightarrow>
   receive_loop remote b (concat (map writeCommandFrame raws) @ rest) = foldl (receive_frame remote) b raws"
proof (induction raws arbitrary: b)
  case Nil
  then show ?case by (simp add: receive_loop.simps [of remote b])
next
  case (Cons raw raws)
  have "readCommandFrame (writeCommandFrame raw @ concat (map writeCommandFrame raws) @ rest) =
      Some (raw, concat (map writeCommandFrame raws) @ rest)"
    using Cons.prems by (intro frame_roundtrip) simp
  with Cons show ?case by (simp add: receive_loop.simps [of remote b])
qed

lemma receive_frames_content:
  "callID \<noteq> [] \<Longrightarrow> queue_get (foldl (receive_frame remote) b raws) (broker_key callID []) =
     queue_get b (broker_key callID [])
     @ map (\<lambda>raw. \<lparr>cmd_raw = raw, cmd_from = commandSender raw remote\<rparr>)
         (filter (\<lambda>raw. commandCallID raw [] = callID) raws)"
proof (induction raws arbitrary: b)
  case (Cons raw raws)
  have "queue_get (receive_frame remote b raw) (broker_key callID []) =
      queue_get b (broker_key callID [])
      @ (if commandCallID raw [] = callID
         then [\<lparr>cmd_raw = raw, cmd_from = commandSender raw remote\<rparr>] else [])"
    using Cons.prems bus.content_enq by (simp add: receive_frame_def Let_def)
  with Cons show ?case by simp
qed simp

section \<open>Receiving from any call\<close>

text \<open>The keys of a broker that is used with the empty channel, as the engine does.\<close>

definition plain_keys :: "commandBroker \<Rightarrow> bool" where
  "plain_keys b \<longleftrightarrow> distinct (map fst b) \<and> (\<forall>(key, q) \<in> set b. \<exists>callID. key = broker_key callID [])"

lemma queue_put_keys: "fst ` set (queue_put b key q) = insert key (fst ` set b)"
  by (induction b key q rule: queue_put.induct) auto

lemma queue_put_distinct: "distinct (map fst b) \<Longrightarrow> distinct (map fst (queue_put b key q))"
proof (induction b key q rule: queue_put.induct)
  case (2 k q' b key q)
  then show ?case using queue_put_keys [of b key q] by (auto simp: image_iff)
qed simp

lemma queue_put_set: "(k, q) \<in> set (queue_put b key q0) \<Longrightarrow> k = key \<or> (k, q) \<in> set b"
  by (induction b key q0 rule: queue_put.induct) (auto split: if_splits)

lemma plain_keys_put: "plain_keys b \<Longrightarrow> plain_keys (queue_put b (broker_key callID []) q)"
  unfolding plain_keys_def using queue_put_distinct queue_put_set by fastforce

lemma plain_keys_enqueue: "plain_keys b \<Longrightarrow> plain_keys (enqueue b callID [] msg)"
  by (simp add: enqueue_def Let_def plain_keys_put)

lemma plain_keys_dequeue: "plain_keys b \<Longrightarrow> plain_keys (snd (dequeue b callID [] src))"
  by (auto simp: dequeue_def Let_def plain_keys_put split: option.splits)

lemma any_scan_plain:
  assumes "\<forall>(key, q) \<in> set rest. \<exists>callID. key = broker_key callID []"
  shows "(\<exists>callID q msg q'. (broker_key callID [], q) \<in> set rest \<and> take_first (from_src src) q = Some (msg, q')
       \<and> any_scan full [NUL] src rest = AnyMsg callID msg (queue_put full (broker_key callID []) q'))
    \<or> (any_scan full [NUL] src rest = AnyNone
       \<and> (\<forall>(key, q) \<in> set rest. take_first (from_src src) q = None))"
  using assms
proof (induction rest)
  case (Cons kq rest)
  obtain callID q where kq: "kq = (broker_key callID [], q)" using Cons.prems by (cases kq) auto
  show ?case
  proof (cases "take_first (from_src src) q")
    case None
    then have step: "any_scan full [NUL] src (kq # rest) = any_scan full [NUL] src rest"
      by (simp add: kq broker_key_def)
    have "\<forall>(key, q) \<in> set rest. \<exists>callID. key = broker_key callID []" using Cons.prems by simp
    from Cons.IH [OF this] show ?thesis
    proof
      assume "any_scan full [NUL] src rest = AnyNone \<and> (\<forall>(key, q) \<in> set rest. take_first (from_src src) q = None)"
      with None kq show ?thesis unfolding step by (intro disjI2) auto
    next
      assume "\<exists>callID q msg q'. (broker_key callID [], q) \<in> set rest \<and> take_first (from_src src) q = Some (msg, q')
        \<and> any_scan full [NUL] src rest = AnyMsg callID msg (queue_put full (broker_key callID []) q')"
      then show ?thesis unfolding step by (intro disjI1) (meson list.set_intros(2))
    qed
  next
    case (Some mq)
    then show ?thesis unfolding kq
      by (intro disjI1) (auto simp: broker_key_def split: prod.splits)
  qed
qed simp

section \<open>Properties\<close>



text \<open>
  C19: Commands that a peer sends as frames over one connection arrive complete and in order: the
  queue of a call grows by exactly the commands with its Call-ID, each with the sender it names or
  the peer's address.
\<close>
theorem network_delivery:
  assumes "\<forall>raw \<in> set raws. length raw < 2 ^ 32" and "readCommandFrame rest = None" and "callID \<noteq> []"
  shows "queue_get (receive_loop remote b (concat (map writeCommandFrame raws) @ rest)) (broker_key callID []) =
     queue_get b (broker_key callID [])
     @ map (\<lambda>raw. \<lparr>cmd_raw = raw, cmd_from = commandSender raw remote\<rparr>)
         (filter (\<lambda>raw. commandCallID raw [] = callID) raws)"
  using receive_loop_frames [OF assms(1,2)] receive_frames_content [OF assms(3)] by simp

theorem network_delivery_witness:
  "queue_get (receive_loop ''peer'' newCommandBroker
      (concat (map writeCommandFrame [''Call-ID: x///7'', ''Call-ID: 8'', ''From: m'' @ [LF] @ ''Call-ID: 7'']) @ [NUL]))
      (broker_key ''7'' []) =
     [\<lparr>cmd_raw = ''Call-ID: x///7'', cmd_from = ''peer''\<rparr>,
      \<lparr>cmd_raw = ''From: m'' @ [LF] @ ''Call-ID: 7'', cmd_from = ''m''\<rparr>]"
proof -
  have "commandCallID ''Call-ID: x///7'' [] = ''7''" "commandCallID ''Call-ID: 8'' [] = ''8''"
    "commandCallID (''From: m'' @ [LF] @ ''Call-ID: 7'') [] = ''7''"
    "commandSender ''Call-ID: x///7'' ''peer'' = ''peer''"
    "commandSender (''From: m'' @ [LF] @ ''Call-ID: 7'') ''peer'' = ''m''" by code_simp+
  moreover have "readCommandFrame [NUL] = None" by (simp add: readCommandFrame_def)
  ultimately show ?thesis
    using network_delivery [of "[''Call-ID: x///7'', ''Call-ID: 8'', ''From: m'' @ [LF] @ ''Call-ID: 7'']" "[NUL]" "''7''"
        "''peer''" newCommandBroker]
    by (simp add: newCommandBroker_def queue_get_def)
qed

text \<open>
  A receiver without a call gets a message of some call, the first from \<open>src\<close> in that call's
  queue, which alone is removed; it gets none only when no queue holds one; and on the brokers that
  the engine builds (it uses the empty channel only) the lookup never panics.
\<close>
lemma dequeueAny_sound:
  assumes "plain_keys b"
  shows "(\<exists>callID msg q'. take_first (from_src src) (queue_get b (broker_key callID [])) = Some (msg, q')
       \<and> dequeueAny b [] src = AnyMsg callID msg (queue_put b (broker_key callID []) q'))
    \<or> (dequeueAny b [] src = AnyNone
       \<and> (\<forall>callID. take_first (from_src src) (queue_get b (broker_key callID [])) = None))"
proof -
  have keys: "\<forall>(key, q) \<in> set b. \<exists>callID. key = broker_key callID []" and dist: "distinct (map fst b)"
    using assms by (auto simp: plain_keys_def)
  have get: "queue_get b key = q" if "(key, q) \<in> set b" for key q
    using that dist by (simp add: queue_get_def)
  have none: "take_first (from_src src) (queue_get b key) = None"
    if "\<forall>(key, q) \<in> set b. take_first (from_src src) q = None" for key
    using that by (auto simp: queue_get_def split: option.splits dest: map_of_SomeD)
  show ?thesis
    using any_scan_plain [OF keys, of src b] get none unfolding dequeueAny_def by auto
qed

text \<open>
  With another channel name a key that is shorter than the suffix is not skipped: a message for it is
  cut out of a string that is too short.
\<close>

lemma dequeueAny_short_key:
  assumes "b = (key, msg # q) # b'" and "length key < Suc (length channel)"
  shows "dequeueAny b channel [] = AnyPanic"
  using assms by (simp add: dequeueAny_def from_src_def)

end
