(* ===== verification/Actions.thy ===== *)
theory Actions
  imports Scenario Outgoing VarStore CommandBus
begin

text \<open>
  Scenario actions, the action half of \<^verbatim>\<open>internal/engine/engine.go\<close> (\<^verbatim>\<open>applyActions\<close> and its helpers) and
  the dispatch of \<^verbatim>\<open>internal/engine/actions_exec.go\<close>.  An action reads and writes the variables of the
  call and the cell overrides of injection files, and may ask for a jump or a new destination.

  The outside world of one action is a record: the file system and clock at each rendering pass, the
  CSV index files, the time of day, the random generator, the regular expression engine (a pattern
  that compiles gives the submatches of a text), and what an external command or a media action ends
  with.
\<close>

section \<open>Results and the outside world\<close>

datatype act_error =
    ActRender render_error
  | BadNumber string
  | DivideByZero
  | LookupNoFile
  | LookupCsv csv_error
  | SampleNoSpec
  | SampleToken string
  | SampleBad string string
  | SampleKey string
  | SampleRange
  | SampleStep
  | SampleOrder
  | SampleTooLarge
  | SampleEmpty
  | MutationNoFile
  | MutationNoSpec
  | MutationToken string
  | MutationMissing string
  | MutationBad string string
  | MutationFailed mutation_error
  | JumpMissing
  | JumpBad string
  | UrlEscape
  | AuthFailed auth_error
  | DestNoHost
  | DestNoPort
  | DestBadPort string
  | DestPortRange int
  | BadPattern string
  | NoMatch string
  | UnexpectedMatch string
  | StopCall
  | StopNow
  | BadIntCmd string
  | ExecFailed string

record actionResult =
  jumpIndex :: int
  hasJump :: bool
  setDestinationHost :: string
  setDestinationPort :: int
  setDestinationProto :: string
  hasSetDestination :: bool

definition noResult :: actionResult where
  "noResult = \<lparr>jumpIndex = 0, hasJump = False, setDestinationHost = [], setDestinationPort = 0,
     setDestinationProto = [], hasSetDestination = False\<rparr>"

record act_world =
  aw_render :: "nat \<Rightarrow> render_env"
  aw_index :: index_files
  aw_epoch :: "int \<times> int"
  aw_intn :: "int option \<Rightarrow> int \<Rightarrow> int"
  aw_regexp :: "string \<Rightarrow> (string \<Rightarrow> string list) option"
  aw_exec :: "Action \<Rightarrow> render_context \<Rightarrow> act_error option"

definition render :: "act_world \<Rightarrow> nat \<Rightarrow> string \<Rightarrow> render_context \<Rightarrow> (act_error, string) result" where
  "render w k raw ctx =
     (case RenderMessageStrict (aw_render w (2 * k)) (aw_render w (2 * k + 1)) raw ctx of
        Inl e \<Rightarrow> Inl (ActRender e)
      | Inr s \<Rightarrow> Inr s)"

section \<open>Values\<close>

definition variableTruthy :: "string \<Rightarrow> bool" where
  "variableTruthy value \<longleftrightarrow> strings_ToLower (strings_TrimSpace value) \<notin> {[], ''0'', ''false'', ''no''}"

definition parseComparableNumbers :: "string \<Rightarrow> string \<Rightarrow> (float64 \<times> float64) option" where
  "parseComparableNumbers left right =
     (case strconv_ParseFloat (strings_TrimSpace left) of
        None \<Rightarrow> None
      | Some l \<Rightarrow>
          (case strconv_ParseFloat (strings_TrimSpace right) of
             None \<Rightarrow> None
           | Some r \<Rightarrow> Some (l, r)))"

fun strings_Compare :: "string \<Rightarrow> string \<Rightarrow> int" where
  "strings_Compare [] [] = 0"
| "strings_Compare [] (d # t) = - 1"
| "strings_Compare (c # s) [] = 1"
| "strings_Compare (c # s) (d # t) =
     (if (of_char c :: nat) < of_char d then - 1
      else if (of_char d :: nat) < of_char c then 1 else strings_Compare s t)"

datatype comparison = CmpEq | CmpNe | CmpGt | CmpLt | CmpGe | CmpLe

definition comparison_of :: "string \<Rightarrow> comparison" where
  "comparison_of compare =
     (let c = strings_ToLower (strings_TrimSpace compare)
      in if c \<in> {[], ''equal'', ''eq''} then CmpEq
         else if c \<in> {''not_equal'', ''ne''} then CmpNe
         else if c \<in> {''greater_than'', ''gt''} then CmpGt
         else if c \<in> {''less_than'', ''lt''} then CmpLt
         else if c \<in> {''greater_than_equal'', ''greater_than_or_equal'', ''ge'', ''gte''} then CmpGe
         else if c \<in> {''less_than_equal'', ''less_than_or_equal'', ''le'', ''lte''} then CmpLe
         else CmpEq)"

fun compare_floats :: "comparison \<Rightarrow> float64 \<Rightarrow> float64 \<Rightarrow> bool" where
  "compare_floats CmpEq l r = float_eq l r"
| "compare_floats CmpNe l r = (\<not> float_eq l r)"
| "compare_floats CmpGt l r = float_lt r l"
| "compare_floats CmpLt l r = float_lt l r"
| "compare_floats CmpGe l r = float_le r l"
| "compare_floats CmpLe l r = float_le l r"

fun compare_order :: "comparison \<Rightarrow> int \<Rightarrow> bool" where
  "compare_order CmpEq n = (n = 0)"
| "compare_order CmpNe n = (n \<noteq> 0)"
| "compare_order CmpGt n = (0 < n)"
| "compare_order CmpLt n = (n < 0)"
| "compare_order CmpGe n = (0 \<le> n)"
| "compare_order CmpLe n = (n \<le> 0)"

definition compareValues :: "string \<Rightarrow> string \<Rightarrow> string \<Rightarrow> bool" where
  "compareValues left right compare =
     (case parseComparableNumbers left right of
        Some (l, r) \<Rightarrow> compare_floats (comparison_of compare) l r
      | None \<Rightarrow> compare_order (comparison_of compare) (strings_Compare left right))"

definition parseActionFloat :: "string \<Rightarrow> (act_error, float64) result" where
  "parseActionFloat value =
     (case strconv_ParseFloat (strings_TrimSpace value) of None \<Rightarrow> Inl (BadNumber value) | Some f \<Rightarrow> Inr f)"

definition formatActionFloat :: "float64 \<Rightarrow> string" where
  "formatActionFloat value = strconv_FormatFloat value"

text \<open>The switch is only reached with one of the four arithmetic actions.\<close>

definition applyArithmeticAction :: "ActionType \<Rightarrow> float64 \<Rightarrow> float64 \<Rightarrow> (act_error, float64) result" where
  "applyArithmeticAction actionType left right =
     (if actionType = ActionAdd then Inr (float_add left right)
      else if actionType = ActionSubtract then Inr (float_sub left right)
      else if actionType = ActionMultiply then Inr (float_mult left right)
      else if float_eq right (Fin 0) then Inl DivideByZero
      else Inr (float_div left right))"

definition firstAssignTarget :: "string list \<Rightarrow> string" where
  "firstAssignTarget assignTo = (case assignTo of [] \<Rightarrow> [] | n # ns \<Rightarrow> n)"

definition assignActionValue :: "string list \<Rightarrow> string \<Rightarrow> var_state \<Rightarrow> var_state" where
  "assignActionValue assignTo value vars = foldl (\<lambda>v name. Set v name value) vars assignTo"

definition resolveActionOperand :: "act_world \<Rightarrow> Action \<Rightarrow> render_context \<Rightarrow> var_state \<Rightarrow> (act_error, string) result" where
  "resolveActionOperand w action ctx vars =
     (if strings_TrimSpace (a_Variable2 action) \<noteq> [] then Inr (Get vars (a_Variable2 action))
      else render w 0 (a_Value action) ctx)"

definition renderNumericActionValue ::
  "act_world \<Rightarrow> Action \<Rightarrow> render_context \<Rightarrow> var_state \<Rightarrow> (act_error, string) result" where
  "renderNumericActionValue w action ctx vars =
     (if strings_TrimSpace (a_Variable action) \<noteq> [] then Inr (Get vars (a_Variable action))
      else render w 0 (a_Value action) ctx)"

definition actionNumericOperand ::
  "act_world \<Rightarrow> Action \<Rightarrow> render_context \<Rightarrow> var_state \<Rightarrow> (act_error, float64) result" where
  "actionNumericOperand w action ctx vars =
     bind_result (renderNumericActionValue w action ctx vars) parseActionFloat"

definition resolveJumpTarget :: "Action \<Rightarrow> var_state \<Rightarrow> (act_error, int) result" where
  "resolveJumpTarget action vars =
     (let target0 = strings_TrimSpace (a_Value action);
          target = (if target0 = [] \<and> strings_TrimSpace (a_Variable action) \<noteq> []
                    then strings_TrimSpace (Get vars (a_Variable action)) else target0)
      in if target = [] then Inl JumpMissing
         else case strconv_Atoi target of
                (_, Some e) \<Rightarrow> Inl (JumpBad target)
              | (value, None) \<Rightarrow> if value < 0 then Inl (JumpBad target) else Inr value)"

section \<open>Escaping\<close>

definition url_unreserved :: "char \<Rightarrow> bool" where
  "url_unreserved c \<longleftrightarrow>
     (let n = (of_char c :: nat)
      in 97 \<le> n \<and> n \<le> 122 \<or> 65 \<le> n \<and> n \<le> 90 \<or> 48 \<le> n \<and> n \<le> 57
         \<or> c \<in> {CHR ''-'', CHR ''_'', CHR ''.'', CHR ''~''})"

definition upper_hex :: "nat \<Rightarrow> char" where
  "upper_hex d = ''0123456789ABCDEF'' ! d"

definition url_QueryEscape :: "string \<Rightarrow> string" where
  "url_QueryEscape s =
     concat (map (\<lambda>c. if url_unreserved c then [c]
                      else if c = SP then ''+''
                      else [CHR ''%'', upper_hex (of_char c div 16), upper_hex (of_char c mod 16)]) s)"

fun url_QueryUnescape :: "string \<Rightarrow> string option" where
  "url_QueryUnescape [] = Some []"
| "url_QueryUnescape (c # s) =
     (if c = CHR ''%'' then
        (case s of
           a # b # t \<Rightarrow>
             (case (hex_val a, hex_val b) of
                (Some x, Some y) \<Rightarrow> map_option (\<lambda>r. char_of (16 * x + y) # r) (url_QueryUnescape t)
              | _ \<Rightarrow> None)
         | _ \<Rightarrow> None)
      else map_option (\<lambda>r. (if c = CHR ''+'' then SP else c) # r) (url_QueryUnescape s))"

section \<open>Samples\<close>

record sampleSpec =
  sp_min :: int
  sp_max :: int
  sp_step :: int
  sp_seed :: "int option"

record sample_scan =
  sc_spec :: sampleSpec
  sc_hasMin :: bool
  sc_hasMax :: bool

text \<open>\<^verbatim>\<open>strings.SplitN(field, "=", 2)\<close> gives two parts exactly when the separator occurs.\<close>

definition sample_field :: "sample_scan \<Rightarrow> string \<Rightarrow> (act_error, sample_scan) result" where
  "sample_field sc field =
     (case strings_Cut field CHR ''='' of
        None \<Rightarrow> Inl (SampleToken field)
      | Some (k, v) \<Rightarrow>
          let key = strings_ToLower (strings_TrimSpace k); val = strings_TrimSpace v
          in if key \<in> {''min'', ''max'', ''step'', ''seed''} then
               (case strconv_Atoi val of
                  (_, Some e) \<Rightarrow> Inl (SampleBad key val)
                | (n, None) \<Rightarrow>
                    Inr (if key = ''min'' then sc\<lparr>sc_spec := (sc_spec sc)\<lparr>sp_min := n\<rparr>, sc_hasMin := True\<rparr>
                         else if key = ''max'' then sc\<lparr>sc_spec := (sc_spec sc)\<lparr>sp_max := n\<rparr>, sc_hasMax := True\<rparr>
                         else if key = ''step'' then sc\<lparr>sc_spec := (sc_spec sc)\<lparr>sp_step := n\<rparr>\<rparr>
                         else sc\<lparr>sc_spec := (sc_spec sc)\<lparr>sp_seed := Some n\<rparr>\<rparr>))
             else Inl (SampleKey key))"

fun fold_result :: "('s \<Rightarrow> 'a \<Rightarrow> ('e, 's) result) \<Rightarrow> 's \<Rightarrow> 'a list \<Rightarrow> ('e, 's) result" where
  "fold_result f s [] = Inr s"
| "fold_result f s (x # xs) = bind_result (f s x) (\<lambda>s'. fold_result f s' xs)"

definition parse_sample_text :: "string \<Rightarrow> (act_error, sampleSpec) result" where
  "parse_sample_text txt =
     (let trimmed = strings_TrimSpace txt
      in if trimmed = [] then Inl SampleNoSpec
         else
           bind_result
             (fold_result sample_field
               \<lparr>sc_spec = \<lparr>sp_min = 0, sp_max = 0, sp_step = 1, sp_seed = None\<rparr>, sc_hasMin = False, sc_hasMax = False\<rparr>
               (strings_Fields trimmed))
             (\<lambda>sc. if \<not> sc_hasMin sc \<or> \<not> sc_hasMax sc then Inl SampleRange
                    else if sp_step (sc_spec sc) \<le> 0 then Inl SampleStep
                    else if sp_max (sc_spec sc) < sp_min (sc_spec sc) then Inl SampleOrder
                    else Inr (sc_spec sc)))"

definition parseSampleSpec :: "act_world \<Rightarrow> string \<Rightarrow> render_context \<Rightarrow> (act_error, sampleSpec) result" where
  "parseSampleSpec w raw ctx = bind_result (render w 0 raw ctx) parse_sample_text"

definition maxValues :: int where "maxValues = 1000000"

text \<open>The loop at the value \<open>v\<close> with \<open>n\<close> values collected.\<close>

function sample_loop :: "sampleSpec \<Rightarrow> int \<Rightarrow> int \<Rightarrow> (act_error, int list) result" where
  "sample_loop spec v n =
     (if v \<le> sp_max spec then
        (if maxValues < n + 1 then Inl SampleTooLarge
         else if 0 < sp_step spec \<and> wrap64 (sp_max spec - sp_step spec) < v then Inr [v]
         else bind_result (sample_loop spec (wrap64 (v + sp_step spec)) (n + 1)) (\<lambda>vs. Inr (v # vs)))
      else Inr [])"
  by pat_completeness auto
termination
  by (relation "measure (\<lambda>(spec, v, n). nat (maxValues - n))") (auto simp: maxValues_def)

declare sample_loop.simps [simp del]

definition buildSampleValues :: "sampleSpec \<Rightarrow> (act_error, int list) result" where
  "buildSampleValues spec = sample_loop spec (sp_min spec) 0"

definition sampleIndex :: "act_world \<Rightarrow> int \<Rightarrow> int option \<Rightarrow> (act_error, int) result" where
  "sampleIndex w n seed = (if n \<le> 0 then Inl SampleEmpty else Inr (aw_intn w seed n))"

definition applySampleAction :: "act_world \<Rightarrow> Action \<Rightarrow> render_context \<Rightarrow> (act_error, string) result" where
  "applySampleAction w action ctx =
     (if a_AssignTo action = [] then Inr []
      else
        bind_result (parseSampleSpec w (a_Value action) ctx) (\<lambda>spec.
          bind_result (buildSampleValues spec) (\<lambda>values.
            if values = [] then Inl SampleEmpty
            else bind_result (sampleIndex w (int (length values)) (sp_seed spec)) (\<lambda>idx.
                   Inr (strconv_Itoa (values ! nat idx))))))"

section \<open>Injection files\<close>

record csvMutationSpec =
  mu_line :: int
  mu_field :: int
  mu_text :: string
  mu_position :: string

definition mutation_param ::
  "(string \<Rightarrow> string option) \<Rightarrow> string \<Rightarrow> (act_error, string \<Rightarrow> string option) result" where
  "mutation_param params part =
     (case strings_Cut part CHR ''='' of
        None \<Rightarrow> Inl (MutationToken part)
      | Some (k, v) \<Rightarrow> Inr (params(strings_ToLower (strings_TrimSpace k) \<mapsto> strings_TrimSpace v)))"

definition mutation_number ::
  "(string \<Rightarrow> string option) \<Rightarrow> string \<Rightarrow> int \<Rightarrow> (act_error, int) result" where
  "mutation_number params key least =
     (case params key of
        None \<Rightarrow> Inl (MutationMissing key)
      | Some raw \<Rightarrow>
          (case strconv_Atoi raw of
             (_, Some e) \<Rightarrow> Inl (MutationBad key raw)
           | (n, None) \<Rightarrow> if n < least then Inl (MutationBad key raw) else Inr n))"

definition parse_mutation_text :: "string \<Rightarrow> (act_error, csvMutationSpec) result" where
  "parse_mutation_text txt =
     (let trimmed = strings_TrimSpace txt
      in if trimmed = [] then Inl MutationNoSpec
         else bind_result (fold_result mutation_param Map.empty (strings_Fields trimmed)) (\<lambda>params.
                bind_result (mutation_number params ''line'' 1) (\<lambda>line.
                  bind_result (mutation_number params ''field'' 0) (\<lambda>field.
                    case params ''text'' of
                      None \<Rightarrow> Inl (MutationMissing ''text'')
                    | Some t \<Rightarrow> Inr \<lparr>mu_line = line, mu_field = field, mu_text = t,
                        mu_position = map_get params ''position''\<rparr>))))"

definition parseCSVMutationSpec :: "act_world \<Rightarrow> string \<Rightarrow> render_context \<Rightarrow> (act_error, csvMutationSpec) result" where
  "parseCSVMutationSpec w raw ctx = bind_result (render w 1 raw ctx) parse_mutation_text"

definition action_files :: "act_world \<Rightarrow> files" where
  "action_files w = os_ReadFile (aw_render w 4)"

definition applyCSVMutationAction ::
  "act_world \<Rightarrow> Action \<Rightarrow> render_context \<Rightarrow> (act_error, overrides option) result" where
  "applyCSVMutationAction w action ctx =
     (if strings_TrimSpace (a_File action) = [] then Inl MutationNoFile
      else
        bind_result (render w 0 (a_File action) ctx) (\<lambda>fileName.
          bind_result (parseCSVMutationSpec w (a_Value action) ctx) (\<lambda>spec.
            let mode = (if a_Type action = ActionInsert then ''insert'' else ''replace'')
            in case ApplyCSVMutation (action_files w) (BasePath ctx) fileName (mu_line spec) (mu_field spec) mode
                      (mu_text spec) (mu_position spec) (CSVFieldOverrides ctx) of
                 Inl e \<Rightarrow> Inl (MutationFailed e)
               | Inr ov \<Rightarrow> Inr ov)))"

section \<open>Destinations, patterns, commands\<close>

definition normalizeTransportForSetDest :: "string \<Rightarrow> string" where
  "normalizeTransportForSetDest transport =
     (let t = strings_ToLower (strings_TrimSpace transport)
      in if t \<in> {''u1'', ''un'', ''ui'', ''udp''} then ''udp''
         else if t \<in> {''t1'', ''tn'', ''tcp''} then ''tcp''
         else if t \<in> {''l1'', ''ln'', ''tls''} then ''tls''
         else if t \<in> {''w1'', ''wn'', ''ws''} then ''ws''
         else if t \<in> {''ws1'', ''wsn'', ''wss''} then ''wss''
         else t)"

definition resolveSetDestAction ::
  "act_world \<Rightarrow> Action \<Rightarrow> render_context \<Rightarrow> (act_error, string \<times> int \<times> string) result" where
  "resolveSetDestAction w action ctx =
     (if strings_TrimSpace (a_Host action) = [] then Inl DestNoHost
      else if strings_TrimSpace (a_Port action) = [] then Inl DestNoPort
      else
        bind_result (render w 0 (a_Host action) ctx) (\<lambda>host.
          bind_result (render w 1 (a_Port action) ctx) (\<lambda>portRaw.
            case strconv_Atoi (strings_TrimSpace portRaw) of
              (_, Some e) \<Rightarrow> Inl (DestBadPort portRaw)
            | (port, None) \<Rightarrow>
                if port \<le> 0 \<or> 65535 < port then Inl (DestPortRange port)
                else
                  bind_result
                    (if strings_TrimSpace (a_Protocol action) \<noteq> [] then render w 2 (a_Protocol action) ctx else Inr [])
                    (\<lambda>protocol. Inr (strings_TrimSpace host, port, strings_TrimSpace protocol)))))"

definition extractBody :: "string \<Rightarrow> string" where
  "extractBody msg = (case strings_Index msg (CRLF @ CRLF) of Some idx \<Rightarrow> drop (idx + 4) msg | None \<Rightarrow> [])"

definition ereg_source :: "Action \<Rightarrow> render_context \<Rightarrow> var_state \<Rightarrow> string" where
  "ereg_source action ctx vars =
     (let s = strings_ToLower (a_SearchIn action)
      in if s = ''hdr'' then
           (case lookupHeaderCI (LastHeaders ctx) (strings_TrimSuffix (a_Header action) '':'') of
              None \<Rightarrow> []
            | Some values \<Rightarrow> strings_Join values CRLF)
         else if s = ''body'' then extractBody (LastMessage ctx)
         else if s = ''var'' then Get vars (a_Variable action)
         else LastMessage ctx)"

text \<open>The first names get the submatches, as far as there are any.\<close>

definition assign_matches :: "string list \<Rightarrow> string list \<Rightarrow> var_state \<Rightarrow> var_state" where
  "assign_matches assignTo matches vars =
     foldl (\<lambda>v (name, m). Set v name (strings_TrimSpace m)) vars (zip assignTo matches)"

definition applyERegAction ::
  "act_world \<Rightarrow> Action \<Rightarrow> render_context \<Rightarrow> var_state \<Rightarrow> (act_error, var_state) result" where
  "applyERegAction w action ctx vars =
     (case aw_regexp w (a_Regexp action) of
        None \<Rightarrow> Inl (BadPattern (a_Regexp action))
      | Some submatch \<Rightarrow>
          let matches = submatch (ereg_source action ctx vars); matched = (matches \<noteq> [])
          in if a_CheckIt action \<and> \<not> matched then Inl (NoMatch (a_Regexp action))
             else if a_CheckItInverse action \<and> matched then Inl (UnexpectedMatch (a_Regexp action))
             else if \<not> matched then Inr vars
             else Inr (assign_matches (a_AssignTo action) matches vars))"

text \<open>The internal commands end the call or the run; the other commands are the outside world's.\<close>

definition applyExecAction :: "act_world \<Rightarrow> Action \<Rightarrow> render_context \<Rightarrow> act_error option" where
  "applyExecAction w action ctx =
     (let c = strings_ToLower (strings_TrimSpace (a_IntCmd action))
      in if c = ''stop_call'' then Some StopCall
         else if c = ''stop_now'' \<or> c = ''stop_gracefully'' then Some StopNow
         else if c \<noteq> [] then Some (BadIntCmd (a_IntCmd action))
         else aw_exec w action ctx)"

section \<open>The action list\<close>

text \<open>
  The render context is a copy with two maps in it: the variables, which the loop replaces by a new
  snapshot, and the cell overrides, which the copy shares with the caller.  What was assigned before
  an error stays assigned.
\<close>

record act_state =
  st_vars :: var_state
  st_ctx :: render_context
  st_result :: actionResult

type_synonym act_outcome = "act_error option \<times> act_state"

definition refresh :: "act_state \<Rightarrow> act_state" where
  "refresh st = st\<lparr>st_ctx := (st_ctx st)\<lparr>Variables := Snapshot (st_vars st)\<rparr>\<rparr>"

definition assign_all :: "Action \<Rightarrow> (act_error, string) result \<Rightarrow> act_state \<Rightarrow> act_outcome" where
  "assign_all action r st =
     (case r of
        Inl e \<Rightarrow> (Some e, st)
      | Inr value \<Rightarrow> (None, st\<lparr>st_vars := assignActionValue (a_AssignTo action) value (st_vars st)\<rparr>))"

definition arithmetic_value :: "act_world \<Rightarrow> Action \<Rightarrow> act_state \<Rightarrow> (act_error, string) result" where
  "arithmetic_value w action st =
     bind_result (parseActionFloat (Get (st_vars st) (firstAssignTarget (a_AssignTo action)))) (\<lambda>current.
       bind_result (actionNumericOperand w action (st_ctx st) (st_vars st)) (\<lambda>operand.
         bind_result (applyArithmeticAction (a_Type action) current operand) (\<lambda>value.
           Inr (formatActionFloat value))))"

definition lookup_value :: "act_world \<Rightarrow> Action \<Rightarrow> act_state \<Rightarrow> (act_error, string) result" where
  "lookup_value w action st =
     (if strings_TrimSpace (a_File action) = [] then Inl LookupNoFile
      else
        bind_result (render w 0 (a_File action) (st_ctx st)) (\<lambda>fileName.
          bind_result (render w 1 (a_Key action) (st_ctx st)) (\<lambda>key.
            case LookupCSVLine (action_files w) (aw_index w) (BasePath (st_ctx st)) fileName key of
              Inl e \<Rightarrow> Inl (LookupCsv e)
            | Inr None \<Rightarrow> Inr ''0''
            | Inr (Some line) \<Rightarrow> Inr (strconv_Itoa line))))"

definition auth_value :: "hashes \<Rightarrow> act_world \<Rightarrow> Action \<Rightarrow> act_state \<Rightarrow> (act_error, string) result" where
  "auth_value h w action st =
     bind_result (render w 0 (a_Username action) (st_ctx st)) (\<lambda>username.
       bind_result (render w 1 (a_Password action) (st_ctx st)) (\<lambda>password.
         case verifyAuthHeader h (LastMessage (st_ctx st)) username password of
           Inl e \<Rightarrow> Inl (AuthFailed e)
         | Inr valid \<Rightarrow> Inr (if valid then ''1'' else ''0'')))"

definition assign_time :: "act_world \<Rightarrow> Action \<Rightarrow> var_state \<Rightarrow> var_state" where
  "assign_time w action vars =
     (case (a_AssignTo action, aw_epoch w) of
        ([], _) \<Rightarrow> vars
      | ([s], (seconds, micros)) \<Rightarrow> Set vars s (strconv_Itoa seconds)
      | (s # m # rest, (seconds, micros)) \<Rightarrow> Set (Set vars s (strconv_Itoa seconds)) m (strconv_Itoa micros))"

text \<open>\<open>log\<close> and \<open>warn\<close> say whether the engine traces log messages and errors.\<close>

record trace_flags =
  TraceLogs :: bool
  TraceErrors :: bool

definition apply_action :: "hashes \<Rightarrow> trace_flags \<Rightarrow> act_world \<Rightarrow> Action \<Rightarrow> act_state \<Rightarrow> act_outcome" where
  "apply_action h tf w action st =
     (case a_Type action of
        ActionAssignStr \<Rightarrow>
          if a_AssignTo action = [] then (None, st) else assign_all action (render w 0 (a_Value action) (st_ctx st)) st
      | ActionAssign \<Rightarrow> assign_all action (renderNumericActionValue w action (st_ctx st) (st_vars st)) st
      | ActionToDouble \<Rightarrow>
          assign_all action (bind_result (parseActionFloat (Get (st_vars st) (a_Variable action)))
            (\<lambda>v. Inr (formatActionFloat v))) st
      | ActionAdd \<Rightarrow> assign_all action (arithmetic_value w action st) st
      | ActionSubtract \<Rightarrow> assign_all action (arithmetic_value w action st) st
      | ActionMultiply \<Rightarrow> assign_all action (arithmetic_value w action st) st
      | ActionDivide \<Rightarrow> assign_all action (arithmetic_value w action st) st
      | ActionLog \<Rightarrow>
          if TraceLogs tf
          then (case render w 0 (a_Message action) (st_ctx st) of Inl e \<Rightarrow> (Some e, st) | Inr m \<Rightarrow> (None, st))
          else (None, st)
      | ActionWarning \<Rightarrow>
          if TraceErrors tf
          then (case render w 0 (a_Message action) (st_ctx st) of Inl e \<Rightarrow> (Some e, st) | Inr m \<Rightarrow> (None, st))
          else (None, st)
      | ActionLookup \<Rightarrow>
          if a_AssignTo action = [] then (None, st) else assign_all action (lookup_value w action st) st
      | ActionSample \<Rightarrow> assign_all action (applySampleAction w action (st_ctx st)) st
      | ActionInsert \<Rightarrow>
          (case applyCSVMutationAction w action (st_ctx st) of
             Inl e \<Rightarrow> (Some e, st)
           | Inr ov \<Rightarrow> (None, st\<lparr>st_ctx := (st_ctx st)\<lparr>CSVFieldOverrides := ov\<rparr>\<rparr>))
      | ActionReplace \<Rightarrow>
          (case applyCSVMutationAction w action (st_ctx st) of
             Inl e \<Rightarrow> (Some e, st)
           | Inr ov \<Rightarrow> (None, st\<lparr>st_ctx := (st_ctx st)\<lparr>CSVFieldOverrides := ov\<rparr>\<rparr>))
      | ActionStrCmp \<Rightarrow>
          if a_AssignTo action = [] then (None, st)
          else assign_all action (bind_result (resolveActionOperand w action (st_ctx st) (st_vars st)) (\<lambda>right.
                 Inr (strconv_Itoa (strings_Compare (Get (st_vars st) (a_Variable action)) right)))) st
      | ActionTest \<Rightarrow>
          if a_AssignTo action = [] then (None, st)
          else assign_all action (bind_result (resolveActionOperand w action (st_ctx st) (st_vars st)) (\<lambda>right.
                 Inr (if compareValues (Get (st_vars st) (a_Variable action)) right (a_Compare action)
                      then ''1'' else ''0''))) st
      | ActionJump \<Rightarrow>
          (case resolveJumpTarget action (st_vars st) of
             Inl e \<Rightarrow> (Some e, st)
           | Inr j \<Rightarrow> (None, st\<lparr>st_result := (st_result st)\<lparr>jumpIndex := j, hasJump := True\<rparr>\<rparr>))
      | ActionGetTimeOfDay \<Rightarrow> (None, st\<lparr>st_vars := assign_time w action (st_vars st)\<rparr>)
      | ActionURLEncode \<Rightarrow>
          (None, st\<lparr>st_vars := Set (st_vars st) (a_Variable action)
             (url_QueryEscape (Get (st_vars st) (a_Variable action)))\<rparr>)
      | ActionURLDecode \<Rightarrow>
          (case url_QueryUnescape (Get (st_vars st) (a_Variable action)) of
             None \<Rightarrow> (Some UrlEscape, st)
           | Some decoded \<Rightarrow> (None, st\<lparr>st_vars := Set (st_vars st) (a_Variable action) decoded\<rparr>))
      | ActionVerifyAuth \<Rightarrow>
          if a_AssignTo action = [] then (None, st) else assign_all action (auth_value h w action st) st
      | ActionSetDest \<Rightarrow>
          (case resolveSetDestAction w action (st_ctx st) of
             Inl e \<Rightarrow> (Some e, st)
           | Inr (host, port, protocol) \<Rightarrow>
               (None, st\<lparr>st_result := (st_result st)\<lparr>setDestinationHost := host, setDestinationPort := port,
                  setDestinationProto := protocol, hasSetDestination := True\<rparr>\<rparr>))
      | ActionEReg \<Rightarrow>
          (case applyERegAction w action (st_ctx st) (st_vars st) of
             Inl e \<Rightarrow> (Some e, st)
           | Inr vars \<Rightarrow> (None, st\<lparr>st_vars := vars\<rparr>))
      | ActionExec \<Rightarrow> (applyExecAction w action (st_ctx st), st))"

text \<open>\<open>ws k\<close> is the outside world of the \<open>k\<close>-th action.\<close>

fun action_loop ::
  "hashes \<Rightarrow> trace_flags \<Rightarrow> (nat \<Rightarrow> act_world) \<Rightarrow> nat \<Rightarrow> Action list \<Rightarrow> act_state \<Rightarrow> act_outcome" where
  "action_loop h tf ws k [] st = (None, st)"
| "action_loop h tf ws k (action # rest) st =
     (case apply_action h tf (ws k) action st of
        (Some e, st') \<Rightarrow> (Some e, st')
      | (None, st') \<Rightarrow> action_loop h tf ws (Suc k) rest (refresh st'))"

definition applyActions ::
  "hashes \<Rightarrow> trace_flags \<Rightarrow> (nat \<Rightarrow> act_world) \<Rightarrow> Action list \<Rightarrow> render_context \<Rightarrow> var_state
    \<Rightarrow> (act_error, actionResult) result \<times> var_state \<times> overrides option" where
  "applyActions h tf ws actions ctx vars =
     (case action_loop h tf ws 0 actions (refresh \<lparr>st_vars = vars, st_ctx = ctx, st_result = noResult\<rparr>) of
        (e, st) \<Rightarrow>
          ((case e of Some err \<Rightarrow> Inl err | None \<Rightarrow> Inr (st_result st)),
           st_vars st, CSVFieldOverrides (st_ctx st)))"

section \<open>Properties\<close>

fun integer_op :: "ActionType \<Rightarrow> int \<Rightarrow> int \<Rightarrow> int" where
  "integer_op ActionAdd a b = a + b"
| "integer_op ActionSubtract a b = a - b"
| "integer_op _ a b = a * b"

lemma parseActionFloat_Itoa: "\<bar>a\<bar> < 2 ^ 53 \<Longrightarrow> parseActionFloat (strconv_Itoa a) = Inr (Fin (of_int a))"
  by (simp add: parseActionFloat_def ascii_word_trimmed [OF Itoa_word] ParseFloat_Itoa)

lemma applyArithmeticAction_int:
  assumes "t \<in> {ActionAdd, ActionSubtract, ActionMultiply}" and "\<bar>integer_op t a b\<bar> < 2 ^ 53"
  shows "applyArithmeticAction t (Fin (of_int a)) (Fin (of_int b)) = Inr (Fin (of_int (integer_op t a b)))"
  using assms float_add_int [of a b] float_sub_int [of a b] float_mult_int [of a b]
  by (auto simp: applyArithmeticAction_def)


definition blank_action :: "ActionType \<Rightarrow> Action" where
  "blank_action t = \<lparr>a_Type = t, a_Regexp = [], a_SearchIn = [], a_Header = [], a_Variable = [], a_Variable2 = [],
     a_AssignTo = [], a_CheckIt = False, a_CheckItInverse = False, a_Value = [], a_Compare = [], a_Message = [],
     a_File = [], a_Key = [], a_Username = [], a_Password = [], a_Command = [], a_IntCmd = [], a_RTPStream = [],
     a_RTPRecord = [], a_RTPCheck = [], a_PlayPCAPAudio = [], a_PlayPCAPVideo = [], a_PlayPCAPImage = [],
     a_SendDTMF = [], a_Host = [], a_Port = [], a_Protocol = []\<rparr>"

definition sample_vars :: var_state where
  "sample_vars = Set (Set (newVarStore [] [] 0, newScopedVars) ''count'' ''41'') ''one'' ''1''"


text \<open>Whole numbers compare as numbers, whatever their lengths.\<close>

lemma compareValues_int:
  assumes "\<bar>a\<bar> < 2 ^ 53" and "\<bar>b\<bar> < 2 ^ 53"
  shows "compareValues (strconv_Itoa a) (strconv_Itoa b) c = compare_order (comparison_of c) (a - b)"
proof -
  have "parseComparableNumbers (strconv_Itoa a) (strconv_Itoa b) = Some (Fin (of_int a), Fin (of_int b))"
    using assms by (simp add: parseComparableNumbers_def ascii_word_trimmed [OF Itoa_word] ParseFloat_Itoa)
  then show ?thesis
    unfolding compareValues_def
    by (cases "comparison_of c") (auto simp: float_eq_def float_le_def)
qed

lemma sample_loop_exact:
  fixes spec
  defines "mx \<equiv> sp_max spec" and "st \<equiv> sp_step spec"
  assumes "0 < st" and "int64_range mx" and "int64_range st"
  shows "int64_range v \<Longrightarrow> 0 \<le> n \<Longrightarrow> mx - v = int k * st + r \<Longrightarrow> 0 \<le> r \<Longrightarrow> r < st \<Longrightarrow>
    sample_loop spec v n =
      (if n + int k < maxValues then Inr (map (\<lambda>i. v + int i * st) [0..<Suc k]) else Inl SampleTooLarge)"
proof (induction k arbitrary: v n)
  case 0
  then have v: "v \<le> mx" "mx < v + st" by simp_all
  have over: "sample_loop spec (wrap64 (v + st)) (n + 1) = Inr []" if "\<not> wrap64 (mx - st) < v"
  proof -
    have "\<not> int64_range (mx - st)" using that v wrap64_id [of "mx - st"] by auto
    then have "mx - st < - (2 ^ 63)" using assms by (auto simp: int64_range_def)
    then have "int64_range (v + st)" using v assms 0 by (auto simp: int64_range_def)
    then show ?thesis using v by (simp add: sample_loop.simps [of spec] wrap64_id mx_def)
  qed
  show ?case
    using v over assms(3) by (auto simp: sample_loop.simps [of spec v] mx_def st_def)
next
  case (Suc k)
  have v: "v + st \<le> mx" "mx - (v + st) = int k * st + r"
    using Suc.prems assms(3) by (auto simp: algebra_simps)
  have "int64_range (v + st)" "int64_range (mx - st)"
    using v Suc.prems(1) assms by (auto simp: int64_range_def)
  then have w: "wrap64 (v + st) = v + st" "wrap64 (mx - st) = mx - st" by (simp_all add: wrap64_id)
  have IH: "sample_loop spec (v + st) (n + 1) =
      (if n + 1 + int k < maxValues then Inr (map (\<lambda>i. v + st + int i * st) [0..<Suc k]) else Inl SampleTooLarge)"
    using Suc.IH [of "v + st" "n + 1"] Suc.prems v \<open>int64_range (v + st)\<close> by simp
  have m: "map (\<lambda>i. v + int i * st) [0..<Suc (Suc k)] = v # map (\<lambda>i. v + st + int i * st) [0..<Suc k]"
    by (subst map_upt_Suc) (simp add: algebra_simps)
  have "v \<le> mx" "\<not> mx - st < v" using v assms(3) by simp_all
  then have "sample_loop spec v n =
      (if maxValues < n + 1 then Inl SampleTooLarge
       else bind_result (sample_loop spec (v + st) (n + 1)) (\<lambda>vs. Inr (v # vs)))"
    using w by (simp add: sample_loop.simps [of spec v] mx_def st_def)
  then show ?case unfolding IH m by simp
qed

text \<open>
  C30: The values of a sample action: for every accepted specification the loop ends, and gives
  exactly the numbers from the minimum to the maximum in the given steps, or the error when there are
  more than a million.  Neither the sum nor the difference in the loop can go wrong at the ends of the
  64-bit range.
\<close>
theorem buildSampleValues_exact:
  assumes "parse_sample_text txt = Inr spec"
  shows "buildSampleValues spec =
    (let k = (sp_max spec - sp_min spec) div sp_step spec
     in if k < maxValues then Inr (map (\<lambda>i. sp_min spec + int i * sp_step spec) [0..<Suc (nat k)])
        else Inl SampleTooLarge)"
proof -
  have ranges: "int64_range (sp_min spec) \<and> int64_range (sp_max spec) \<and> int64_range (sp_step spec)"
    if "fold_result sample_field sc fields = Inr sc'" "spec = sc_spec sc'"
      "int64_range (sp_min (sc_spec sc)) \<and> int64_range (sp_max (sc_spec sc)) \<and> int64_range (sp_step (sc_spec sc))"
    for sc fields sc'
    using that
  proof (induction fields arbitrary: sc)
    case (Cons f fs)
    then obtain sc1 where sc1: "sample_field sc f = Inr sc1" "fold_result sample_field sc1 fs = Inr sc'"
      by (auto dest: bind_result_InrD)
    have "int64_range (sp_min (sc_spec sc1)) \<and> int64_range (sp_max (sc_spec sc1)) \<and> int64_range (sp_step (sc_spec sc1))"
      using sc1(1) Cons.prems(3) Atoi_range
      by (auto simp: sample_field_def Let_def split: option.splits if_splits prod.splits) (metis fst_conv)+
    then show ?case using Cons.IH sc1(2) Cons.prems(2) by blast
  qed simp
  obtain sc where sc: "fold_result sample_field
        \<lparr>sc_spec = \<lparr>sp_min = 0, sp_max = 0, sp_step = 1, sp_seed = None\<rparr>, sc_hasMin = False, sc_hasMax = False\<rparr>
        (strings_Fields (strings_TrimSpace txt)) = Inr sc" "spec = sc_spec sc" "0 < sp_step spec" "sp_min spec \<le> sp_max spec"
    using assms by (auto simp: parse_sample_text_def Let_def split: if_splits dest!: bind_result_InrD)
  then have r: "int64_range (sp_min spec)" "int64_range (sp_max spec)" "int64_range (sp_step spec)"
    using ranges [OF sc(1,2)] by (auto simp: int64_range_def)
  let ?k = "(sp_max spec - sp_min spec) div sp_step spec"
  have k0: "0 \<le> ?k" using sc(3,4) by (simp add: pos_imp_zdiv_nonneg_iff)
  have "sp_max spec - sp_min spec = int (nat ?k) * sp_step spec + (sp_max spec - sp_min spec) mod sp_step spec"
    using k0 by simp
  then show ?thesis
    using sample_loop_exact [OF sc(3) r(2,3) r(1), of 0 "nat ?k" "(sp_max spec - sp_min spec) mod sp_step spec"] sc(3) k0
    by (simp add: buildSampleValues_def Let_def)
qed

theorem buildSampleValues_exact_witness:
  "\<exists>spec. parse_sample_text ''min=2 max=9 step=3'' = Inr spec \<and> buildSampleValues spec = Inr [2, 5, 8]"
proof -
  let ?spec = "\<lparr>sp_min = 2, sp_max = 9, sp_step = 3, sp_seed = None\<rparr>"
  have p: "parse_sample_text ''min=2 max=9 step=3'' = Inr ?spec" by code_simp
  have "buildSampleValues ?spec = Inr [2, 5, 8]"
    using buildSampleValues_exact [OF p] by (simp add: maxValues_def numeral_eq_Suc)
  with p show ?thesis by blast
qed

lemma upper_hex_val:
  assumes "n < 16"
  shows "hex_val (upper_hex n) = Some n"
proof -
  have "list_all (\<lambda>k. hex_val (upper_hex k) = Some k) [0..<16]"
    by (simp add: upt_rec hex_val_def upper_hex_def lower_char_def Let_def)
  with assms show ?thesis by (simp add: list_all_iff)
qed

lemma QueryUnescape_Escape: "url_QueryUnescape (url_QueryEscape s) = Some s"
proof (induction s)
  case (Cons c s)
  have e: "url_QueryEscape (c # s) =
      (if url_unreserved c then [c] else if c = SP then ''+''
       else [CHR ''%'', upper_hex (of_char c div 16), upper_hex (of_char c mod 16)]) @ url_QueryEscape s"
    by (simp add: url_QueryEscape_def)
  have "(of_char c :: nat) < 256" by (rule nat_of_char_less_256)
  then have "(of_char c :: nat) div 16 < 16" by (simp add: div_less_iff_less_mult)
  then have h: "hex_val (upper_hex (of_char c div 16)) = Some (of_char c div 16)"
      "hex_val (upper_hex (of_char c mod 16)) = Some (of_char c mod 16)"
    by (simp_all add: upper_hex_val)
  have "16 * (of_char c div 16) + of_char c mod 16 = (of_char c :: nat)" by simp
  then have c: "char_of (16 * (of_char c div 16) + of_char c mod 16 :: nat) = c" by (simp only: char_of_char)
  have "url_unreserved c \<Longrightarrow> c \<noteq> CHR ''%'' \<and> c \<noteq> CHR ''+''" by (auto simp: url_unreserved_def)
  then show ?case unfolding e using Cons h c by auto
qed (simp add: url_QueryEscape_def)

end
