(* ===== verification/Loops.thy ===== *)
theory Loops
  imports Prelude
begin

text \<open>
  Loops that may run forever.  A loop of the source is a body that either gives the state of the next
  turn or the result of the loop; the body itself may contain another loop, so it may also not
  return.  The rules for partial correctness and for termination are proved here once and carry the
  proofs about the waiting loops and the command loop of a call.  The second section is the contract of
  a functional refinement between two machines that take operations and give outputs.
\<close>

section \<open>Loops\<close>

partial_function (option) iterate :: "('s \<Rightarrow> ('s + 'r) option) \<Rightarrow> 's \<Rightarrow> 'r option" where
  "iterate body s = Option.bind (body s) (\<lambda>x. case x of Inl s' \<Rightarrow> iterate body s' | Inr r \<Rightarrow> Some r)"

text \<open>An invariant of the turns gives what a turn that ends the loop establishes.\<close>

lemma iterate_rule:
  assumes "iterate body s = Some r" and "I s"
    and next_turn: "\<And>s s'. I s \<Longrightarrow> body s = Some (Inl s') \<Longrightarrow> I s'"
    and last_turn: "\<And>s r. I s \<Longrightarrow> body s = Some (Inr r) \<Longrightarrow> Q r"
  shows "Q r"
proof -
  have "body = body \<longrightarrow> I s \<longrightarrow> Q r"
  proof (rule iterate.raw_induct [where P = "\<lambda>b s r. b = body \<longrightarrow> I s \<longrightarrow> Q r", OF _ assms(1)])
    fix loop b s r
    assume IH: "\<And>b s r. loop b s = Some r \<Longrightarrow> b = body \<longrightarrow> I s \<longrightarrow> Q r"
      and run: "Option.bind (b s) (\<lambda>x. case x of Inl s' \<Rightarrow> loop b s' | Inr r \<Rightarrow> Some r) = Some r"
    show "b = body \<longrightarrow> I s \<longrightarrow> Q r"
    proof (intro impI)
      assume b: "b = body" and inv: "I s"
      from run obtain x where x: "body s = Some x" by (cases "b s") (auto simp: b)
      show "Q r"
      proof (cases x)
        case (Inl s')
        with run x b have "loop body s' = Some r" by simp
        from IH [OF this] next_turn [OF inv] x Inl show ?thesis by simp
      next
        case (Inr r')
        with run x b have "r' = r" by simp
        with last_turn [OF inv] x Inr show ?thesis by simp
      qed
    qed
  qed
  with assms(2) show ?thesis by simp
qed

text \<open>A loop ends when each turn returns and makes a measure smaller.\<close>

lemma iterate_returns:
  fixes m :: "'s \<Rightarrow> nat"
  assumes "I s"
    and turn: "\<And>s. I s \<Longrightarrow> \<exists>x. body s = Some x \<and> (\<forall>s'. x = Inl s' \<longrightarrow> I s' \<and> m s' < m s)"
  shows "\<exists>r. iterate body s = Some r"
  using assms(1)
proof (induction "m s" arbitrary: s rule: less_induct)
  case less
  obtain x where x: "body s = Some x" and dec: "\<And>s'. x = Inl s' \<Longrightarrow> I s' \<and> m s' < m s"
    using turn [OF less.prems] by auto
  show ?case
  proof (cases x)
    case (Inl s')
    with dec have "\<exists>r. iterate body s' = Some r" by (intro less.hyps) auto
    with x Inl show ?thesis by (simp add: iterate.simps [of body s])
  qed (simp add: iterate.simps [of body s] x)
qed

section \<open>Refinement\<close>

text \<open>Running a sequence of operations, each of which gives an output and the next state.\<close>

fun run_ops :: "('op \<Rightarrow> 's \<Rightarrow> 'out \<times> 's) \<Rightarrow> 'op list \<Rightarrow> 's \<Rightarrow> 'out list \<times> 's" where
  "run_ops step [] s = ([], s)"
| "run_ops step (op # ops) s =
     (case step op s of (o1, s1) \<Rightarrow> case run_ops step ops s1 of (os, s2) \<Rightarrow> (o1 # os, s2))"

locale refinement =
  fixes inv :: "'c \<Rightarrow> bool" and abs :: "'c \<Rightarrow> 'a"
    and cstep :: "'op \<Rightarrow> 'c \<Rightarrow> 'out \<times> 'c" and astep :: "'op \<Rightarrow> 'a \<Rightarrow> 'out \<times> 'a"
  assumes step_inv: "inv c \<Longrightarrow> inv (snd (cstep op c))"
    and step_sim: "inv c \<Longrightarrow> astep op (abs c) = (fst (cstep op c), abs (snd (cstep op c)))"
begin

lemma run_inv: "inv c \<Longrightarrow> inv (snd (run_ops cstep ops c))"
  by (induction ops arbitrary: c) (simp_all add: case_prod_beta step_inv)

lemma run_sim: "inv c \<Longrightarrow> run_ops astep ops (abs c) = (fst (run_ops cstep ops c), abs (snd (run_ops cstep ops c)))"
proof (induction ops arbitrary: c)
  case (Cons op ops)
  show ?case
    using Cons.IH [OF step_inv [OF Cons.prems]] by (simp add: step_sim [OF Cons.prems] case_prod_beta)
qed simp

end

end
