(* ===== verification/Recv.thy ===== *)
theory Recv
  imports Actions Loops
begin

text \<open>
  Receiving in a call, the \<^verbatim>\<open>recv\<close> half of \<^verbatim>\<open>executeCall\<close> in \<^verbatim>\<open>internal/engine/engine.go\<close>: the queue of
  deferred messages (\<^verbatim>\<open>receiveWithPending\<close>), the handling of messages that do not match (\<^verbatim>\<open>stash\<close>) and the
  loop that waits and retransmits (\<^verbatim>\<open>waitForMatch\<close>).

  The environment of a call is a record of answers, numbered in the order in which the call asks: what
  the clock reads, what \<^verbatim>\<open>receive\<close> returns, whether a \<^verbatim>\<open>send\<close> fails, and so on; the state counts the
  questions.  Received messages come from a pool, so a message is known by the number of the
  \<^verbatim>\<open>receive\<close> that returned it, and the state records which messages have been put back.  The closures of
  the source share the local variables of \<^verbatim>\<open>executeCall\<close>; these are the fields of the state.
\<close>

section \<open>Environment and state\<close>

datatype call_error =
    DeadlineExceeded
  | Canceled
  | MailboxClosed
  | UnexpectedFinalAbort int string
  | UnexpectedToMain
  | OptionalRecvMismatch
  | ActionFailed act_error
  | RenderFailed auth_error
  | CommandFailed send_error
  | SetDestUnsupported
  | SetDestProtocol string string
  | OtherError string
  | RuntimePanic

record call_env =
  ce_now :: "nat \<Rightarrow> int"
  ce_arrival :: "nat \<Rightarrow> (call_error, message) result"
  ce_send :: "nat \<Rightarrow> call_error option"
  ce_ctx :: "nat \<Rightarrow> call_error option"
  ce_sleep :: "nat \<Rightarrow> call_error option"
  ce_rng :: "nat \<Rightarrow> rng"
  ce_float :: "nat \<Rightarrow> float64"
  ce_regexp :: "string \<Rightarrow> string \<Rightarrow> bool"
  ce_actions :: "nat \<Rightarrow> nat \<Rightarrow> act_world"
  ce_render :: "nat \<Rightarrow> nat \<Rightarrow> render_env"
  ce_cnonce :: "nat \<Rightarrow> nat \<Rightarrow> string option"
  ce_tick :: "nat \<Rightarrow> int"
  ce_dynid :: "nat \<Rightarrow> int"
  ce_setdest :: "(string \<Rightarrow> int \<Rightarrow> (call_error, string) result) option"
  ce_dial :: "string \<Rightarrow> bool"
  ce_write :: "string \<Rightarrow> bool"
  ce_bus :: "nat \<Rightarrow> commandBroker \<Rightarrow> commandBroker"
  ce_hashes :: hashes
  ce_prepare :: "render_context \<Rightarrow> string \<Rightarrow> (call_error, render_context) result"
  ce_answer :: "string \<Rightarrow> call_error option"
  ce_trickle :: "string \<Rightarrow> call_error option"

text \<open>A pooled message: the number of its arrival and its content.\<close>

type_synonym pooled = "nat \<times> message"

record call_state =
  k_now :: nat
  k_recv :: nat
  k_send :: nat
  k_ctx :: nat
  k_sleep :: nat
  k_rand :: nat
  k_actions :: nat
  k_render :: nat
  k_bus :: nat
  sent :: "string list"
  freed :: "nat list"
  deferred :: "nat list"
  pendingMsgs :: "pooled list"
  renderCtx :: render_context
  store :: var_state
  broker :: commandBroker
  lastSent :: string
  lastSentBranch :: string
  lastSentMethod :: string
  lastSentCSeqNum :: int
  lastRetrans :: int
  inviteStartedAt :: "int option"
  inviteLatencySet :: bool
  commandCallKey :: string
  rtdStarts :: "string \<Rightarrow> int option"
  inviteACK :: string
  inviteBranch :: string
  sawUnexpectedSIP :: bool
  unexpectedForMain :: "message option"
  retransmits :: nat
  timeouts :: nat
  latencies :: "int list"
  rtds :: "(string \<times> int) list"
  counters :: "string list"
  displays :: "string list"
  slept :: "int list"
  remote :: "(string \<times> string) list"

definition read_clock :: "call_env \<Rightarrow> call_state \<Rightarrow> int \<times> call_state" where
  "read_clock env st = (ce_now env (k_now st), st\<lparr>k_now := Suc (k_now st)\<rparr>)"

definition ctx_Err :: "call_env \<Rightarrow> call_state \<Rightarrow> call_error option \<times> call_state" where
  "ctx_Err env st = (ce_ctx env (k_ctx st), st\<lparr>k_ctx := Suc (k_ctx st)\<rparr>)"

definition send_bytes :: "call_env \<Rightarrow> string \<Rightarrow> call_state \<Rightarrow> call_error option \<times> call_state" where
  "send_bytes env bs st = (ce_send env (k_send st), st\<lparr>k_send := Suc (k_send st), sent := sent st @ [bs]\<rparr>)"

text \<open>\<^verbatim>\<open>sip.PutMessage\<close> gives a message back to the pool.\<close>

definition put_message :: "nat \<Rightarrow> call_state \<Rightarrow> call_state" where
  "put_message i st = st\<lparr>freed := freed st @ [i]\<rparr>"

section \<open>Timeouts\<close>

definition sipTimerB :: int where "sipTimerB = 64 * 500 * Millisecond"

definition isProvisionalResponse :: "string \<Rightarrow> bool" where
  "isProvisionalResponse resp0 \<longleftrightarrow> (let resp = strings_TrimSpace resp0 in resp \<noteq> [] \<and> hd resp = CHR ''1'')"

definition effectiveSIPRecvTimeout :: "Command \<Rightarrow> int \<Rightarrow> int \<Rightarrow> int" where
  "effectiveSIPRecvTimeout cmd defaultRecv recvBYEFloor =
     (if 0 < c_Timeout cmd then c_Timeout cmd
      else
        let out1 = (if c_Optional cmd \<and> \<not> isProvisionalResponse (c_RecvResp cmd) \<and> defaultRecv < sipTimerB
                    then sipTimerB else defaultRecv)
        in if \<not> c_Optional cmd \<and> 0 < recvBYEFloor
              \<and> strings_EqualFold (strings_TrimSpace (c_RecvReq cmd)) ''BYE'' \<and> out1 < recvBYEFloor
           then recvBYEFloor else out1)"

section \<open>Receiving\<close>

definition recv_matches :: "call_env \<Rightarrow> Command \<Rightarrow> call_state \<Rightarrow> message \<Rightarrow> bool" where
  "recv_matches env cmd st m =
     (case (if c_RegexpMatch cmd then c_RecvReqRegex cmd else None) of
        Some re \<Rightarrow> ce_regexp env re (StartLine m)
      | None \<Rightarrow> MatchRecvCached m (c_RecvReq cmd) (c_RecvResp cmd) (lastSentCSeqNum st) (lastSentMethod st))"

definition receive_net :: "call_env \<Rightarrow> call_state \<Rightarrow> (call_error, pooled) result \<times> call_state" where
  "receive_net env st =
     ((case ce_arrival env (k_recv st) of Inl e \<Rightarrow> Inl e | Inr m \<Rightarrow> Inr (k_recv st, m)),
      st\<lparr>k_recv := Suc (k_recv st)\<rparr>)"

text \<open>The result, whether it comes from the queue, and the state.\<close>

definition receiveWithPending ::
  "call_env \<Rightarrow> Command \<Rightarrow> call_state \<Rightarrow> (call_error, pooled) result \<times> bool \<times> call_state" where
  "receiveWithPending env cmd st =
     (let net = (case receive_net env st of (r, st') \<Rightarrow> (r, False, st'))
      in if pendingMsgs st = [] then net
         else if c_Optional cmd then
           (case take_first (\<lambda>im. recv_matches env cmd st (snd im)) (pendingMsgs st) of
              Some (im, rest) \<Rightarrow> (Inr im, True, st\<lparr>pendingMsgs := rest\<rparr>)
            | None \<Rightarrow>
                if list_ex (\<lambda>im. 200 \<le> StatusCode (snd im)) (pendingMsgs st)
                then (Inl OptionalRecvMismatch, False, st) else net)
         else (Inr (hd (pendingMsgs st)), True, st\<lparr>pendingMsgs := tl (pendingMsgs st)\<rparr>))"

definition matches_txn :: "call_state \<Rightarrow> message \<Rightarrow> bool" where
  "matches_txn st m = ResponseMatchesCached m (lastSentBranch st) (lastSentMethod st)"

text \<open>The acknowledgement of an earlier \<^verbatim>\<open>INVITE\<close> is sent again when its 200 is retransmitted.\<close>

definition resend_ack :: "call_env \<Rightarrow> message \<Rightarrow> call_state \<Rightarrow> call_state" where
  "resend_ack env m st =
     (if StatusCode m = 200 \<and> inviteACK st \<noteq> [] \<and> inviteBranch st \<noteq> [] then
        (case ViaBranch (Headers m) of
           Some branch \<Rightarrow>
             if strings_EqualFold branch (inviteBranch st) then snd (send_bytes env (inviteACK st) st) else st
         | None \<Rightarrow> st)
      else st)"

definition not_waiting_for_bye :: "call_env \<Rightarrow> Command \<Rightarrow> message \<Rightarrow> bool" where
  "not_waiting_for_bye env cmd m =
     (case (if c_RegexpMatch cmd then c_RecvReqRegex cmd else None) of
        Some re \<Rightarrow> \<not> ce_regexp env re (StartLine m)
      | None \<Rightarrow> c_RecvReq cmd \<noteq> ''BYE'')"

definition abort_error :: "Command \<Rightarrow> message \<Rightarrow> call_error" where
  "abort_error cmd m = UnexpectedFinalAbort (StatusCode m) (strings_TrimSpace (c_RecvResp cmd))"

text \<open>\<open>main\<close> is the position of the label \<^verbatim>\<open>_unexp.main\<close>.\<close>

definition stash ::
  "call_env \<Rightarrow> Command \<Rightarrow> int option \<Rightarrow> pooled \<Rightarrow> bool \<Rightarrow> call_state \<Rightarrow> call_error option \<times> call_state" where
  "stash env cmd main im fromPending st =
     (let i = fst im; m = snd im
      in if Method m = ''BYE'' \<and> StatusCode m = 0 \<and> not_waiting_for_bye env cmd m then
           (let st1 = snd (send_bytes env (BuildResponse m 200 ''OK'') st)
            in (None, if fromPending then st1 else put_message i st1))
         else if fromPending then
           (if c_Optional cmd then (None, st\<lparr>pendingMsgs := pendingMsgs st @ [im]\<rparr>)
            else if 0 < StatusCode m \<and> \<not> matches_txn st m then (None, resend_ack env m st)
            else if 200 \<le> StatusCode m \<and> main = None \<and> matches_txn st m
            then (Some (abort_error cmd m), st\<lparr>sawUnexpectedSIP := True\<rparr>)
            else (None, st))
         else if 0 < StatusCode m \<and> \<not> matches_txn st m then (None, put_message i (resend_ack env m st))
         else if 0 < StatusCode m \<and> StatusCode m < 200 \<and> matches_txn st m then (None, put_message i st)
         else
           let st1 = (if \<not> c_Optional cmd then st\<lparr>sawUnexpectedSIP := True\<rparr> else st)
           in if main \<noteq> None \<and> unexpectedForMain st1 = None
              then (Some UnexpectedToMain, st1\<lparr>unexpectedForMain := Some (Copy m)\<rparr>)
              else if \<not> c_Optional cmd \<and> 200 \<le> StatusCode m \<and> matches_txn st1 m
              then (Some (abort_error cmd m), st1)
              else (None, st1\<lparr>pendingMsgs := pendingMsgs st1 @ [im]\<rparr>))"

section \<open>The waiting loop\<close>

record wait_params =
  wp_cmd :: Command
  wp_main :: "int option"
  wp_retrans :: int
  wp_deadline :: int

text \<open>The test before a retransmission, which reads the clock and the context only when it comes to them.\<close>

definition may_retransmit ::
  "call_env \<Rightarrow> wait_params \<Rightarrow> bool \<Rightarrow> call_error \<Rightarrow> call_state \<Rightarrow> bool \<times> call_state" where
  "may_retransmit env w final e st =
     (if e = DeadlineExceeded \<and> 0 < wp_retrans w \<and> \<not> final \<and> lastSent st \<noteq> [] then
        (case read_clock env st of (t, st1) \<Rightarrow>
           if t < wp_deadline w then (case ctx_Err env st1 of (ce, st2) \<Rightarrow> (ce = None, st2)) else (False, st1))
      else (False, st))"

text \<open>
  One turn of the loop: either the result, or the state for the next turn with the flag
  \<^verbatim>\<open>finalResponseSeen\<close>.
\<close>

datatype turn = Stop "(call_error, pooled) result" | Again bool

definition wait_turn :: "call_env \<Rightarrow> wait_params \<Rightarrow> bool \<Rightarrow> call_state \<Rightarrow> turn \<times> call_state" where
  "wait_turn env w final st0 =
     (case read_clock env st0 of (t, st) \<Rightarrow>
        if wp_deadline w < t then (Stop (Inl DeadlineExceeded), st)
        else
          (case receiveWithPending env (wp_cmd w) st of
             (Inr im, fromPending, st1) \<Rightarrow>
               if recv_matches env (wp_cmd w) st1 (snd im) then (Stop (Inr im), st1)
               else
                 (case stash env (wp_cmd w) (wp_main w) im fromPending st1 of
                    (Some e, st2) \<Rightarrow> (Stop (Inl e), put_message (fst im) st2)
                  | (None, st2) \<Rightarrow>
                      let final' = (final \<or> 200 \<le> StatusCode (snd im) \<and> matches_txn st1 (snd im))
                      in if c_Optional (wp_cmd w) then (Stop (Inl OptionalRecvMismatch), st2)
                         else (Again final', if fromPending then put_message (fst im) st2 else st2))
           | (Inl e, fromPending, st1) \<Rightarrow>
               (case may_retransmit env w final e st1 of
                  (True, st2) \<Rightarrow>
                    (case send_bytes env (lastSent st2) st2 of
                       (Some sendErr, st3) \<Rightarrow> (Stop (Inl sendErr), st3)
                     | (None, st3) \<Rightarrow> (Again final, st3\<lparr>retransmits := Suc (retransmits st3)\<rparr>))
                | (False, st2) \<Rightarrow> (Stop (Inl e), st2))))"

definition wait_body ::
  "call_env \<Rightarrow> wait_params \<Rightarrow> bool \<times> call_state \<Rightarrow> ((bool \<times> call_state) + (call_error, pooled) result \<times> call_state) option" where
  "wait_body env w p =
     (case wait_turn env w (fst p) (snd p) of
        (Stop r, st') \<Rightarrow> Some (Inr (r, st'))
      | (Again final', st') \<Rightarrow> Some (Inl (final', st')))"

definition wait_loop ::
  "call_env \<Rightarrow> wait_params \<Rightarrow> bool \<Rightarrow> call_state \<Rightarrow> ((call_error, pooled) result \<times> call_state) option" where
  "wait_loop env w final st = iterate (wait_body env w) (final, st)"

definition waitForMatch ::
  "call_env \<Rightarrow> Command \<Rightarrow> int option \<Rightarrow> int \<Rightarrow> int \<Rightarrow> call_state \<Rightarrow> ((call_error, pooled) result \<times> call_state) option" where
  "waitForMatch env cmd main retrans timeout st0 =
     (case read_clock env st0 of (t, st) \<Rightarrow>
        wait_loop env \<lparr>wp_cmd = cmd, wp_main = main, wp_retrans = retrans, wp_deadline = t + timeout\<rparr> False st)"

section \<open>Ownership of pooled messages\<close>

text \<open>The messages received so far, and those that the call accounts for.\<close>

definition arrived :: "call_env \<Rightarrow> nat \<Rightarrow> bool" where
  "arrived env k \<longleftrightarrow> (case ce_arrival env k of Inr m \<Rightarrow> True | Inl e \<Rightarrow> False)"

primrec arrivals :: "call_env \<Rightarrow> nat \<Rightarrow> nat multiset" where
  "arrivals env 0 = {#}"
| "arrivals env (Suc k) = (if arrived env k then add_mset k (arrivals env k) else arrivals env k)"

definition got :: "call_env \<Rightarrow> call_state \<Rightarrow> nat multiset" where
  "got env st = arrivals env (k_recv st)"

definition owned :: "call_state \<Rightarrow> nat multiset" where
  "owned st = mset (map fst (pendingMsgs st)) + mset (deferred st) + mset (freed st)"

text \<open>Steps that only touch fields that have no part in the accounting.\<close>

definition same_account :: "call_state \<Rightarrow> call_state \<Rightarrow> bool" where
  "same_account s t \<longleftrightarrow> pendingMsgs t = pendingMsgs s \<and> deferred t = deferred s \<and> freed t = freed s \<and> k_recv t = k_recv s"

lemma same_accountD: "same_account s t \<Longrightarrow> owned t = owned s" "same_account s t \<Longrightarrow> got env t = got env s"
  by (simp_all add: same_account_def owned_def got_def)

lemma owned_simps [simp]:
  "owned (put_message i st) = add_mset i (owned st)" "got env (put_message i st) = got env st"
  "owned (st\<lparr>sawUnexpectedSIP := b\<rparr>) = owned st" "got env (st\<lparr>sawUnexpectedSIP := b\<rparr>) = got env st"
  "owned (st\<lparr>unexpectedForMain := u\<rparr>) = owned st" "got env (st\<lparr>unexpectedForMain := u\<rparr>) = got env st"
  "owned (st\<lparr>retransmits := n\<rparr>) = owned st" "got env (st\<lparr>retransmits := n\<rparr>) = got env st"
  "owned (st\<lparr>pendingMsgs := pendingMsgs st @ [im]\<rparr>) = add_mset (fst im) (owned st)"
  "got env (st\<lparr>pendingMsgs := ps\<rparr>) = got env st"
  by (simp_all add: owned_def got_def put_message_def)

lemma owned_effects [simp]:
  "owned (snd (read_clock env st)) = owned st" "got env' (snd (read_clock env st)) = got env' st"
  "owned (snd (ctx_Err env st)) = owned st" "got env' (snd (ctx_Err env st)) = got env' st"
  "owned (snd (send_bytes env bs st)) = owned st" "got env' (snd (send_bytes env bs st)) = got env' st"
  "owned (resend_ack env m st) = owned st" "got env' (resend_ack env m st) = got env' st"
  by (simp_all add: owned_def got_def read_clock_def ctx_Err_def send_bytes_def resend_ack_def split: option.splits)

lemma receive_net_owned:
  assumes "receive_net env st = (r, st1)" and "owned st = got env st"
  shows "(case r of Inr im \<Rightarrow> add_mset (fst im) (owned st1) = got env st1 | Inl e \<Rightarrow> owned st1 = got env st1)"
  using assms by (auto simp: receive_net_def owned_def got_def arrived_def split: sum.splits)

lemma take_first_mset: "take_first p xs = Some (x, r) \<Longrightarrow> mset xs = add_mset x (mset r)"
  by (auto dest: take_first_SomeD)

lemma receive_owned:
  assumes "receiveWithPending env cmd st = (r, fp, st1)" and "owned st = got env st"
  shows "(case r of Inr im \<Rightarrow> add_mset (fst im) (owned st1) = got env st1 | Inl e \<Rightarrow> owned st1 = got env st1)"
proof (cases "pendingMsgs st = []")
  case True
  with assms show ?thesis using receive_net_owned [of env st] by (auto simp: receiveWithPending_def split: prod.splits)
next
  case False
  show ?thesis
  proof (cases "c_Optional cmd")
    case True
    show ?thesis
    proof (cases "take_first (\<lambda>im. recv_matches env cmd st (snd im)) (pendingMsgs st)")
      case None
      with assms False True show ?thesis using receive_net_owned [of env st]
        by (auto simp: receiveWithPending_def split: prod.splits if_splits)
    next
      case (Some x)
      obtain im rest where x: "x = (im, rest)" by fastforce
      have "mset (map fst (pendingMsgs st)) = add_mset (fst im) (mset (map fst rest))"
        using take_first_mset [OF Some [unfolded x]] by (simp only: mset_map image_mset_add_mset)
      with assms False True Some x show ?thesis by (auto simp: receiveWithPending_def owned_def got_def)
    qed
  next
    case no: False
    obtain im rest where "pendingMsgs st = im # rest" using False by (cases "pendingMsgs st") auto
    with assms no show ?thesis by (auto simp: receiveWithPending_def owned_def got_def)
  qed
qed

text \<open>What an optional receive takes from the queue matches.\<close>

lemma receive_optional:
  assumes "receiveWithPending env cmd st = (Inr im, True, st1)" and "c_Optional cmd"
  shows "recv_matches env cmd st1 (snd im)"
  using assms
  by (auto simp: receiveWithPending_def recv_matches_def Let_def split: option.splits if_splits prod.splits
      dest: take_first_SomeD)

lemma stash_owned:
  assumes "stash env cmd main im fp st = (e, st2)" and "fp \<Longrightarrow> \<not> c_Optional cmd"
  shows "owned st2 = (if e = None \<and> \<not> fp then add_mset (fst im) (owned st) else owned st) \<and> got env' st2 = got env' st"
proof (cases fp)
  case True
  with assms(2) have "\<not> c_Optional cmd" by simp
  with True assms(1) show ?thesis
    by (simp add: stash_def Let_def split: if_split_asm; elim conjE; hypsubst; simp)
next
  case False
  define own where "own = (\<lambda>p :: call_error option \<times> call_state. owned (snd p) = (if fst p = None then add_mset (fst im) (owned st) else owned st) \<and> got env' (snd p) = got env' st)"
  have "own (stash env cmd main im False st)"
    unfolding stash_def Let_def
    by (cases "c_Optional cmd"; simp split: if_split; simp add: own_def; simp add: owned_def got_def)
  with False assms(1) show ?thesis by (simp add: own_def)
qed

definition accounted :: "call_env \<Rightarrow> (call_error, pooled) result \<Rightarrow> call_state \<Rightarrow> bool" where
  "accounted env r st \<longleftrightarrow>
     (case r of Inr im \<Rightarrow> add_mset (fst im) (owned st) = got env st | Inl e \<Rightarrow> owned st = got env st)"

definition accounted_turn :: "call_env \<Rightarrow> turn \<times> call_state \<Rightarrow> bool" where
  "accounted_turn env p \<longleftrightarrow> (case fst p of Stop r \<Rightarrow> accounted env r (snd p) | Again f \<Rightarrow> owned (snd p) = got env (snd p))"

lemma accounted_turn_simps [simp]:
  "accounted_turn env (Stop (Inr im), st) \<longleftrightarrow> add_mset (fst im) (owned st) = got env st"
  "accounted_turn env (Stop (Inl e), st) \<longleftrightarrow> owned st = got env st"
  "accounted_turn env (Again f, st) \<longleftrightarrow> owned st = got env st"
  by (simp_all add: accounted_turn_def accounted_def)

lemma may_retransmit_owned:
  assumes "may_retransmit env w final e st1 = (b, st2)"
  shows "owned st2 = owned st1 \<and> got env' st2 = got env' st1"
  using assms by (auto simp: may_retransmit_def read_clock_def ctx_Err_def owned_def got_def split: if_splits)

lemma wait_turn_owned:
  assumes "owned st = got env st"
  shows "accounted_turn env (wait_turn env w final st)"
proof -
  obtain t st0 where clock: "read_clock env st = (t, st0)" by fastforce
  have st0: "owned st0 = got env st0" using assms owned_effects(1) [of env st] owned_effects(2) [of env env st] by (simp add: clock)
  obtain r fp st1 where rcv: "receiveWithPending env (wp_cmd w) st0 = (r, fp, st1)"
    by (cases "receiveWithPending env (wp_cmd w) st0")
  note own = receive_owned [OF rcv st0] and turn = wait_turn_def [of env w final st, unfolded clock rcv prod.case]
  show ?thesis
  proof (cases r)
    case (Inl e)
    obtain b st2 where mr: "may_retransmit env w final e st1 = (b, st2)" by fastforce
    obtain se st3 where snd: "send_bytes env (lastSent st2) st2 = (se, st3)" by fastforce
    have eff: "owned st3 = owned st2 \<and> got env st3 = got env st2"
      using snd by (auto simp: send_bytes_def owned_def got_def)
    show ?thesis
      using st0 own eff Inl may_retransmit_owned [OF mr, of env]
      by (simp add: turn mr snd split: option.split bool.split)
  next
    case (Inr im)
    obtain e st2 where sta: "stash env (wp_cmd w) (wp_main w) im fp st1 = (e, st2)" by fastforce
    show ?thesis
    proof (cases "recv_matches env (wp_cmd w) st1 (snd im)")
      case True
      with st0 own Inr show ?thesis by (simp add: turn)
    next
      case nomatch: False
      have fp: "fp \<Longrightarrow> \<not> c_Optional (wp_cmd w)" using receive_optional [of env "wp_cmd w" st0 im st1] rcv Inr nomatch by auto
      show ?thesis
        using st0 own Inr nomatch stash_owned [OF sta fp, of env] fp
        by (cases e) (simp_all add: turn sta Let_def)
    qed
  qed
qed

lemma wait_loop_rule:
  assumes "wait_loop env w final st = Some y" and "I st"
    and "\<And>f s f' s'. I s \<Longrightarrow> wait_turn env w f s = (Again f', s') \<Longrightarrow> I s'"
    and "\<And>f s r s'. I s \<Longrightarrow> wait_turn env w f s = (Stop r, s') \<Longrightarrow> Q (r, s')"
  shows "Q y"
  using assms(1) [unfolded wait_loop_def]
proof (rule iterate_rule [where I = "\<lambda>p. I (snd p)"])
  fix p p' assume "I (snd p)" "wait_body env w p = Some (Inl p')"
  then show "I (snd p')"
    using assms(3) [of "snd p" "fst p"] by (auto simp: wait_body_def split: prod.splits turn.splits)
next
  fix p r assume "I (snd p)" "wait_body env w p = Some (Inr r)"
  then show "Q r"
    using assms(4) [of "snd p" "fst p"] by (auto simp: wait_body_def split: prod.splits turn.splits)
qed (simp add: assms(2))

lemma wait_loop_owned:
  assumes "wait_loop env w final st = Some (r, st')" and "owned st = got env st"
  shows "accounted env r st'"
proof -
  have "case_prod (accounted env) (r, st')"
    using assms(1)
  proof (rule wait_loop_rule [where I = "\<lambda>s. owned s = got env s"])
    show "owned st = got env st" by (rule assms(2))
  next
    fix f s f' s' assume "owned s = got env s" "wait_turn env w f s = (Again f', s')"
    with wait_turn_owned [of s env w f] show "owned s' = got env s'" by simp
  next
    fix f s r s' assume "owned s = got env s" "wait_turn env w f s = (Stop r, s')"
    with wait_turn_owned [of s env w f] show "case_prod (accounted env) (r, s')" by (simp add: accounted_turn_def)
  qed
  then show ?thesis by simp
qed

section \<open>The first match\<close>

text \<open>No message that arrives with a number from \<open>i\<close> up to \<open>j\<close> matches.\<close>

definition no_match_in :: "call_env \<Rightarrow> Command \<Rightarrow> call_state \<Rightarrow> nat \<Rightarrow> nat \<Rightarrow> bool" where
  "no_match_in env cmd st i j \<longleftrightarrow>
     list_all (\<lambda>k. case ce_arrival env k of Inr m \<Rightarrow> \<not> recv_matches env cmd st m | Inl e \<Rightarrow> True) [i..<j]"

text \<open>What stays true while the loop goes on: nothing that was received or deferred matches.\<close>

definition quiet :: "call_env \<Rightarrow> Command \<Rightarrow> call_state \<Rightarrow> call_state \<Rightarrow> bool" where
  "quiet env cmd st s \<longleftrightarrow>
     lastSentCSeqNum s = lastSentCSeqNum st \<and> lastSentMethod s = lastSentMethod st
     \<and> k_recv st \<le> k_recv s \<and> no_match_in env cmd st (k_recv st) (k_recv s)
     \<and> list_all (\<lambda>im. \<not> recv_matches env cmd st (snd im)) (pendingMsgs s)"

lemma recv_matches_same:
  "lastSentCSeqNum s = lastSentCSeqNum st \<Longrightarrow> lastSentMethod s = lastSentMethod st \<Longrightarrow>
   recv_matches env cmd s = recv_matches env cmd st"
  by (simp add: recv_matches_def fun_eq_iff split: option.split)

text \<open>The fields that matching and receiving look at.\<close>

definition same_view :: "call_state \<Rightarrow> call_state \<Rightarrow> bool" where
  "same_view s t \<longleftrightarrow> lastSentCSeqNum t = lastSentCSeqNum s \<and> lastSentMethod t = lastSentMethod s
     \<and> k_recv t = k_recv s \<and> pendingMsgs t = pendingMsgs s"

lemma same_view_quiet: "same_view s t \<Longrightarrow> quiet env cmd st t = quiet env cmd st s"
  by (simp add: same_view_def quiet_def)

lemma same_view_effects [simp]:
  "same_view s s" "same_view s (snd (read_clock env s))" "same_view s (snd (ctx_Err env s))"
  "same_view s (snd (send_bytes env bs s))" "same_view s (put_message i s)" "same_view s (resend_ack env m s)"
  "same_view s (s\<lparr>sawUnexpectedSIP := b\<rparr>)" "same_view s (s\<lparr>unexpectedForMain := u\<rparr>)" "same_view s (s\<lparr>retransmits := n\<rparr>)"
  by (simp_all add: same_view_def read_clock_def ctx_Err_def send_bytes_def put_message_def resend_ack_def
      split: option.split)

lemma same_view_trans: "same_view s t \<Longrightarrow> same_view t u \<Longrightarrow> same_view s u"
  by (simp add: same_view_def)

lemma may_retransmit_view: "same_view s (snd (may_retransmit env w final e s))"
  by (auto simp: may_retransmit_def same_view_def read_clock_def ctx_Err_def)

lemma quiet_receive:
  assumes q: "quiet env cmd st s" and rcv: "receiveWithPending env cmd s = (r, fp, s1)"
  shows "case r of
           Inl e \<Rightarrow> quiet env cmd st s1
         | Inr im \<Rightarrow>
             if recv_matches env cmd st (snd im)
             then \<not> fp \<and> fst im = k_recv s \<and> ce_arrival env (fst im) = Inr (snd im)
             else quiet env cmd st s1"
proof -
  note same = recv_matches_same [of s st env cmd]
  have pend: "take_first (\<lambda>im. recv_matches env cmd s (snd im)) (pendingMsgs s) = None"
    using q same by (auto simp: quiet_def take_first_None list_all_iff)
  have net: ?thesis if "receive_net env s = (r, s1)" "fp = False"
    using that q by (cases "ce_arrival env (k_recv s)")
      (auto simp: receive_net_def quiet_def no_match_in_def)
  show ?thesis
  proof (cases "pendingMsgs s = []")
    case True
    then show ?thesis using rcv by (intro net) (auto simp: receiveWithPending_def split: prod.splits)
  next
    case False
    then obtain x xs where p: "pendingMsgs s = x # xs" by (cases "pendingMsgs s") auto
    show ?thesis
    proof (cases "c_Optional cmd")
      case True
      show ?thesis
      proof (cases "list_ex (\<lambda>im. 200 \<le> StatusCode (snd im)) (pendingMsgs s)")
        case fin: True
        with True rcv False pend q show ?thesis by (auto simp: receiveWithPending_def)
      next
        case nofin: False
        show ?thesis
          using True rcv False pend nofin by (intro net) (auto simp: receiveWithPending_def split: prod.splits)
      qed
    next
      case no: False
      with rcv p q show ?thesis by (auto simp: receiveWithPending_def quiet_def)
    qed
  qed
qed

text \<open>A message that is stashed is at most put at the end of the queue.\<close>

lemma stash_view:
  "same_view st (snd (stash env cmd main im fp st)) \<or>
   same_view (st\<lparr>pendingMsgs := pendingMsgs st @ [im]\<rparr>) (snd (stash env cmd main im fp st))"
proof -
  define ok where "ok = (\<lambda>p :: call_error option \<times> call_state. same_view st (snd p) \<or> same_view (st\<lparr>pendingMsgs := pendingMsgs st @ [im]\<rparr>) (snd p))"
  have "ok (stash env cmd main im fp st)"
    unfolding stash_def Let_def
    by (cases "c_Optional cmd"; cases fp; simp split: if_split; simp add: ok_def;
        simp add: same_view_def put_message_def send_bytes_def resend_ack_def split: option.split)
  then show ?thesis by (simp add: ok_def)
qed

lemma quiet_stash:
  assumes "stash env cmd main im fp s1 = (e, s2)" and "quiet env cmd st s1" and "\<not> recv_matches env cmd st (snd im)"
  shows "quiet env cmd st s2"
proof -
  have "quiet env cmd st (s1\<lparr>pendingMsgs := pendingMsgs s1 @ [im]\<rparr>)" using assms(2,3) by (simp add: quiet_def)
  with stash_view [of s1 env cmd main im fp] assms(1,2) show ?thesis by (auto simp: same_view_quiet)
qed

definition first_match :: "call_env \<Rightarrow> Command \<Rightarrow> call_state \<Rightarrow> pooled \<Rightarrow> bool" where
  "first_match env cmd st im \<longleftrightarrow>
     k_recv st \<le> fst im \<and> ce_arrival env (fst im) = Inr (snd im) \<and> recv_matches env cmd st (snd im)
     \<and> no_match_in env cmd st (k_recv st) (fst im)"

definition quiet_turn :: "call_env \<Rightarrow> Command \<Rightarrow> call_state \<Rightarrow> turn \<times> call_state \<Rightarrow> bool" where
  "quiet_turn env cmd st p \<longleftrightarrow>
     (case fst p of
        Stop (Inr im) \<Rightarrow> first_match env cmd st im
      | Stop (Inl e) \<Rightarrow> True
      | Again f \<Rightarrow> quiet env cmd st (snd p))"

lemma quiet_turn_simps [simp]:
  "quiet_turn env cmd st (Stop (Inr im), s) \<longleftrightarrow> first_match env cmd st im"
  "quiet_turn env cmd st (Stop (Inl e), s)"
  "quiet_turn env cmd st (Again f, s) \<longleftrightarrow> quiet env cmd st s"
  by (simp_all add: quiet_turn_def)

lemma receive_txn:
  "lastSentCSeqNum (snd (snd (receiveWithPending env cmd s))) = lastSentCSeqNum s"
  "lastSentMethod (snd (snd (receiveWithPending env cmd s))) = lastSentMethod s"
  by (simp_all add: receiveWithPending_def receive_net_def Let_def split: option.split)

lemma wait_turn_quiet:
  assumes "quiet env (wp_cmd w) st s"
  shows "quiet_turn env (wp_cmd w) st (wait_turn env w final s)"
proof -
  let ?cmd = "wp_cmd w"
  obtain t s0 where clock: "read_clock env s = (t, s0)" by fastforce
  have s0: "quiet env ?cmd st s0" using assms same_view_quiet [of s s0] same_view_effects(2) [of s env] by (simp add: clock)
  obtain r fp s1 where rcv: "receiveWithPending env ?cmd s0 = (r, fp, s1)" by (cases "receiveWithPending env ?cmd s0")
  have same: "recv_matches env ?cmd s1 = recv_matches env ?cmd st"
    using receive_txn [of env ?cmd s0] s0 rcv by (intro recv_matches_same) (simp_all add: quiet_def)
  note own = quiet_receive [OF s0 rcv] and turn = wait_turn_def [of env w final s, unfolded clock rcv prod.case]
  show ?thesis
  proof (cases r)
    case (Inl e)
    obtain b s2 where mr: "may_retransmit env w final e s1 = (b, s2)" by fastforce
    obtain se s3 where sb: "send_bytes env (lastSent s2) s2 = (se, s3)" by fastforce
    have "same_view s1 s2" "same_view s2 s3"
      using may_retransmit_view [of s1 env w final e] same_view_effects(4) [of s2 env "lastSent s2"] mr sb by simp_all
    then have "same_view s1 (s3\<lparr>retransmits := n\<rparr>)" for n by (simp add: same_view_def)
    from same_view_quiet [OF this] have "quiet env ?cmd st (s3\<lparr>retransmits := n\<rparr>)" for n
      using own Inl by simp
    then show ?thesis
      using Inl by (simp add: turn mr sb split: option.split bool.split)
  next
    case (Inr im)
    show ?thesis
    proof (cases "recv_matches env ?cmd st (snd im)")
      case True
      then have "first_match env ?cmd st im" using own s0 Inr by (auto simp: first_match_def quiet_def)
      with True Inr show ?thesis by (simp add: turn same)
    next
      case nomatch: False
      obtain e s2 where sta: "stash env ?cmd (wp_main w) im fp s1 = (e, s2)" by fastforce
      have "quiet env ?cmd st s2" using quiet_stash [OF sta _ nomatch] own Inr nomatch by simp
      moreover from this have "quiet env ?cmd st (put_message i s2)" for i
        by (simp add: same_view_quiet [OF same_view_effects(5)])
      ultimately show ?thesis
        using Inr nomatch by (cases e) (simp_all add: turn same sta Let_def)
    qed
  qed
qed


definition sample_response :: "int \<Rightarrow> message" where
  "sample_response code = \<lparr>StartLine = ''SIP/2.0'', Method = [], RequestURI = [], StatusCode = code, Reason = [], Headers = [], Body = [], Raw = []\<rparr>"

definition sample_recv :: Command where
  "sample_recv = (new_command 0)\<lparr>c_Type := CommandRecv, c_RecvResp := ''200''\<rparr>"

definition sample_world :: "call_env \<Rightarrow> call_env" where
  "sample_world env0 = env0\<lparr>ce_now := (\<lambda>_. 0), ce_arrival := (\<lambda>n. Inr (sample_response (if n = 0 then 180 else 200)))\<rparr>"

text \<open>A 180 that is passed over and then the 200 that was asked for.\<close>

lemma sample_run:
  assumes "pendingMsgs st = []" "k_recv st = 0" "lastSentBranch st = []" "lastSentMethod st = []" "0 \<le> timeout"
  shows "\<exists>st'. waitForMatch (sample_world env0) sample_recv None 0 timeout st = Some (Inr (1, sample_response 200), st')
    \<and> k_recv st' = 2"
proof -
  have status: "\<not> ResponseStatusMatches (sample_response 180) ''200''" "ResponseStatusMatches (sample_response 200) ''200''"
    by code_simp+
  have cmd: "c_RecvReq sample_recv = []" "c_RecvResp sample_recv = ''200''" "\<not> c_RegexpMatch sample_recv" "\<not> c_Optional sample_recv"
    by (simp_all add: sample_recv_def new_command_def)
  have code: "StatusCode (sample_response c) = c" "Method (sample_response c) = []" for c by (simp_all add: sample_response_def)
  show ?thesis
    using assms
    by (simp add: sample_world_def waitForMatch_def read_clock_def wait_loop_def iterate.simps wait_body_def wait_turn_def
        receiveWithPending_def receive_net_def recv_matches_def cmd MatchRecvCached_def status stash_def code matches_txn_def
        ResponseMatchesCached_def put_message_def)
qed


section \<open>Waiting ends\<close>

text \<open>Every turn reads the clock.\<close>

lemma stash_clock: "k_now (snd (stash env cmd main im fp s)) = k_now s"
proof -
  have "k_now (resend_ack env m s) = k_now s" for m s
    by (simp add: resend_ack_def send_bytes_def split: option.split)
  then show ?thesis by (simp add: stash_def put_message_def send_bytes_def Let_def)
qed

lemma receive_clock: "k_now (snd (snd (receiveWithPending env cmd s))) = k_now s"
  by (simp add: receiveWithPending_def receive_net_def Let_def split: option.split)

lemma wait_turn_clock: "k_now s < k_now (snd (wait_turn env w f s))"
proof -
  obtain t s0 where clock: "read_clock env s = (t, s0)" by fastforce
  then have s0: "k_now s0 = Suc (k_now s)" by (auto simp: read_clock_def)
  obtain r fp s1 where rcv: "receiveWithPending env (wp_cmd w) s0 = (r, fp, s1)"
    by (cases "receiveWithPending env (wp_cmd w) s0")
  have s1: "k_now s1 = Suc (k_now s)" using receive_clock [of env "wp_cmd w" s0] rcv s0 by simp
  have mr: "k_now s1 \<le> k_now (snd (may_retransmit env w f e s1))" for e
    by (simp add: may_retransmit_def read_clock_def ctx_Err_def)
  note turn = wait_turn_def [of env w f s, unfolded clock rcv prod.case]
  show ?thesis
  proof (cases r)
    case (Inl e)
    obtain b s2 where "may_retransmit env w f e s1 = (b, s2)" by fastforce
    with mr [of e] Inl s0 s1 show ?thesis
      by (simp add: turn send_bytes_def split: option.split bool.split)
  next
    case (Inr im)
    obtain e s2 where sta: "stash env (wp_cmd w) (wp_main w) im fp s1 = (e, s2)" by fastforce
    have "k_now s2 = k_now s1" using stash_clock [of env "wp_cmd w" "wp_main w" im fp s1] sta by simp
    with Inr s0 s1 sta show ?thesis
      by (simp add: turn put_message_def Let_def split: option.split)
  qed
qed

lemma wait_turn_deadline: "wp_deadline w < ce_now env (k_now s) \<Longrightarrow> fst (wait_turn env w f s) = Stop (Inl DeadlineExceeded)"
  by (simp add: wait_turn_def read_clock_def)

lemma wait_loop_returns:
  assumes "\<forall>n \<ge> N. wp_deadline w < ce_now env n"
  shows "\<exists>y. wait_loop env w f s = Some y"
  unfolding wait_loop_def
proof (rule iterate_returns [where I = "\<lambda>_. True" and m = "\<lambda>p. N - k_now (snd p)"])
  fix p :: "bool \<times> call_state"
  obtain t s' where t: "wait_turn env w (fst p) (snd p) = (t, s')" by fastforce
  have "k_now (snd p) < N" if "t = Again f'" for f'
    using assms wait_turn_deadline [of w env "snd p" "fst p"] t that by (auto simp: not_le [symmetric])
  then show "\<exists>x. wait_body env w p = Some x \<and> (\<forall>p'. x = Inl p' \<longrightarrow> True \<and> N - k_now (snd p') < N - k_now (snd p))"
    using wait_turn_clock [of "snd p" env w "fst p"] t by (cases t) (auto simp: wait_body_def)
qed simp

text \<open>
  A receive ends, whatever arrives: once the clock stays past the deadline, \<^verbatim>\<open>waitForMatch\<close> returns
  a message or an error, even when the peer floods the call with messages that do not match or every
  receive asks for a retransmission.
\<close>

lemma waitForMatch_ends:
  assumes "\<forall>n \<ge> N. ce_now env (k_now st) + timeout < ce_now env n"
  shows "\<exists>r st'. waitForMatch env cmd main retrans timeout st = Some (r, st')"
  using wait_loop_returns [of N "\<lparr>wp_cmd = cmd, wp_main = main, wp_retrans = retrans, wp_deadline = ce_now env (k_now st) + timeout\<rparr>" env]
    assms by (auto simp: waitForMatch_def read_clock_def)

end
