(* ===== verification/Call.thy ===== *)
theory Call
  imports Recv
begin

text \<open>
  A call, \<^verbatim>\<open>executeCall\<close> in \<^verbatim>\<open>internal/engine/engine.go\<close>: the commands of a scenario one after the other, with
  conditional execution, branching, actions, timers and statistics, and the messages that the call
  gives back to the pool when it ends.

  Each command is a function on the state of \<^verbatim>\<open>Recv\<close>; the loop over the commands follows indices that
  the scenario chooses and may run forever, so it is a partial function.  Outgoing messages are parsed
  with \<open>Parse\<close>: parsing into a recycled message gives the same fields (\<^verbatim>\<open>SipMessage\<close>).  The media of a
  call are hooks of the environment; trace files and log events are left out.
\<close>

section \<open>Configuration\<close>

record call_config =
  cf_Service :: string
  cf_BaseCSeq :: int
  cf_Users :: int
  cf_InjectionFile :: string
  cf_DefaultPause :: int
  cf_DefaultRecvTO :: int
  cf_RecvBYEFloorTO :: int
  cf_SipFrom :: string
  cf_SipPAI :: string
  cf_SipProvider :: string
  cf_SipExtraHeaders :: "string list"
  cf_Keys :: "string \<Rightarrow> string option"
  cf_Auth :: auth_config
  cf_Trace :: trace_flags
  cf_Name :: string
  cf_Net :: "(string \<Rightarrow> string option) option"

text \<open>The arguments of a call; the last fields are what its media session provides.\<close>

record call_args =
  ca_transport :: string
  ca_number :: int
  ca_callID :: string
  ca_localIP :: string
  ca_localPort :: int
  ca_remoteHost :: string
  ca_remotePort :: int
  ca_pid :: int
  ca_media :: "call_error option"
  ca_iceUfrag :: string
  ca_icePwd :: string
  ca_usesWebRTC :: bool

text \<open>Go's remainder has the sign of the dividend.\<close>

definition go_rem :: "int \<Rightarrow> int \<Rightarrow> int" where
  "go_rem a b = (if a < 0 then - ((- a) mod b) else a mod b)"

definition clampMediaPort :: "int \<Rightarrow> int" where
  "clampMediaPort port0 =
     (let minPort = 1024; maxPort = 65535; portSpan = maxPort - minPort + 1
      in if port0 < minPort \<or> maxPort < port0
         then let port = go_rem (port0 - minPort) portSpan + minPort
              in if port < minPort then port + portSpan else port
         else port0)"

definition ipType :: "string \<Rightarrow> string" where
  "ipType ip = (if CHR '':'' \<in> set ip then ''6'' else ''4'')"

definition userID :: "int \<Rightarrow> int \<Rightarrow> int" where
  "userID callNumber users = (if users \<le> 0 then 0 else go_rem (callNumber - 1) users)"

definition randomBranch :: "int \<Rightarrow> int \<Rightarrow> string" where
  "randomBranch callNumber messageIndex =
     ''z9hG4bK-gossip-'' @ strconv_Itoa callNumber @ ''-'' @ strconv_Itoa messageIndex"

text \<open>A header line of the configuration is trimmed, so only the last case of its line ending is reached.\<close>

definition extra_header_line :: "string \<Rightarrow> string" where
  "extra_header_line line0 =
     (let line = strings_TrimSpace line0
      in if line = [] \<or> CHR '':'' \<notin> set line then []
         else if strings_HasSuffix line CRLF then line
         else if strings_HasSuffix line [LF] then line @ [CR]
         else line @ CRLF)"

definition applySIPIdentityKeywords ::
  "call_config \<Rightarrow> string \<Rightarrow> int \<Rightarrow> (string \<Rightarrow> string option) \<Rightarrow> (string \<Rightarrow> string option)" where
  "applySIPIdentityKeywords cfg localIP localPort kw =
     (let from0 = strings_TrimSpace (cf_SipFrom cfg);
          from1 = (if from0 = [] then ''gossip <sip:gossip@'' @ localIP @ '':'' @ strconv_Itoa localPort @ ''>'' else from0);
          pai = strings_TrimSpace (cf_SipPAI cfg);
          provider = strings_TrimSpace (cf_SipProvider cfg)
      in kw(''trunk_from'' \<mapsto> from1,
            ''trunk_pai'' \<mapsto> (if pai \<noteq> [] then ''P-Asserted-Identity: '' @ pai @ CRLF else []),
            ''trunk_provider'' \<mapsto> (if provider \<noteq> [] then ''X-provider: '' @ provider @ CRLF else []),
            ''trunk_extra'' \<mapsto> concat (map extra_header_line (cf_SipExtraHeaders cfg))))"

definition copyHeaders :: "headers \<Rightarrow> headers" where
  "copyHeaders hs = filter (\<lambda>(k, vs). vs \<noteq> []) hs"

definition buildRouteHeaders :: "headers \<Rightarrow> string" where
  "buildRouteHeaders hs =
     (case lookupHeaderCI hs ''Record-Route'' of
        None \<Rightarrow> []
      | Some values \<Rightarrow>
          strings_Join (map (\<lambda>v. ''Route: '' @ v) (filter (\<lambda>v. v \<noteq> []) (map strings_TrimSpace (rev values)))) CRLF)"

section \<open>Control flow\<close>

definition shouldExecute :: "Command \<Rightarrow> var_state \<Rightarrow> bool" where
  "shouldExecute cmd vars =
     (if c_CondExec cmd = [] then True
      else let v = variableTruthy (Get vars (c_CondExec cmd)) in if c_CondExecInverse cmd then \<not> v else v)"

definition resolveNext :: "call_env \<Rightarrow> int \<Rightarrow> Command \<Rightarrow> call_state \<Rightarrow> int \<times> call_state" where
  "resolveNext env index cmd st =
     (let next = index + 1
      in if c_NextIndex cmd < 0 then (next, st)
         else if c_Test cmd \<noteq> [] \<and> \<not> variableTruthy (Get (store st) (c_Test cmd)) then (next, st)
         else if float_lt (Fin 0) (c_Chance cmd) \<and> float_lt (c_Chance cmd) (Fin 1) then
           (let st' = st\<lparr>k_rand := Suc (k_rand st)\<rparr>
            in if float_lt (c_Chance cmd) (ce_float env (k_rand st)) then (next, st') else (c_NextIndex cmd, st'))
         else (c_NextIndex cmd, st))"

definition finishRTD :: "call_env \<Rightarrow> string \<Rightarrow> call_state \<Rightarrow> call_state" where
  "finishRTD env name0 st =
     (let name = strings_TrimSpace name0
      in if name = [] then st
         else case rtdStarts st name of
                None \<Rightarrow> st
              | Some t0 \<Rightarrow>
                  (case read_clock env st of (t, st1) \<Rightarrow>
                     st1\<lparr>rtds := rtds st1 @ [(name, t - t0)], rtdStarts := (rtdStarts st1)(name := None)\<rparr>))"

definition recordCommandStats :: "Command \<Rightarrow> call_state \<Rightarrow> call_state" where
  "recordCommandStats cmd st =
     st\<lparr>counters := counters st @ [c_Counter cmd], displays := displays st @ [c_Display cmd]\<rparr>"

definition startRTD :: "call_env \<Rightarrow> Command \<Rightarrow> call_state \<Rightarrow> call_state" where
  "startRTD env cmd st =
     (let name = strings_TrimSpace (c_StartRTD cmd)
      in if name = [] then st
         else case read_clock env st of (t, st1) \<Rightarrow> st1\<lparr>rtdStarts := (rtdStarts st1)(name \<mapsto> t)\<rparr>)"

definition applySetDestination :: "call_env \<Rightarrow> actionResult \<Rightarrow> call_state \<Rightarrow> call_error option \<times> call_state" where
  "applySetDestination env result st =
     (if \<not> hasSetDestination result then (None, st)
      else case ce_setdest env of
             None \<Rightarrow> (Some SetDestUnsupported, st)
           | Some setDestination \<Rightarrow>
               let requested = normalizeTransportForSetDest (setDestinationProto result);
                   current = normalizeTransportForSetDest (Transport (renderCtx st))
               in if setDestinationProto result \<noteq> [] \<and> requested \<noteq> current
                  then (Some (SetDestProtocol (setDestinationProto result) current), st)
                  else case setDestination (setDestinationHost result) (setDestinationPort result) of
                         Inl e \<Rightarrow> (Some e, st)
                       | Inr resolvedIP \<Rightarrow>
                           (None, st\<lparr>renderCtx := (renderCtx st)\<lparr>RemoteHost := setDestinationHost result,
                              RemoteIP := (if strings_TrimSpace resolvedIP \<noteq> [] then resolvedIP else setDestinationHost result),
                              RemotePort := setDestinationPort result\<rparr>\<rparr>))"

text \<open>How a command ends: it goes to an index, it ends the call, or it falls through to the end of the loop body.\<close>

datatype step = Goto int | Finish "call_error option" | FallThrough

section \<open>Commands\<close>

definition run_actions ::
  "call_env \<Rightarrow> call_config \<Rightarrow> Command \<Rightarrow> call_state \<Rightarrow> (act_error, actionResult) result \<times> call_state" where
  "run_actions env cfg cmd st =
     (case applyActions (ce_hashes env) (cf_Trace cfg) (ce_actions env (k_actions st)) (c_Actions cmd) (renderCtx st) (store st) of
        (r, vars, ov) \<Rightarrow>
          (r, st\<lparr>k_actions := Suc (k_actions st), store := vars, renderCtx := (renderCtx st)\<lparr>CSVFieldOverrides := ov\<rparr>\<rparr>))"

text \<open>
  The actions of a command and what follows from them; \<open>mark\<close> is done after the statistics when the
  actions jump.
\<close>

definition after_actions ::
  "call_env \<Rightarrow> call_config \<Rightarrow> Command \<Rightarrow> (call_state \<Rightarrow> call_state) \<Rightarrow> call_state \<Rightarrow> step \<times> call_state" where
  "after_actions env cfg cmd mark st =
     (case run_actions env cfg cmd st of
        (Inl e, st1) \<Rightarrow>
          if e = StopCall then (Finish None, finishRTD env (c_StopRTD cmd) (recordCommandStats cmd st1))
          else (Finish (Some (ActionFailed e)), st1)
      | (Inr result, st1) \<Rightarrow>
          (case applySetDestination env result st1 of
             (Some e, st2) \<Rightarrow> (Finish (Some e), st2)
           | (None, st2) \<Rightarrow>
               if hasJump result
               then (Goto (jumpIndex result), mark (finishRTD env (c_StopRTD cmd) (recordCommandStats cmd st2)))
               else (FallThrough, st2)))"

definition exec_pause :: "call_env \<Rightarrow> call_config \<Rightarrow> Command \<Rightarrow> call_state \<Rightarrow> step \<times> call_state" where
  "exec_pause env cfg cmd st =
     (let st1 = (if c_Pause cmd = None then st else st\<lparr>k_rand := Suc (k_rand st)\<rparr>)
      in case (case c_Pause cmd of None \<Rightarrow> Some 0 | Some sampler \<Rightarrow> Sample (ce_rng env (k_rand st)) sampler) of
           None \<Rightarrow> (Finish (Some RuntimePanic), st1)
         | Some p \<Rightarrow>
             let pause = (if p \<le> 0 then cf_DefaultPause cfg else p);
                 st2 = st1\<lparr>k_sleep := Suc (k_sleep st1), slept := slept st1 @ [pause]\<rparr>
             in case ce_sleep env (k_sleep st1) of
                  Some e \<Rightarrow> (Finish (Some e), st2)
                | None \<Rightarrow> (FallThrough, st2))"

text \<open>What the call remembers of a message that it sent.\<close>

definition remember_sent :: "call_env \<Rightarrow> string \<Rightarrow> call_state \<Rightarrow> call_state" where
  "remember_sent env msg st =
     (case Parse msg of
        Inl e \<Rightarrow> st
      | Inr parsed \<Rightarrow>
          let st1 = (case ViaBranch (Headers parsed) of None \<Rightarrow> st | Some branch \<Rightarrow> st\<lparr>lastSentBranch := branch\<rparr>);
              st2 = (case ParseCSeq (Headers parsed) of
                       None \<Rightarrow> st1
                     | Some (num, meth) \<Rightarrow> st1\<lparr>lastSentMethod := strings_TrimSpace meth, lastSentCSeqNum := num\<rparr>)
          in if strings_EqualFold (Method parsed) ''INVITE'' then
               (case read_clock env st2 of (t, st3) \<Rightarrow> st3\<lparr>inviteStartedAt := Some t, inviteBranch := lastSentBranch st3\<rparr>)
             else if strings_EqualFold (Method parsed) ''ACK'' \<and> inviteBranch st2 \<noteq> []
             then st2\<lparr>inviteACK := lastSent st2\<rparr>
             else st2)"

definition exec_send :: "call_env \<Rightarrow> call_config \<Rightarrow> call_args \<Rightarrow> Command \<Rightarrow> call_state \<Rightarrow> step \<times> call_state" where
  "exec_send env cfg a cmd st =
     (case ce_prepare env (renderCtx st) (c_SendText cmd) of
        Inl e \<Rightarrow> (Finish (Some e), st)
      | Inr ctx \<Rightarrow>
          let k = k_render st;
              st1 = st\<lparr>k_render := Suc k, renderCtx := ctx\<lparr>BranchBase := randomBranch (ca_number a) (c_Index cmd)\<rparr>\<rparr>
          in case renderSIPMessage (ce_hashes env) (ce_cnonce env k) (ce_render env k) (cf_Auth cfg) (ce_tick env k) (ce_dynid env k)
                    (c_SendText cmd) (renderCtx st1) of
               Inl e \<Rightarrow> (Finish (Some (RenderFailed e)), st1)
             | Inr msg \<Rightarrow>
                 (case send_bytes env msg st1 of
                    (Some e, st2) \<Rightarrow> (Finish (Some e), st2)
                  | (None, st2) \<Rightarrow>
                      (FallThrough, remember_sent env msg (st2\<lparr>lastSent := msg, lastRetrans := c_Retrans cmd\<rparr>))))"

text \<open>Other calls work on the broker between the steps of this one.\<close>

definition sync_bus :: "call_env \<Rightarrow> call_state \<Rightarrow> call_state" where
  "sync_bus env st = st\<lparr>k_bus := Suc (k_bus st), broker := ce_bus env (k_bus st) (broker st)\<rparr>"

definition exec_sendcmd :: "call_env \<Rightarrow> call_config \<Rightarrow> Command \<Rightarrow> call_state \<Rightarrow> step \<times> call_state" where
  "exec_sendcmd env cfg cmd st0 =
     (let k = k_render st0;
          st = sync_bus env (st0\<lparr>k_render := Suc k\<rparr>);
          rawCmd = normalizeSIPScenarioLineIndent (c_SendText cmd);
          ctx = (renderCtx st)\<lparr>ClockTick := ce_tick env k, DynamicID := ce_dynid env k\<rparr>
      in case strict (ce_render env k 0) (ce_render env k 1) rawCmd ctx of
           Inl e \<Rightarrow> (Finish (Some (RenderFailed e)), st)
         | Inr payload \<Rightarrow>
             (case sendCommand (ce_dial env) (ce_write env) (cf_Name cfg) (cf_Net cfg) (broker st) (c_CmdDest cmd)
                     (ensureMessageTerminator payload) of
                SendFailed e \<Rightarrow> (Finish (Some (CommandFailed e)), st)
              | SentLocal b \<Rightarrow> (FallThrough, st\<lparr>broker := b\<rparr>)
              | SentRemote addr frame \<Rightarrow> (FallThrough, st\<lparr>remote := remote st @ [(addr, frame)]\<rparr>)))"

text \<open>One turn of the loop that polls the broker, and the loop.\<close>

definition keep_polling ::
  "call_env \<Rightarrow> int \<Rightarrow> call_state \<Rightarrow> (call_error, string \<times> commandMessage) result option \<times> call_state" where
  "keep_polling env deadline st =
     (case ctx_Err env st of
        (Some e, st1) \<Rightarrow> (Some (Inl e), st1)
      | (None, st1) \<Rightarrow>
          (case read_clock env st1 of (t, st2) \<Rightarrow>
             (if deadline < t then Some (Inl DeadlineExceeded) else None, st2)))"

definition command_turn ::
  "call_env \<Rightarrow> string \<Rightarrow> string \<Rightarrow> string \<Rightarrow> int \<Rightarrow> call_state
    \<Rightarrow> (call_error, string \<times> commandMessage) result option \<times> call_state" where
  "command_turn env callID channel src deadline st0 =
     (let st = sync_bus env st0
      in if callID = [] then
           (case dequeueAny (broker st) channel src of
              AnyMsg key msg b \<Rightarrow> (Some (Inr (key, msg)), st\<lparr>broker := b\<rparr>)
            | AnyPanic \<Rightarrow> (Some (Inl RuntimePanic), st)
            | AnyNone \<Rightarrow> keep_polling env deadline st)
         else
           (case dequeue (broker st) callID channel src of
              (Some msg, b) \<Rightarrow> (Some (Inr (callID, msg)), st\<lparr>broker := b\<rparr>)
            | (None, b) \<Rightarrow> keep_polling env deadline st))"

definition poll_body ::
  "call_env \<Rightarrow> string \<Rightarrow> string \<Rightarrow> string \<Rightarrow> int \<Rightarrow> call_state
    \<Rightarrow> (call_state + (call_error, string \<times> commandMessage) result \<times> call_state) option" where
  "poll_body env callID channel src deadline st =
     (case command_turn env callID channel src deadline st of
        (Some r, st') \<Rightarrow> Some (Inr (r, st'))
      | (None, st') \<Rightarrow> Some (Inl st'))"

definition waitForCommand ::
  "call_env \<Rightarrow> string \<Rightarrow> string \<Rightarrow> string \<Rightarrow> int \<Rightarrow> call_state
    \<Rightarrow> ((call_error, string \<times> commandMessage) result \<times> call_state) option" where
  "waitForCommand env callID0 channel src timeout st0 =
     (let callID = (if callID0 \<noteq> [] then NormalizeCallID callID0 else callID0)
      in case read_clock env st0 of (t, st) \<Rightarrow> iterate (poll_body env callID channel src (t + timeout)) st)"

definition count_timeout :: "call_error \<Rightarrow> call_state \<Rightarrow> call_state" where
  "count_timeout e st = (if e = DeadlineExceeded \<or> e = Canceled then st\<lparr>timeouts := Suc (timeouts st)\<rparr> else st)"

definition command_received ::
  "call_env \<Rightarrow> call_config \<Rightarrow> Command \<Rightarrow> bool \<Rightarrow> string \<Rightarrow> commandMessage \<Rightarrow> call_state \<Rightarrow> step \<times> call_state" where
  "command_received env cfg cmd adopt callKey msg st =
     (let st1 = (if callKey = [] then st
                 else if adopt then st\<lparr>commandCallKey := callKey, renderCtx := (renderCtx st)\<lparr>CallID := callKey\<rparr>\<rparr>
                 else st\<lparr>commandCallKey := callKey\<rparr>);
          ctx = (renderCtx st1)\<lparr>LastMessage := cmd_raw msg, LastHeaders := parseCommandHeaders (cmd_raw msg),
                  Variables := Snapshot (store st1)\<rparr>
      in after_actions env cfg cmd id (st1\<lparr>renderCtx := ctx\<rparr>))"

definition exec_recvcmd ::
  "call_env \<Rightarrow> call_config \<Rightarrow> int \<Rightarrow> Command \<Rightarrow> call_state \<Rightarrow> (step \<times> call_state) option" where
  "exec_recvcmd env cfg index cmd st =
     (let recvTimeout = (if 0 < c_Timeout cmd then c_Timeout cmd
                         else if c_Optional cmd then 250 * Millisecond else cf_DefaultRecvTO cfg);
          adopt = (cf_Net cfg \<noteq> None \<and> c_Index cmd = 0 \<and> lastSent st = [] \<and> LastMessage (renderCtx st) = []);
          waitKey = (if adopt then [] else commandCallKey st)
      in Option.bind (waitForCommand env waitKey [] (c_CmdSrc cmd) recvTimeout st) (\<lambda>(r, st1).
           case r of
             Inl e \<Rightarrow>
               if c_Optional cmd then (case resolveNext env index cmd st1 of (i, st2) \<Rightarrow> Some (Goto i, st2))
               else Some (Finish (Some e), count_timeout e st1)
           | Inr (callKey, msg) \<Rightarrow> Some (command_received env cfg cmd adopt callKey msg st1)))"

section \<open>Receiving a message\<close>

text \<open>An \<^verbatim>\<open>INVITE\<close> leaves the rest of timer B for the receive that waits for its answer.\<close>

definition recv_timeout :: "call_env \<Rightarrow> call_config \<Rightarrow> Command \<Rightarrow> call_state \<Rightarrow> int \<times> call_state" where
  "recv_timeout env cfg cmd st =
     (let recvTimeout = effectiveSIPRecvTimeout cmd (cf_DefaultRecvTO cfg) (cf_RecvBYEFloorTO cfg)
      in case (if \<not> c_Optional cmd \<and> \<not> inviteLatencySet st then inviteStartedAt st else None) of
           None \<Rightarrow> (recvTimeout, st)
         | Some t0 \<Rightarrow> (case read_clock env st of (t, st1) \<Rightarrow> (max recvTimeout (sipTimerB - (t - t0)), st1)))"

definition mark_latency :: "call_env \<Rightarrow> message \<Rightarrow> call_state \<Rightarrow> call_state" where
  "mark_latency env msg st =
     (case (if \<not> inviteLatencySet st \<and> StatusCode msg = 200 then inviteStartedAt st else None) of
        None \<Rightarrow> st
      | Some t0 \<Rightarrow>
          (case read_clock env st of (t, st1) \<Rightarrow> st1\<lparr>latencies := latencies st1 @ [t - t0], inviteLatencySet := True\<rparr>))"

definition take_message :: "Command \<Rightarrow> pooled \<Rightarrow> call_state \<Rightarrow> call_state" where
  "take_message cmd im st =
     st\<lparr>deferred := deferred st @ [fst im],
        lastRetrans := (if c_RecvResp cmd \<noteq> [] \<and> 0 < lastRetrans st then 0 else lastRetrans st),
        renderCtx := (renderCtx st)\<lparr>LastMessage := Raw (snd im), LastHeaders := copyHeaders (Headers (snd im))\<rparr>\<rparr>"

definition message_received :: "call_env \<Rightarrow> call_config \<Rightarrow> Command \<Rightarrow> pooled \<Rightarrow> call_state \<Rightarrow> step \<times> call_state" where
  "message_received env cfg cmd im st =
     (let msg = snd im;
          st1 = take_message cmd im st
      in case ce_answer env (Raw msg) of
           Some e \<Rightarrow> (Finish (Some e), st1)
         | None \<Rightarrow>
             (case ce_trickle env (Raw msg) of
                Some e \<Rightarrow> (Finish (Some e), st1)
              | None \<Rightarrow>
                  let ctx = (renderCtx st1)\<lparr>Variables := Snapshot (store st1),
                        ExtraKeywords := (if c_RRS cmd then (ExtraKeywords (renderCtx st1))(''routes'' \<mapsto> buildRouteHeaders (Headers msg))
                                          else ExtraKeywords (renderCtx st1))\<rparr>
                  in (case after_actions env cfg cmd (mark_latency env msg) (st1\<lparr>renderCtx := ctx\<rparr>) of
                        (FallThrough, st2) \<Rightarrow> (FallThrough, mark_latency env msg st2)
                      | r \<Rightarrow> r)))"

definition recv_failed ::
  "int option \<Rightarrow> int \<Rightarrow> Command \<Rightarrow> call_error \<Rightarrow> call_state \<Rightarrow> step \<times> call_state" where
  "recv_failed main index cmd e st =
     (case (if e = UnexpectedToMain then unexpectedForMain st else None, main) of
        (Some u, Some i) \<Rightarrow>
          (Goto i, st\<lparr>renderCtx := (renderCtx st)\<lparr>LastMessage := Raw u, LastHeaders := copyHeaders (Headers u)\<rparr>,
                     store := Set (store st) ''_unexp.retaddr'' (strconv_Itoa (index + 1))\<rparr>)
      | _ \<Rightarrow> if c_Optional cmd then (Goto (index + 1), st) else (Finish (Some e), count_timeout e st))"

definition exec_recv ::
  "call_env \<Rightarrow> call_config \<Rightarrow> call_args \<Rightarrow> Scenario \<Rightarrow> int \<Rightarrow> Command \<Rightarrow> call_state \<Rightarrow> (step \<times> call_state) option" where
  "exec_recv env cfg a scen index cmd st =
     (case recv_timeout env cfg cmd st of (recvTimeout, st1) \<Rightarrow>
        let retransmit = (if strings_HasPrefix (ca_transport a) ''u'' then lastRetrans st1 else 0);
            main = s_Labels scen ''_unexp.main''
        in Option.bind (waitForMatch env cmd main retransmit recvTimeout (st1\<lparr>unexpectedForMain := None\<rparr>)) (\<lambda>(r, st2).
             case r of
               Inl e \<Rightarrow> Some (recv_failed main index cmd e st2)
             | Inr im \<Rightarrow> Some (message_received env cfg cmd im st2)))"

section \<open>The call\<close>

definition dispatch_command ::
  "call_env \<Rightarrow> call_config \<Rightarrow> call_args \<Rightarrow> Scenario \<Rightarrow> int \<Rightarrow> Command \<Rightarrow> call_state \<Rightarrow> (step \<times> call_state) option" where
  "dispatch_command env cfg a scen index cmd st =
     (case c_Type cmd of
        CommandNop \<Rightarrow> Some (after_actions env cfg cmd id st)
      | CommandPause \<Rightarrow> Some (exec_pause env cfg cmd st)
      | CommandTimeWait \<Rightarrow> Some (exec_pause env cfg cmd st)
      | CommandSend \<Rightarrow> Some (exec_send env cfg a cmd st)
      | CommandSendCmd \<Rightarrow> Some (exec_sendcmd env cfg cmd st)
      | CommandRecv \<Rightarrow> exec_recv env cfg a scen index cmd st
      | CommandRecvCmd \<Rightarrow> exec_recvcmd env cfg index cmd st
      | _ \<Rightarrow> Some (FallThrough, st))"

definition end_command :: "call_env \<Rightarrow> int \<Rightarrow> Command \<Rightarrow> call_state \<Rightarrow> int \<times> call_state" where
  "end_command env index cmd st =
     resolveNext env index cmd (finishRTD env (c_StopRTD cmd) (recordCommandStats cmd st))"

text \<open>
  One turn of the loop over the commands: the next index or the error with which the call ends (none
  when it succeeds).  A negative index panics.
\<close>

definition call_step ::
  "call_env \<Rightarrow> call_config \<Rightarrow> call_args \<Rightarrow> Scenario \<Rightarrow> int \<Rightarrow> call_state
    \<Rightarrow> ((int \<times> call_state) + (call_error option \<times> call_state)) option" where
  "call_step env cfg a scen index st0 =
     (if index < 0 then Some (Inr (Some RuntimePanic, st0))
      else
        let cmd = s_Commands scen ! nat index;
            st = st0\<lparr>renderCtx := (renderCtx st0)\<lparr>Variables := Snapshot (store st0)\<rparr>\<rparr>
        in if \<not> shouldExecute cmd (store st) then Some (Inl (index + 1, st))
           else
             let st1 = startRTD env cmd (st\<lparr>renderCtx := (renderCtx st)\<lparr>MessageIndex := c_Index cmd\<rparr>\<rparr>)
             in Option.bind (dispatch_command env cfg a scen index cmd st1) (\<lambda>(r, st2).
                  case r of
                    Goto i \<Rightarrow> Some (Inl (i, st2))
                  | Finish e \<Rightarrow> Some (Inr (e, st2))
                  | FallThrough \<Rightarrow> Some (Inl (end_command env index cmd st2))))"

definition call_body ::
  "call_env \<Rightarrow> call_config \<Rightarrow> call_args \<Rightarrow> Scenario \<Rightarrow> int \<times> call_state
    \<Rightarrow> ((int \<times> call_state) + (call_error option \<times> call_state)) option" where
  "call_body env cfg a scen p =
     (if int (length (s_Commands scen)) \<le> fst p then Some (Inr (None, snd p))
      else call_step env cfg a scen (fst p) (snd p))"

definition initial_context :: "call_config \<Rightarrow> call_args \<Rightarrow> Scenario \<Rightarrow> var_state \<Rightarrow> render_context" where
  "initial_context cfg a scen vars =
     (let kw0 = [''routes'' \<mapsto> []];
          kw1 = (if ca_usesWebRTC a then kw0(''media_transport'' \<mapsto> ''webrtc'', ''contact_transport'' \<mapsto> ''WSS'') else kw0);
          kw2 = applySIPIdentityKeywords cfg (ca_localIP a) (ca_localPort a) kw1
      in \<lparr>Service = cf_Service cfg, Transport = ca_transport a, RemoteHost = ca_remoteHost a, RemoteIP = ca_remoteHost a,
          RemotePort = ca_remotePort a, LocalIP = ca_localIP a, ServerIP = ca_localIP a, LocalIPType = ipType (ca_localIP a),
          LocalPort = ca_localPort a, MediaIP = ca_localIP a, MediaIPType = ipType (ca_localIP a),
          MediaPort = clampMediaPort (ca_localPort a + 2 + (ca_number a - 1) * 2),
          IceUfrag = ca_iceUfrag a, IcePwd = ca_icePwd a, CallID = ca_callID a, CSeq = cf_BaseCSeq cfg,
          CallNumber = ca_number a, MessageIndex = 0, PID = ca_pid a, Users = cf_Users cfg,
          UserID = userID (ca_number a) (cf_Users cfg), BranchBase = [], LastMessage = [], LastHeaders = [], BodyLength = 0,
          SIPpVersion = [], ClockTick = 0, DynamicID = 0, ExtraKeywords = kw2 ++ cf_Keys cfg, Variables = Snapshot vars,
          CSVFieldOverrides = Some (\<lambda>_ _ _. None), BasePath = s_BasePath scen, InjectionFile = cf_InjectionFile cfg\<rparr>)"

definition initial_state :: "call_config \<Rightarrow> call_args \<Rightarrow> Scenario \<Rightarrow> scopedVars \<Rightarrow> commandBroker \<Rightarrow> call_state" where
  "initial_state cfg a scen scopes b =
     (let vars = (newVarStore (s_GlobalVariables scen) (s_UserVariables scen) (userID (ca_number a) (cf_Users cfg)), scopes)
      in \<lparr>k_now = 0, k_recv = 0, k_send = 0, k_ctx = 0, k_sleep = 0, k_rand = 0, k_actions = 0, k_render = 0, k_bus = 0,
          sent = [], freed = [], deferred = [], pendingMsgs = [], renderCtx = initial_context cfg a scen vars, store = vars,
          broker = b, lastSent = [], lastSentBranch = [], lastSentMethod = [], lastSentCSeqNum = 0, lastRetrans = 0,
          inviteStartedAt = None, inviteLatencySet = False, commandCallKey = ca_callID a, rtdStarts = Map.empty,
          inviteACK = [], inviteBranch = [], sawUnexpectedSIP = False, unexpectedForMain = None, retransmits = 0,
          timeouts = 0, latencies = [], rtds = [], counters = [], displays = [], slept = [], remote = []\<rparr>)"

text \<open>
  The deferred calls run in reverse: first the messages that commands took, then those still queued.
\<close>

definition release_messages :: "call_state \<Rightarrow> call_state" where
  "release_messages st =
     st\<lparr>freed := freed st @ rev (deferred st) @ map fst (pendingMsgs st), deferred := [], pendingMsgs := []\<rparr>"

text \<open>\<open>errText\<close> is the text of an error and \<open>network\<close> says whether it is an end of file or a network error.\<close>

definition classifyCallFailure :: "(call_error \<Rightarrow> string) \<Rightarrow> (call_error \<Rightarrow> bool) \<Rightarrow> call_error option \<Rightarrow> bool \<Rightarrow> string" where
  "classifyCallFailure errText network err saw =
     (case err of
        None \<Rightarrow> []
      | Some (UnexpectedFinalAbort code resp) \<Rightarrow> ''unexpected_sip''
      | Some DeadlineExceeded \<Rightarrow> if saw then ''unexpected_sip'' else ''timeout''
      | Some Canceled \<Rightarrow> ''cancelled''
      | Some MailboxClosed \<Rightarrow> ''transport_error''
      | Some e \<Rightarrow>
          if network e then ''transport_error''
          else
            let lower = strings_ToLower (errText e)
            in if list_ex (strings_Contains lower)
                    [''empty sip message'', ''invalid sip'', ''malformed sip'', ''missing call-id'', ''malformed'']
               then ''parse_error'' else ''scenario_error'')"

text \<open>How a call ends: its error, its final state, and whether its end was counted, with which failure class.\<close>

record call_end =
  ce_err :: "call_error option"
  ce_final :: call_state
  ce_finished :: "string option"

definition executeCall ::
  "(call_error \<Rightarrow> string) \<Rightarrow> (call_error \<Rightarrow> bool) \<Rightarrow> call_env \<Rightarrow> call_config \<Rightarrow> call_args \<Rightarrow> Scenario
    \<Rightarrow> scopedVars \<Rightarrow> commandBroker \<Rightarrow> call_end option" where
  "executeCall errText network env cfg a scen scopes b =
     (let st0 = initial_state cfg a scen scopes b
      in case ca_media a of
           Some e \<Rightarrow> Some \<lparr>ce_err = Some e, ce_final = st0, ce_finished = None\<rparr>
         | None \<Rightarrow>
             Option.bind (iterate (call_body env cfg a scen) (0, st0)) (\<lambda>(err, st).
               Some \<lparr>ce_err = err, ce_final = release_messages st,
                     ce_finished = Some (classifyCallFailure errText network err (sawUnexpectedSIP st))\<rparr>))"

section \<open>Messages go back to the pool\<close>

text \<open>Everything but receiving leaves the pooled messages alone.\<close>

lemma same_account_refl [simp]: "same_account s s"
  by (simp add: same_account_def)

lemma same_account_trans: "same_account s t \<Longrightarrow> same_account t u \<Longrightarrow> same_account s u"
  by (simp add: same_account_def)

lemma account_updates [simp]:
  "same_account s (t\<lparr>renderCtx := c\<rparr>) = same_account s t" "same_account s (t\<lparr>store := v\<rparr>) = same_account s t"
  "same_account s (t\<lparr>k_now := n\<rparr>) = same_account s t" "same_account s (t\<lparr>k_render := n\<rparr>) = same_account s t"
  "same_account s (t\<lparr>broker := b\<rparr>) = same_account s t" "same_account s (t\<lparr>commandCallKey := x\<rparr>) = same_account s t"
  "same_account s (t\<lparr>unexpectedForMain := u\<rparr>) = same_account s t" "same_account s (t\<lparr>timeouts := n\<rparr>) = same_account s t"
  "same_account s (t\<lparr>lastSent := x\<rparr>) = same_account s t" "same_account s (t\<lparr>lastRetrans := r\<rparr>) = same_account s t"
  "same_account s (t\<lparr>remote := rs\<rparr>) = same_account s t"
  by (simp_all add: same_account_def)

lemma resolveNext_account: "same_account s (snd (resolveNext env i cmd s))"
  by (simp add: resolveNext_def same_account_def Let_def)

lemma finishRTD_account: "same_account s (finishRTD env name s)"
  by (simp add: finishRTD_def read_clock_def same_account_def Let_def split: option.split)

lemma recordCommandStats_account: "same_account s (recordCommandStats cmd s)"
  by (simp add: recordCommandStats_def same_account_def)

lemma startRTD_account: "same_account s (startRTD env cmd s)"
  by (simp add: startRTD_def read_clock_def same_account_def Let_def)

lemma applySetDestination_account: "same_account s (snd (applySetDestination env r s))"
  by (simp add: applySetDestination_def Let_def split: option.split sum.split)

lemma run_actions_account: "same_account s (snd (run_actions env cfg cmd s))"
  by (simp add: run_actions_def same_account_def split: prod.split)

lemmas stats_account = same_account_trans [OF recordCommandStats_account finishRTD_account]

lemma after_actions_account:
  assumes "\<And>s. same_account s (mark s)"
  shows "same_account s (snd (after_actions env cfg cmd mark s))"
proof -
  obtain r s1 where run: "run_actions env cfg cmd s = (r, s1)" by fastforce
  have s1: "same_account s s1" using run_actions_account [of s env cfg cmd] run by simp
  show ?thesis
  proof (cases r)
    case (Inl e)
    with s1 show ?thesis by (simp add: after_actions_def run same_account_trans [OF s1 stats_account])
  next
    case (Inr x)
    obtain e s2 where dest: "applySetDestination env x s1 = (e, s2)" by fastforce
    have s2: "same_account s s2" using same_account_trans [OF s1] applySetDestination_account [of s1 env x] dest by simp
    then show ?thesis
      using Inr dest same_account_trans [OF same_account_trans [OF s2 stats_account] assms]
      by (simp add: after_actions_def run split: option.split)
  qed
qed

lemma exec_pause_account: "same_account s (snd (exec_pause env cfg cmd s))"
  by (simp add: exec_pause_def same_account_def Let_def split: option.split)

lemma remember_sent_account: "same_account s (remember_sent env msg s)"
  by (simp add: remember_sent_def read_clock_def same_account_def Let_def split: sum.split option.split)

lemma exec_send_account: "same_account s (snd (exec_send env cfg a cmd s))"
proof -
  have "same_account s (remember_sent env msg t)" if "same_account s t" for msg t
    using same_account_trans [OF that remember_sent_account] .
  then show ?thesis
    by (simp add: exec_send_def send_bytes_def Let_def split: sum.split option.split) (simp add: same_account_def)
qed

lemma sync_bus_account: "same_account s (sync_bus env s)"
  by (simp add: sync_bus_def same_account_def)

lemma exec_sendcmd_account: "same_account s (snd (exec_sendcmd env cfg cmd s))"
proof -
  have "same_account s (sync_bus env (s\<lparr>k_render := k\<rparr>))" for k by (simp add: sync_bus_def same_account_def)
  then show ?thesis by (simp add: exec_sendcmd_def Let_def split: sum.split send_outcome.split)
qed

lemma keep_polling_account: "same_account s (snd (keep_polling env deadline s))"
  by (simp add: keep_polling_def ctx_Err_def read_clock_def same_account_def split: option.split)

lemma command_turn_account: "same_account s (snd (command_turn env callID channel src deadline s))"
proof -
  have "same_account s (snd (keep_polling env deadline (sync_bus env s)))"
    by (rule same_account_trans [OF sync_bus_account keep_polling_account])
  with sync_bus_account [of s env] show ?thesis
    by (simp add: command_turn_def Let_def split: prod.split option.split any_outcome.split)
qed

lemma waitForCommand_account:
  assumes "waitForCommand env callID channel src timeout s = Some (r, s')"
  shows "same_account s s'"
proof -
  obtain key deadline where "iterate (poll_body env key channel src deadline) (s\<lparr>k_now := Suc (k_now s)\<rparr>) = Some (r, s')"
    using assms by (auto simp: waitForCommand_def read_clock_def Let_def)
  then have "same_account s (snd (r, s'))"
  proof (rule iterate_rule [where I = "same_account s"])
    fix t t' assume "same_account s t" "poll_body env key channel src deadline t = Some (Inl t')"
    then show "same_account s t'"
      using same_account_trans [OF _ command_turn_account [of t env key channel src deadline]]
      by (auto simp: poll_body_def split: prod.splits option.splits)
  next
    fix t y assume "same_account s t" "poll_body env key channel src deadline t = Some (Inr y)"
    then show "same_account s (snd y)"
      using same_account_trans [OF _ command_turn_account [of t env key channel src deadline]]
      by (auto simp: poll_body_def split: prod.splits option.splits)
  qed simp
  then show ?thesis by simp
qed

lemma command_received_account: "same_account s (snd (command_received env cfg cmd adopt key msg s))"
proof -
  define s1 where "s1 = (if key = [] then s
    else if adopt then s\<lparr>commandCallKey := key, renderCtx := (renderCtx s)\<lparr>CallID := key\<rparr>\<rparr> else s\<lparr>commandCallKey := key\<rparr>)"
  have "same_account s (s1\<lparr>renderCtx := c\<rparr>)" for c by (simp add: s1_def)
  from same_account_trans [OF this after_actions_account [of id]] show ?thesis
    by (simp add: command_received_def Let_def s1_def [symmetric])
qed

lemma count_timeout_account: "same_account s (count_timeout e s)"
  by (simp add: count_timeout_def)

lemma exec_recvcmd_account:
  assumes "exec_recvcmd env cfg index cmd s = Some (r, s')"
  shows "same_account s s'"
proof -
  obtain key timeout adopt q s1 where wait: "waitForCommand env key [] (c_CmdSrc cmd) timeout s = Some (q, s1)"
    and rest: "(case q of
        Inl e \<Rightarrow> if c_Optional cmd then (case resolveNext env index cmd s1 of (i, st2) \<Rightarrow> Some (Goto i, st2))
                 else Some (Finish (Some e), count_timeout e s1)
      | Inr (callKey, msg) \<Rightarrow> Some (command_received env cfg cmd adopt callKey msg s1)) = Some (r, s')"
    using assms by (auto simp: exec_recvcmd_def Let_def bind_eq_Some_conv)
  note s1 = waitForCommand_account [OF wait]
  have "same_account s1 s'"
    using rest resolveNext_account [of s1 env index cmd] count_timeout_account [of s1]
      command_received_account [of s1 env cfg cmd adopt]
    by (auto split: sum.splits prod.splits if_splits) (metis snd_conv)+
  with s1 show ?thesis by (rule same_account_trans)
qed

text \<open>A call is in balance when it owns exactly the messages that it received.\<close>

definition balanced :: "call_env \<Rightarrow> call_state \<Rightarrow> bool" where
  "balanced env st \<longleftrightarrow> owned st = got env st"

lemma balanced_same: "same_account s t \<Longrightarrow> balanced env s \<Longrightarrow> balanced env t"
  by (simp add: balanced_def same_accountD)

lemma mark_latency_account: "same_account s (mark_latency env msg s)"
  by (simp add: mark_latency_def read_clock_def same_account_def split: option.split)

lemma message_received_balanced:
  assumes "add_mset (fst im) (owned s) = got env s"
  shows "balanced env (snd (message_received env cfg cmd im s))"
proof -
  have bal: "balanced env (take_message cmd im s)"
    using assms by (simp add: balanced_def take_message_def owned_def got_def)
  then have bal': "balanced env ((take_message cmd im s)\<lparr>renderCtx := c\<rparr>)" for c
    by (rule balanced_same [rotated]) simp
  have tail: "balanced env (snd (case p of (FallThrough, st2) \<Rightarrow> (FallThrough, mark_latency env (snd im) st2) | r \<Rightarrow> r))"
    if "balanced env (snd p)" for p :: "step \<times> call_state"
    using that balanced_same [OF mark_latency_account] by (cases p) (auto split: step.split)
  have "balanced env (snd (after_actions env cfg cmd (mark_latency env (snd im)) ((take_message cmd im s)\<lparr>renderCtx := c\<rparr>)))" for c
    by (rule balanced_same [OF after_actions_account [OF mark_latency_account] bal'])
  from tail [OF this] bal show ?thesis
    by (simp add: message_received_def Let_def split: option.split)
qed

lemma recv_failed_account: "same_account s (snd (recv_failed main index cmd e s))"
  by (simp add: recv_failed_def count_timeout_account split: option.split)

lemma exec_recv_balanced:
  assumes "exec_recv env cfg a scen index cmd s = Some (r, s')" and "balanced env s"
  shows "balanced env s'"
proof -
  obtain t s1 where rt: "recv_timeout env cfg cmd s = (t, s1)" by fastforce
  have "same_account s s1"
    using rt by (auto simp: recv_timeout_def read_clock_def same_account_def Let_def split: option.splits if_splits)
  from balanced_same [OF this assms(2)] have s1: "balanced env (s1\<lparr>unexpectedForMain := None\<rparr>)" by (simp add: balanced_def)
  define retransmit where "retransmit = (if strings_HasPrefix (ca_transport a) ''u'' then lastRetrans s1 else 0)"
  obtain q s2 where wait: "waitForMatch env cmd (s_Labels scen ''_unexp.main'') retransmit t (s1\<lparr>unexpectedForMain := None\<rparr>) = Some (q, s2)"
    and rest: "(case q of Inl e \<Rightarrow> Some (recv_failed (s_Labels scen ''_unexp.main'') index cmd e s2)
                        | Inr im \<Rightarrow> Some (message_received env cfg cmd im s2)) = Some (r, s')"
    using assms(1) by (auto simp: exec_recv_def rt Let_def retransmit_def bind_eq_Some_conv)
  have "accounted env q s2"
    using wait s1 wait_loop_owned by (auto simp: waitForMatch_def read_clock_def balanced_def owned_def got_def)
  then show ?thesis
    using rest balanced_same [OF recv_failed_account, of env s2] message_received_balanced [of _ s2 env cfg cmd]
    by (cases q) (auto simp: accounted_def balanced_def [symmetric] dest!: arg_cong [of _ _ snd])
qed

lemma dispatch_command_balanced:
  assumes "dispatch_command env cfg a scen index cmd s = Some (r, s')" and "balanced env s"
  shows "balanced env s'"
proof -
  have same: "balanced env (snd p)" if "same_account s (snd p)" for p :: "step \<times> call_state"
    using balanced_same [OF that assms(2)] .
  note keeps = same [OF after_actions_account [of id]] same [OF exec_pause_account] same [OF exec_send_account]
    same [OF exec_sendcmd_account]
  show ?thesis
    using assms exec_recv_balanced [of env cfg a scen index cmd s r s']
      balanced_same [OF exec_recvcmd_account [of env cfg index cmd s r s'] assms(2)]
      keeps(1) [of env cfg cmd] keeps(2) [of env cfg cmd] keeps(3) [of env cfg a cmd] keeps(4) [of env cfg cmd]
    by (cases "c_Type cmd") (auto simp: dispatch_command_def)
qed

lemma end_command_account: "same_account s (snd (end_command env index cmd s))"
  unfolding end_command_def by (rule same_account_trans [OF stats_account resolveNext_account])

lemma call_step_balanced:
  assumes "call_step env cfg a scen index s = Some x" and "balanced env s"
  shows "balanced env (case x of Inl p \<Rightarrow> snd p | Inr p \<Rightarrow> snd p)"
proof (cases "index < 0")
  case True
  with assms show ?thesis by (auto simp: call_step_def)
next
  case False
  define cmd where "cmd = s_Commands scen ! nat index"
  define t where "t = s\<lparr>renderCtx := (renderCtx s)\<lparr>Variables := Snapshot (store s)\<rparr>\<rparr>"
  define u where "u = startRTD env cmd (t\<lparr>renderCtx := (renderCtx t)\<lparr>MessageIndex := c_Index cmd\<rparr>\<rparr>)"
  have "same_account s t" by (simp add: t_def)
  note t = balanced_same [OF this assms(2)]
  have "same_account t u" unfolding u_def by (rule same_account_trans [OF _ startRTD_account]) simp
  note u = balanced_same [OF this t]
  have step: "call_step env cfg a scen index s =
      (if \<not> shouldExecute cmd (store t) then Some (Inl (index + 1, t))
       else Option.bind (dispatch_command env cfg a scen index cmd u) (\<lambda>(r, st2).
              case r of Goto i \<Rightarrow> Some (Inl (i, st2)) | Finish e \<Rightarrow> Some (Inr (e, st2))
                | FallThrough \<Rightarrow> Some (Inl (end_command env index cmd st2))))"
    using False by (simp add: call_step_def cmd_def [symmetric] t_def [symmetric] u_def [symmetric] Let_def)
  show ?thesis
  proof (cases "shouldExecute cmd (store t)")
    case True
    with assms(1) obtain r s2 where d: "dispatch_command env cfg a scen index cmd u = Some (r, s2)"
      unfolding step by (auto simp: bind_eq_Some_conv)
    note s2 = dispatch_command_balanced [OF d u]
    from s2 balanced_same [OF end_command_account s2] assms(1) True d show ?thesis
      unfolding step by (cases r) auto
  next
    case no: False
    with assms(1) t show ?thesis unfolding step by auto
  qed
qed

lemma arrived_iff: "arrived env k \<longleftrightarrow> (\<exists>m. ce_arrival env k = Inr m)"
  by (cases "ce_arrival env k") (simp_all add: arrived_def)

lemma arrivals_mset: "arrivals env k = mset (filter (arrived env) [0..<k])"
  by (induction k) simp_all

lemma initial_balanced: "balanced env (initial_state cfg a scen scopes b)"
  by (simp add: balanced_def initial_state_def Let_def owned_def got_def)

lemma executeCall_balanced:
  assumes "executeCall errText network env cfg a scen scopes b = Some out"
  shows "balanced env (ce_final out) \<and> deferred (ce_final out) = [] \<and> pendingMsgs (ce_final out) = []"
proof (cases "ca_media a")
  case (Some e)
  with assms initial_balanced show ?thesis by (auto simp: executeCall_def Let_def initial_state_def)
next
  case None
  then obtain err st where run: "iterate (call_body env cfg a scen) (0, initial_state cfg a scen scopes b) = Some (err, st)"
    and out: "ce_final out = release_messages st"
    using assms by (auto simp: executeCall_def Let_def bind_eq_Some_conv)
  have "balanced env (snd (err, st))"
    using run
  proof (rule iterate_rule [where I = "\<lambda>p. balanced env (snd p)"])
    show "balanced env (snd (0, initial_state cfg a scen scopes b))" by (simp add: initial_balanced)
  next
    fix p p' assume "balanced env (snd p)" "call_body env cfg a scen p = Some (Inl p')"
    then show "balanced env (snd p')"
      using call_step_balanced [of env cfg a scen "fst p" "snd p"] by (force simp: call_body_def split: if_splits)
  next
    fix p r assume "balanced env (snd p)" "call_body env cfg a scen p = Some (Inr r)"
    then show "balanced env (snd r)"
      using call_step_balanced [of env cfg a scen "fst p" "snd p"] by (force simp: call_body_def split: if_splits)
  qed
  then show ?thesis
    unfolding out by (simp add: balanced_def release_messages_def owned_def got_def union_ac)
qed

text \<open>
  C1: Messages come from a shared pool and must go back to it exactly once: a message that is put
  back twice is handed to two calls.  When a call ends, on whatever path and with whatever error, it
  has put back each message that it received, each of them once, and nothing else.
\<close>
theorem executeCall_pool:
  assumes "executeCall errText network env cfg a scen scopes b = Some out"
  shows "distinct (freed (ce_final out)) \<and>
    set (freed (ce_final out)) = {i. i < k_recv (ce_final out) \<and> (\<exists>m. ce_arrival env i = Inr m)}"
proof -
  let ?fin = "ce_final out"
  have "mset (freed ?fin) = mset (filter (arrived env) [0..<k_recv ?fin])"
    using executeCall_balanced [OF assms] by (auto simp: balanced_def owned_def got_def arrivals_mset)
  from mset_eq_imp_distinct_iff [OF this] mset_eq_setD [OF this] show ?thesis by (auto simp: arrived_iff)
qed

definition sample_scenario :: Scenario where
  "sample_scenario = \<lparr>s_Name = ''wait'', s_BasePath = [], s_Mode = ModeClient, s_WebRTC = False, s_Commands = [sample_recv],
     s_InitCommands = [], s_Labels = Map.empty, s_InitLabels = Map.empty, s_GlobalVariables = [], s_UserVariables = [],
     s_References = []\<rparr>"

text \<open>A call that waits for a 200, passes over a 180 and gives both messages back.\<close>

theorem executeCall_pool_witness:
  "\<forall>env0 cfg0 a0 errText network scopes b.
     \<exists>out. executeCall errText network (sample_world (env0\<lparr>ce_answer := (\<lambda>_. None), ce_trickle := (\<lambda>_. None)\<rparr>))
         (cfg0\<lparr>cf_DefaultRecvTO := 1000\<rparr>) (a0\<lparr>ca_media := None, ca_transport := ''t1''\<rparr>) sample_scenario scopes b = Some out
       \<and> ce_err out = None \<and> distinct (freed (ce_final out)) \<and> set (freed (ce_final out)) = {0, 1}"
proof (intro allI)
  fix env0 :: call_env and cfg0 :: call_config and a0 :: call_args and errText network scopes b
  let ?env = "sample_world (env0\<lparr>ce_answer := (\<lambda>_. None), ce_trickle := (\<lambda>_. None)\<rparr>)"
  let ?cfg = "cfg0\<lparr>cf_DefaultRecvTO := 1000\<rparr>" and ?a = "a0\<lparr>ca_media := None, ca_transport := ''t1''\<rparr>"
  define st0 where "st0 = initial_state ?cfg ?a sample_scenario scopes b"
  have cmd: "c_Type sample_recv = CommandRecv" "c_CondExec sample_recv = []" "c_StartRTD sample_recv = []" "c_Optional sample_recv = False"
    "c_Timeout sample_recv = 0" "c_RecvReq sample_recv = []" "c_Actions sample_recv = []" "c_NextIndex sample_recv = - 1"
    by (simp_all add: sample_recv_def new_command_def)
  have st0: "pendingMsgs st0 = []" "k_recv st0 = 0" "lastSentBranch st0 = []" "lastSentMethod st0 = []" "inviteStartedAt st0 = None"
    by (simp_all add: st0_def initial_state_def Let_def)
  define st1 where "st1 = st0\<lparr>renderCtx := (renderCtx st0)\<lparr>Variables := Snapshot (store st0), MessageIndex := c_Index sample_recv\<rparr>, unexpectedForMain := None\<rparr>"
  obtain st2 where st2: "waitForMatch ?env sample_recv None 0 1000 st1 = Some (Inr (1, sample_response 200), st2)" "k_recv st2 = 2"
    using sample_run [of st1 1000 "env0\<lparr>ce_answer := (\<lambda>_. None), ce_trickle := (\<lambda>_. None)\<rparr>"] st0
    by (auto simp: st1_def)
  have hooks: "ce_answer ?env = (\<lambda>_. None)" "ce_trickle ?env = (\<lambda>_. None)" by (simp_all add: sample_world_def)
  obtain st3 where st3: "message_received ?env ?cfg sample_recv (1, sample_response 200) st2 = (FallThrough, st3)" "k_recv st3 = 2"
    using st2(2) by (auto simp: hooks message_received_def take_message_def after_actions_def run_actions_def applyActions_def cmd refresh_def
        noResult_def applySetDestination_def mark_latency_def read_clock_def Let_def split: option.split)
  have "\<not> strings_EqualFold (strings_TrimSpace []) ''BYE''" by code_simp
  then have eff: "effectiveSIPRecvTimeout sample_recv 1000 f = 1000" for f by (simp add: effectiveSIPRecvTimeout_def cmd)
  have len: "length (s_Commands sample_scenario) = 1" by (simp add: sample_scenario_def)
  have pre: "\<not> strings_HasPrefix ''t1'' ''u''" by code_simp
  have step: "call_step ?env ?cfg ?a sample_scenario 0 st0 = Some (Inl (end_command ?env 0 sample_recv st3))"
    using st2 st3 st0(5)
    by (simp add: call_step_def shouldExecute_def startRTD_def dispatch_command_def exec_recv_def recv_timeout_def cmd
        eff pre sample_scenario_def st1_def Let_def)
  have "fst (end_command ?env 0 sample_recv st3) = 1" "k_recv (snd (end_command ?env 0 sample_recv st3)) = 2"
    using end_command_account [of st3 ?env 0 sample_recv] st3(2)
    by (simp_all add: end_command_def resolveNext_def cmd same_account_def)
  then have "\<exists>out. executeCall errText network ?env ?cfg ?a sample_scenario scopes b = Some out
      \<and> ce_err out = None \<and> k_recv (ce_final out) = 2"
    unfolding executeCall_def Let_def st0_def [symmetric]
    using step len by (simp add: iterate.simps call_body_def release_messages_def case_prod_beta)
  then obtain out where run: "executeCall errText network ?env ?cfg ?a sample_scenario scopes b = Some out"
    and ok: "ce_err out = None" "k_recv (ce_final out) = 2" by blast
  have "{i. i < (2 :: nat) \<and> (\<exists>m. ce_arrival ?env i = Inr m)} = {0, 1}" by (auto simp: sample_world_def)
  with executeCall_pool [OF run] run ok show "\<exists>out. executeCall errText network ?env ?cfg ?a sample_scenario scopes b = Some out
       \<and> ce_err out = None \<and> distinct (freed (ce_final out)) \<and> set (freed (ce_final out)) = {0, 1}"
    by auto
qed

section \<open>Calls end\<close>

text \<open>The clock passes every moment, and stays past it.\<close>

definition clock_advances :: "call_env \<Rightarrow> bool" where
  "clock_advances env \<longleftrightarrow> (\<forall>t. \<exists>N. \<forall>n \<ge> N. t < ce_now env n)"

text \<open>A scenario without loops: no jumps, no branch backwards, no handler for unexpected messages.\<close>

definition forward :: "Scenario \<Rightarrow> bool" where
  "forward scen \<longleftrightarrow> s_Labels scen ''_unexp.main'' = None \<and>
     (\<forall>i < length (s_Commands scen).
        (c_NextIndex (s_Commands scen ! i) < 0 \<or> int i < c_NextIndex (s_Commands scen ! i))
        \<and> list_all (\<lambda>a. a_Type a \<noteq> ActionJump) (c_Actions (s_Commands scen ! i)))"

lemma apply_action_no_jump:
  "a_Type action \<noteq> ActionJump \<Longrightarrow> hasJump (st_result (snd (apply_action h tf w action st))) = hasJump (st_result st)"
  by (cases "a_Type action") (auto simp: apply_action_def assign_all_def split: sum.splits option.splits)

lemma action_loop_no_jump:
  "list_all (\<lambda>a. a_Type a \<noteq> ActionJump) actions \<Longrightarrow>
   hasJump (st_result (snd (action_loop h tf ws k actions st))) = hasJump (st_result st)"
proof (induction actions arbitrary: k st)
  case (Cons action rest)
  obtain e st' where a: "apply_action h tf (ws k) action st = (e, st')" by fastforce
  have "hasJump (st_result st') = hasJump (st_result st)"
    using apply_action_no_jump [of action h tf "ws k" st] Cons.prems a by simp
  with Cons a show ?case by (cases e) (simp_all add: refresh_def)
qed simp

lemma run_actions_no_jump:
  assumes "run_actions env cfg cmd st = (Inr r, st')" and "list_all (\<lambda>a. a_Type a \<noteq> ActionJump) (c_Actions cmd)"
  shows "\<not> hasJump r"
  using assms(1) action_loop_no_jump [OF assms(2)]
  by (auto simp: run_actions_def applyActions_def noResult_def refresh_def split: prod.splits option.splits)
    (metis act_state.select_convs(3) actionResult.select_convs(2) snd_conv)

text \<open>Where a command can lead.\<close>

definition onward :: "int \<Rightarrow> step \<times> call_state \<Rightarrow> bool" where
  "onward index p \<longleftrightarrow> (case fst p of Goto i \<Rightarrow> index < i | _ \<Rightarrow> True)"

lemma onward_simps [simp]:
  "onward index (Goto i, s) \<longleftrightarrow> index < i" "onward index (Finish e, s)" "onward index (FallThrough, s)"
  by (simp_all add: onward_def)

lemma after_actions_onward:
  assumes "list_all (\<lambda>a. a_Type a \<noteq> ActionJump) (c_Actions cmd)"
  shows "onward index (after_actions env cfg cmd mark s)"
proof -
  obtain r s1 where run: "run_actions env cfg cmd s = (r, s1)" by fastforce
  show ?thesis
  proof (cases r)
    case (Inl e)
    with run show ?thesis by (simp add: after_actions_def)
  next
    case (Inr x)
    obtain e s2 where "applySetDestination env x s1 = (e, s2)" by fastforce
    with Inr run run_actions_no_jump [OF _ assms, of env cfg s x s1] show ?thesis
      by (simp add: after_actions_def split: option.split)
  qed
qed

lemma resolveNext_onward:
  assumes "c_NextIndex cmd < 0 \<or> index < c_NextIndex cmd"
  shows "index < fst (resolveNext env index cmd s)"
  using assms by (auto simp: resolveNext_def Let_def)

lemma message_received_onward:
  assumes "list_all (\<lambda>a. a_Type a \<noteq> ActionJump) (c_Actions cmd)"
  shows "onward index (message_received env cfg cmd im s)"
proof -
  have tail: "onward index (case p of (FallThrough, st2) \<Rightarrow> (FallThrough, mark_latency env (snd im) st2) | r \<Rightarrow> r)"
    if "onward index p" for p :: "step \<times> call_state"
    using that by (cases p) (auto split: step.split)
  show ?thesis
    using tail [OF after_actions_onward [OF assms]]
    by (simp add: message_received_def Let_def split: option.split)
qed

lemma waitForCommand_returns:
  assumes "clock_advances env"
  shows "\<exists>y. waitForCommand env callID channel src timeout s = Some y"
proof -
  obtain N where N: "\<forall>n \<ge> N. ce_now env (k_now s) + timeout < ce_now env n"
    using assms by (auto simp: clock_advances_def)
  have "\<exists>y. iterate (poll_body env key channel src (ce_now env (k_now s) + timeout)) t = Some y" for key t
  proof (rule iterate_returns [where I = "\<lambda>_. True" and m = "\<lambda>t. N - k_now t"])
    fix t
    obtain r t' where turn: "command_turn env key channel src (ce_now env (k_now s) + timeout) t = (r, t')" by fastforce
    have poll: "snd (keep_polling env d (sync_bus env t)) = t' \<Longrightarrow> fst (keep_polling env d (sync_bus env t)) = None
        \<Longrightarrow> k_now t' = Suc (k_now t) \<and> ce_now env (k_now t) \<le> d" for d
      by (auto simp: keep_polling_def ctx_Err_def read_clock_def sync_bus_def split: option.splits if_splits)
    have "k_now t' = Suc (k_now t) \<and> ce_now env (k_now t) \<le> ce_now env (k_now s) + timeout" if "r = None"
      using turn that poll [of "ce_now env (k_now s) + timeout"]
      by (auto simp: command_turn_def Let_def split: if_splits any_outcome.splits prod.splits option.splits)
    moreover from this have "k_now t < N" if "r = None" using N that by (meson not_le)
    ultimately show "\<exists>x. poll_body env key channel src (ce_now env (k_now s) + timeout) t = Some x
        \<and> (\<forall>t'. x = Inl t' \<longrightarrow> True \<and> N - k_now t' < N - k_now t)"
      using turn by (cases r) (auto simp: poll_body_def)
  qed simp
  then show ?thesis by (simp add: waitForCommand_def read_clock_def Let_def)
qed

lemma exec_recv_onward:
  assumes "clock_advances env" and "s_Labels scen ''_unexp.main'' = None"
    and "list_all (\<lambda>a. a_Type a \<noteq> ActionJump) (c_Actions cmd)"
  shows "\<exists>p. exec_recv env cfg a scen index cmd s = Some p \<and> onward index p"
proof -
  obtain t s1 where rt: "recv_timeout env cfg cmd s = (t, s1)" by fastforce
  define retransmit where "retransmit = (if strings_HasPrefix (ca_transport a) ''u'' then lastRetrans s1 else 0)"
  obtain N where "\<forall>n \<ge> N. ce_now env (k_now (s1\<lparr>unexpectedForMain := None\<rparr>)) + t < ce_now env n"
    using assms(1) unfolding clock_advances_def by blast
  then obtain q s2 where w: "waitForMatch env cmd None retransmit t (s1\<lparr>unexpectedForMain := None\<rparr>) = Some (q, s2)"
    using waitForMatch_ends by blast
  have "onward index (recv_failed None index cmd e s2)" for e by (simp add: recv_failed_def split: option.split)
  then show ?thesis
    using w message_received_onward [OF assms(3)]
    by (cases q) (simp_all add: exec_recv_def rt assms(2) retransmit_def)
qed

lemma exec_recvcmd_onward:
  assumes "clock_advances env" and "c_NextIndex cmd < 0 \<or> index < c_NextIndex cmd"
    and "list_all (\<lambda>a. a_Type a \<noteq> ActionJump) (c_Actions cmd)"
  shows "\<exists>p. exec_recvcmd env cfg index cmd s = Some p \<and> onward index p"
proof -
  define adopt where "adopt = (cf_Net cfg \<noteq> None \<and> c_Index cmd = 0 \<and> lastSent s = [] \<and> LastMessage (renderCtx s) = [])"
  define timeout where "timeout = (if 0 < c_Timeout cmd then c_Timeout cmd else if c_Optional cmd then 250 * Millisecond else cf_DefaultRecvTO cfg)"
  obtain q s1 where w: "waitForCommand env (if adopt then [] else commandCallKey s) [] (c_CmdSrc cmd) timeout s = Some (q, s1)"
    using waitForCommand_returns [OF assms(1)] by fastforce
  have run: "exec_recvcmd env cfg index cmd s =
      (case q of
         Inl e \<Rightarrow> if c_Optional cmd then (case resolveNext env index cmd s1 of (i, st2) \<Rightarrow> Some (Goto i, st2))
                  else Some (Finish (Some e), count_timeout e s1)
       | Inr (callKey, msg) \<Rightarrow> Some (command_received env cfg cmd adopt callKey msg s1))"
    unfolding exec_recvcmd_def Let_def adopt_def [symmetric] timeout_def [symmetric] by (simp only: w bind.simps prod.case)
  have "onward index (command_received env cfg cmd adopt k m s1)" for k m
    using after_actions_onward [OF assms(3)] by (simp add: command_received_def Let_def)
  then show ?thesis
    using resolveNext_onward [OF assms(2), of env s1]
    by (cases q) (auto simp: run simp del: split_paired_Ex split: prod.split)
qed

lemma dispatch_command_onward:
  assumes "clock_advances env" and "s_Labels scen ''_unexp.main'' = None"
    and "c_NextIndex cmd < 0 \<or> index < c_NextIndex cmd" and "list_all (\<lambda>a. a_Type a \<noteq> ActionJump) (c_Actions cmd)"
  shows "\<exists>p. dispatch_command env cfg a scen index cmd s = Some p \<and> onward index p"
proof -
  have "onward index (exec_pause env cfg cmd s)" "onward index (exec_send env cfg a cmd s)" "onward index (exec_sendcmd env cfg cmd s)"
    by (simp_all add: exec_pause_def exec_send_def exec_sendcmd_def Let_def split: option.split sum.split prod.split send_outcome.split)
  with after_actions_onward [OF assms(4)] exec_recv_onward [OF assms(1,2,4)] exec_recvcmd_onward [OF assms(1,3,4)]
  show ?thesis by (cases "c_Type cmd") (simp_all add: dispatch_command_def)
qed

lemma call_step_onward:
  assumes "clock_advances env" and "forward scen" and "0 \<le> index" and "index < int (length (s_Commands scen))"
  shows "\<exists>x. call_step env cfg a scen index s = Some x \<and> (\<forall>p. x = Inl p \<longrightarrow> index < fst p)"
proof -
  define cmd where "cmd = s_Commands scen ! nat index"
  obtain i where i: "index = int i" "i < length (s_Commands scen)" using assms(3,4) nonneg_int_cases by auto
  with assms(2) have fwd: "s_Labels scen ''_unexp.main'' = None" "c_NextIndex cmd < 0 \<or> index < c_NextIndex cmd"
    "list_all (\<lambda>a. a_Type a \<noteq> ActionJump) (c_Actions cmd)"
    by (auto simp: forward_def cmd_def)
  define t where "t = s\<lparr>renderCtx := (renderCtx s)\<lparr>Variables := Snapshot (store s)\<rparr>\<rparr>"
  define u where "u = startRTD env cmd (t\<lparr>renderCtx := (renderCtx t)\<lparr>MessageIndex := c_Index cmd\<rparr>\<rparr>)"
  obtain r s2 where d: "dispatch_command env cfg a scen index cmd u = Some (r, s2)" and on: "onward index (r, s2)"
    using dispatch_command_onward [OF assms(1) fwd, of cfg a u] by auto
  have "index < fst (end_command env index cmd s2)"
    unfolding end_command_def by (rule resolveNext_onward [OF fwd(2)])
  with on d assms(3) show ?thesis
    by (cases r) (auto simp: call_step_def cmd_def [symmetric] t_def [symmetric] u_def [symmetric] Let_def)
qed

text \<open>
  C2: A call ends.  When the clock advances, the call of a scenario without loops returns, whatever the
  peer sends or does not send, whatever the actions do and whichever operation fails; and unless its
  media could not be set up, its end is counted.
\<close>
theorem executeCall_returns:
  assumes "clock_advances env" and "forward scen"
  shows "\<exists>out. executeCall errText network env cfg a scen scopes b = Some out
    \<and> (ce_finished out = None \<longleftrightarrow> ca_media a \<noteq> None)"
proof -
  have "\<exists>r. iterate (call_body env cfg a scen) (0, initial_state cfg a scen scopes b) = Some r"
  proof (rule iterate_returns [where I = "\<lambda>p. 0 \<le> fst p" and m = "\<lambda>p. nat (int (length (s_Commands scen)) - fst p)"])
    fix p :: "int \<times> call_state"
    assume p: "0 \<le> fst p"
    show "\<exists>x. call_body env cfg a scen p = Some x
        \<and> (\<forall>p'. x = Inl p' \<longrightarrow> 0 \<le> fst p' \<and> nat (int (length (s_Commands scen)) - fst p') < nat (int (length (s_Commands scen)) - fst p))"
      using call_step_onward [OF assms p, of cfg a "snd p"] p by (fastforce simp: call_body_def)
  qed simp
  then show ?thesis by (cases "ca_media a") (auto simp: executeCall_def Let_def)
qed

theorem executeCall_returns_witness:
  "\<forall>env0 cfg a errText network scopes b. \<exists>out. executeCall errText network (env0\<lparr>ce_now := int\<rparr>) cfg a sample_scenario scopes b = Some out"
proof (intro allI)
  fix env0 cfg a errText network scopes b
  have "clock_advances (env0\<lparr>ce_now := int\<rparr>)"
    unfolding clock_advances_def
  proof (intro allI exI impI)
    fix t n assume "nat t + 1 \<le> n"
    then show "t < ce_now (env0\<lparr>ce_now := int\<rparr>) n" by simp
  qed
  moreover have "forward sample_scenario"
    by (simp add: forward_def sample_scenario_def sample_recv_def new_command_def)
  ultimately show "\<exists>out. executeCall errText network (env0\<lparr>ce_now := int\<rparr>) cfg a sample_scenario scopes b = Some out"
    using executeCall_returns by blast
qed

section \<open>Matching against the last request\<close>

lemma remember_sent_fields:
  assumes "Parse msg = Inr req" and "ViaBranch (Headers req) = Some br" and "ParseCSeq (Headers req) = Some (n, meth)"
  shows "lastSentBranch (remember_sent env msg st) = br" "lastSentMethod (remember_sent env msg st) = meth"
    "lastSentCSeqNum (remember_sent env msg st) = n"
  using assms ParseCSeq_method [OF assms(3)] by (simp_all add: remember_sent_def read_clock_def Let_def)



end
