(* ===== verification/EventRing.thy ===== *)
theory EventRing
  imports Loops
begin

text \<open>
  The event ring, \<^verbatim>\<open>internal/eventlog/ring.go\<close>: a fixed array with a read and a write position that
  overwrites the oldest event when it is full.  The mutex makes each operation atomic.  The contract
  of a bounded queue is a locale, and the ring refines the list of its last events.
\<close>

section \<open>The ring\<close>

text \<open>\<open>'a\<close> is the type of events with its zero value; slots that are read are set to the zero value.\<close>

record 'a ringBuffer =
  rb_buf :: "'a list"
  rb_head :: nat
  rb_tail :: nat
  rb_size :: nat
  rb_cap :: nat
  rb_dropped :: nat
  rb_closed :: bool

definition newRingBuffer :: "'a \<Rightarrow> int \<Rightarrow> 'a ringBuffer" where
  "newRingBuffer zero capacity0 =
     (let capacity = (if capacity0 \<le> 0 then 1 else nat capacity0)
      in \<lparr>rb_buf = replicate capacity zero, rb_head = 0, rb_tail = 0, rb_size = 0, rb_cap = capacity, rb_dropped = 0,
          rb_closed = False\<rparr>)"

text \<open>The drop counter is a 64-bit word; it is kept as a number, which a word represents up to \<open>2 ^ 64\<close>.\<close>

definition ring_push :: "'a \<Rightarrow> 'a ringBuffer \<Rightarrow> 'a ringBuffer" where
  "ring_push ev r =
     (if rb_closed r then r
      else
        let r1 = (if rb_size r = rb_cap r
                  then r\<lparr>rb_head := (rb_head r + 1) mod rb_cap r, rb_size := rb_size r - 1, rb_dropped := rb_dropped r + 1\<rparr>
                  else r)
        in r1\<lparr>rb_buf := (rb_buf r1)[rb_tail r1 := ev], rb_tail := (rb_tail r1 + 1) mod rb_cap r1, rb_size := rb_size r1 + 1\<rparr>)"

fun drain_loop :: "'a \<Rightarrow> nat \<Rightarrow> 'a ringBuffer \<Rightarrow> 'a list \<Rightarrow> 'a list \<times> 'a ringBuffer" where
  "drain_loop zero 0 r out = (out, r)"
| "drain_loop zero (Suc n) r out =
     drain_loop zero n
       (r\<lparr>rb_buf := (rb_buf r)[rb_head r := zero], rb_head := (rb_head r + 1) mod rb_cap r\<rparr>) (out @ [rb_buf r ! rb_head r])"

text \<open>
  \<open>outcap\<close> is the capacity of the slice that is passed in.  The result is \<open>None\<close> while the consumer has
  to wait, otherwise the drained events and the flag.
\<close>

definition ring_drain :: "'a \<Rightarrow> nat \<Rightarrow> 'a ringBuffer \<Rightarrow> ('a list \<times> bool) option \<times> 'a ringBuffer" where
  "ring_drain zero outcap r =
     (if rb_size r = 0 then (if rb_closed r then (Some ([], False), r) else (None, r))
      else
        let max = (if outcap = 0 then rb_size r else outcap);
            n = min (rb_size r) max
        in case drain_loop zero n r [] of (out, r1) \<Rightarrow> (Some (out, True), r1\<lparr>rb_size := rb_size r1 - n\<rparr>))"

definition ring_close :: "'a ringBuffer \<Rightarrow> 'a ringBuffer" where
  "ring_close r = r\<lparr>rb_closed := True\<rparr>"

definition dropCount :: "'a ringBuffer \<Rightarrow> nat" where
  "dropCount r = rb_dropped r"

definition ring_length :: "'a ringBuffer \<Rightarrow> nat" where
  "ring_length r = rb_size r"

section \<open>Abstraction\<close>

text \<open>The events in the ring, oldest first, and the shape of a ring.\<close>

definition ring_list :: "'a ringBuffer \<Rightarrow> 'a list" where
  "ring_list r = map (\<lambda>i. rb_buf r ! ((rb_head r + i) mod rb_cap r)) [0..<rb_size r]"

definition ring_inv :: "'a ringBuffer \<Rightarrow> bool" where
  "ring_inv r \<longleftrightarrow> 0 < rb_cap r \<and> length (rb_buf r) = rb_cap r \<and> rb_size r \<le> rb_cap r \<and> rb_head r < rb_cap r
     \<and> rb_tail r = (rb_head r + rb_size r) mod rb_cap r"

text \<open>The specification: the newest events, at most as many as fit.\<close>

definition list_push :: "nat \<Rightarrow> 'a \<Rightarrow> 'a list \<Rightarrow> 'a list" where
  "list_push cap ev xs = (let ys = xs @ [ev] in drop (length ys - cap) ys)"

lemma ring_list_length [simp]: "length (ring_list r) = rb_size r"
  by (simp add: ring_list_def)

lemma ring_inv_new: "ring_inv (newRingBuffer zero c) \<and> ring_list (newRingBuffer zero c) = []"
  by (simp add: ring_inv_def ring_list_def newRingBuffer_def Let_def)

text \<open>Two offsets below the capacity name the same slot only when they are equal.\<close>

lemma slot_inj:
  fixes h :: nat
  assumes "i < c" "j < c" "(h + i) mod c = (h + j) mod c"
  shows "i = j"
proof -
  have le: "a = b" if "a \<le> b" "b < c" "(h + a) mod c = (h + b) mod c" for a b
  proof -
    have "c dvd b - a" using that mod_eq_dvd_iff_nat [of "h + a" "h + b" c] by simp
    then show ?thesis using that by (auto dest: dvd_imp_le)
  qed
  show ?thesis using le [of i j] le [of j i] assms by (cases "i \<le> j") auto
qed

lemma ring_append:
  fixes r :: "'a ringBuffer" and ev :: 'a
  assumes "ring_inv r" "rb_size r < rb_cap r"
  defines "r' \<equiv> r\<lparr>rb_buf := (rb_buf r)[rb_tail r := ev], rb_tail := (rb_tail r + 1) mod rb_cap r, rb_size := rb_size r + 1\<rparr>"
  shows "ring_list r' = ring_list r @ [ev] \<and> ring_inv r'"
proof -
  let ?c = "rb_cap r" and ?h = "rb_head r" and ?n = "rb_size r"
  have t: "rb_tail r = (?h + ?n) mod ?c" "length (rb_buf r) = ?c" "0 < ?c" "?h < ?c" using assms(1) by (simp_all add: ring_inv_def)
  have old: "(rb_buf r)[rb_tail r := ev] ! ((?h + i) mod ?c) = rb_buf r ! ((?h + i) mod ?c)" if "i < ?n" for i
  proof -
    have "(?h + ?n) mod ?c \<noteq> (?h + i) mod ?c" using slot_inj [of ?n ?c i ?h] that assms(2) by fastforce
    then show ?thesis by (simp add: t(1))
  qed
  have new: "(rb_buf r)[rb_tail r := ev] ! ((?h + ?n) mod ?c) = ev" using t by simp
  have "ring_list r' = ring_list r @ [ev]"
    using old new by (simp add: r'_def ring_list_def)
  moreover have "ring_inv r'"
    using t assms(2) by (simp add: r'_def ring_inv_def mod_Suc_eq)
  ultimately show ?thesis by blast
qed

lemma ring_list_tl:
  assumes "ring_inv r" "0 < rb_size r"
  shows "ring_list (r\<lparr>rb_head := (rb_head r + 1) mod rb_cap r, rb_size := rb_size r - 1\<rparr>) = tl (ring_list r)"
proof (rule nth_equalityI)
  fix i assume "i < length (ring_list (r\<lparr>rb_head := (rb_head r + 1) mod rb_cap r, rb_size := rb_size r - 1\<rparr>))"
  then have i: "i < rb_size r - 1" by simp
  then have "tl (ring_list r) ! i = ring_list r ! Suc i" by (simp add: nth_tl)
  with i show "ring_list (r\<lparr>rb_head := (rb_head r + 1) mod rb_cap r, rb_size := rb_size r - 1\<rparr>) ! i = tl (ring_list r) ! i"
    by (simp add: ring_list_def mod_simps)
qed simp

lemma ring_dropped: "ring_list (r\<lparr>rb_dropped := d\<rparr>) = ring_list r" "ring_inv (r\<lparr>rb_dropped := d\<rparr>) = ring_inv r"
  by (simp_all add: ring_list_def ring_inv_def)

text \<open>A push refines the push of the specification.\<close>

lemma ring_push_refines:
  assumes "ring_inv r" "\<not> rb_closed r"
  shows "ring_list (ring_push ev r) = list_push (rb_cap r) ev (ring_list r) \<and> ring_inv (ring_push ev r)
    \<and> rb_cap (ring_push ev r) = rb_cap r \<and> \<not> rb_closed (ring_push ev r)
    \<and> rb_dropped (ring_push ev r) = rb_dropped r + (if rb_size r = rb_cap r then 1 else 0)"
proof (cases "rb_size r = rb_cap r")
  case False
  with assms(1) have "rb_size r < rb_cap r" by (simp add: ring_inv_def)
  with ring_append [OF assms(1) this, of ev] False assms(2) show ?thesis
    by (simp add: ring_push_def list_push_def Let_def)
next
  case True
  define r1 where "r1 = r\<lparr>rb_head := (rb_head r + 1) mod rb_cap r, rb_size := rb_size r - 1\<rparr>"
  have c: "0 < rb_cap r" "rb_head r < rb_cap r" "rb_tail r = (rb_head r + rb_size r) mod rb_cap r" using assms(1) by (simp_all add: ring_inv_def)
  have "((rb_head r + 1) mod rb_cap r + (rb_size r - 1)) mod rb_cap r = (rb_head r + 1 + (rb_size r - 1)) mod rb_cap r"
    by (rule mod_add_left_eq)
  then have tail: "rb_tail r = ((rb_head r + 1) mod rb_cap r + (rb_size r - 1)) mod rb_cap r" using c True by simp
  have "ring_inv r1" unfolding ring_inv_def r1_def using assms(1) True c(1) tail by (simp add: ring_inv_def)
  note inv = this
  have "rb_size r1 < rb_cap r1" using c True by (simp add: r1_def)
  have push: "ring_list (ring_push ev r) = ring_list r1 @ [ev] \<and> ring_inv (ring_push ev r)"
  proof -
    have "ring_push ev r = (r1\<lparr>rb_buf := (rb_buf r1)[rb_tail r1 := ev], rb_tail := (rb_tail r1 + 1) mod rb_cap r1,
        rb_size := rb_size r1 + 1\<rparr>)\<lparr>rb_dropped := rb_dropped r + 1\<rparr>"
      using assms(2) True by (simp add: ring_push_def r1_def Let_def)
    with ring_append [OF inv \<open>rb_size r1 < rb_cap r1\<close>, of ev] show ?thesis by (simp only: ring_dropped)
  qed
  have "ring_list r1 = tl (ring_list r)" using ring_list_tl [OF assms(1)] True c by (simp add: r1_def)
  then show ?thesis
    using push assms(2) True c(1) by (simp add: ring_push_def list_push_def Let_def drop_Suc)
qed

lemma drain_loop_size:
  "drain_loop zero n (r\<lparr>rb_size := s\<rparr>) out = (fst (drain_loop zero n r out), (snd (drain_loop zero n r out))\<lparr>rb_size := s\<rparr>)"
proof (induction n arbitrary: r out)
  case (Suc n)
  let ?r1 = "r\<lparr>rb_buf := (rb_buf r)[rb_head r := zero], rb_head := (rb_head r + 1) mod rb_cap r\<rparr>"
  have "drain_loop zero (Suc n) (r\<lparr>rb_size := s\<rparr>) out = drain_loop zero n (?r1\<lparr>rb_size := s\<rparr>) (out @ [rb_buf r ! rb_head r])"
  proof -
    have eq: "r\<lparr>rb_size := s, rb_buf := (rb_buf r)[rb_head r := zero], rb_head := Suc (rb_head r) mod rb_cap r\<rparr> = ?r1\<lparr>rb_size := s\<rparr>"
      by simp
    show ?thesis by (simp add: eq)
  qed
  then show ?case by (simp only: Suc drain_loop.simps)
qed simp

lemma drain_one:
  fixes r :: "'a ringBuffer" and zero :: 'a
  assumes "ring_inv r" "0 < rb_size r"
  defines "r' \<equiv> r\<lparr>rb_buf := (rb_buf r)[rb_head r := zero], rb_head := (rb_head r + 1) mod rb_cap r, rb_size := rb_size r - 1\<rparr>"
  shows "ring_list r = (rb_buf r ! rb_head r) # ring_list r' \<and> ring_inv r'"
proof -
  let ?c = "rb_cap r" and ?h = "rb_head r" and ?n = "rb_size r"
  have t: "rb_tail r = (?h + ?n) mod ?c" "length (rb_buf r) = ?c" "0 < ?c" "?h < ?c" "?n \<le> ?c" using assms(1) by (simp_all add: ring_inv_def)
  have slot: "(rb_buf r)[?h := zero] ! ((?h + Suc i) mod ?c) = rb_buf r ! ((?h + Suc i) mod ?c)" if "i < ?n - 1" for i
  proof -
    have "(?h + 0) mod ?c \<noteq> (?h + Suc i) mod ?c" using slot_inj [of 0 ?c "Suc i" ?h] that t(5) by fastforce
    then have "?h \<noteq> (?h + Suc i) mod ?c" using t(4) by simp
    then show ?thesis by (rule nth_list_update_neq)
  qed
  obtain m where m: "?n = Suc m" using assms(2) by (cases ?n) auto
  have "ring_list r = (rb_buf r ! ?h) # map (\<lambda>i. rb_buf r ! ((?h + Suc i) mod ?c)) [0..<m]"
    unfolding ring_list_def m using t(4) by (simp add: map_upt_Suc del: upt_Suc)
  also have "map (\<lambda>i. rb_buf r ! ((?h + Suc i) mod ?c)) [0..<m] = ring_list r'"
    using slot m by (simp add: r'_def ring_list_def mod_simps)
  finally have "ring_list r = (rb_buf r ! ?h) # ring_list r'" .
  moreover have "((?h + 1) mod ?c + (?n - 1)) mod ?c = (?h + 1 + (?n - 1)) mod ?c" by (rule mod_add_left_eq)
  then have "rb_tail r = ((?h + 1) mod ?c + (?n - 1)) mod ?c" using t(1) assms(2) by simp
  then have "ring_inv r'" unfolding ring_inv_def r'_def using t by simp
  ultimately show ?thesis by blast
qed

lemma drain_loop_fields:
  "rb_size (snd (drain_loop zero n r out)) = rb_size r" "rb_cap (snd (drain_loop zero n r out)) = rb_cap r"
  "rb_closed (snd (drain_loop zero n r out)) = rb_closed r" "rb_dropped (snd (drain_loop zero n r out)) = rb_dropped r"
  by (induction zero n r out rule: drain_loop.induct) simp_all

lemma drain_loop_list:
  assumes "ring_inv r" "n \<le> rb_size r"
  shows "fst (drain_loop zero n r out) = out @ take n (ring_list r)
    \<and> ring_list ((snd (drain_loop zero n r out))\<lparr>rb_size := rb_size r - n\<rparr>) = drop n (ring_list r)
    \<and> ring_inv ((snd (drain_loop zero n r out))\<lparr>rb_size := rb_size r - n\<rparr>)"
  using assms
proof (induction n arbitrary: r out)
  case 0
  then show ?case by simp
next
  case (Suc n)
  define r1 where "r1 = r\<lparr>rb_buf := (rb_buf r)[rb_head r := zero], rb_head := Suc (rb_head r) mod rb_cap r\<rparr>"
  have one: "ring_list r = (rb_buf r ! rb_head r) # ring_list (r1\<lparr>rb_size := rb_size r - 1\<rparr>)" "ring_inv (r1\<lparr>rb_size := rb_size r - 1\<rparr>)"
    using drain_one [OF Suc.prems(1), of zero] Suc.prems(2) by (simp_all add: r1_def)
  have "n \<le> rb_size (r1\<lparr>rb_size := rb_size r - 1\<rparr>)" using Suc.prems(2) by simp
  from Suc.IH [OF one(2) this, of "out @ [rb_buf r ! rb_head r]"] one(1) show ?case
    by (simp add: r1_def [symmetric] drain_loop_size [where r = r1])
qed

definition list_drain :: "nat \<Rightarrow> bool \<Rightarrow> 'a list \<Rightarrow> ('a list \<times> bool) option \<times> 'a list" where
  "list_drain outcap closed xs =
     (if xs = [] then (if closed then Some ([], False) else None, [])
      else let n = (if outcap = 0 then length xs else outcap) in (Some (take n xs, True), drop n xs))"

lemma ring_drain_refines:
  fixes r :: "'a ringBuffer" and zero :: 'a and outcap :: nat
  assumes "ring_inv r"
  defines "r' \<equiv> snd (ring_drain zero outcap r)"
  shows "(fst (ring_drain zero outcap r), ring_list r') = list_drain outcap (rb_closed r) (ring_list r)
    \<and> ring_inv r' \<and> rb_cap r' = rb_cap r \<and> rb_closed r' = rb_closed r \<and> rb_dropped r' = rb_dropped r"
proof (cases "rb_size r = 0")
  case True
  then have "ring_list r = []" by (simp add: ring_list_def)
  with True assms show ?thesis by (simp add: ring_drain_def list_drain_def r'_def)
next
  case False
  define n where "n = min (rb_size r) (if outcap = 0 then rb_size r else outcap)"
  define d where "d = drain_loop zero n r []"
  have run: "ring_drain zero outcap r = (Some (fst d, True), (snd d)\<lparr>rb_size := rb_size r - n\<rparr>)"
    using False drain_loop_fields(1) [of zero n r "[]"]
    by (simp add: ring_drain_def n_def [symmetric] d_def Let_def case_prod_beta)
  have ne: "ring_list r \<noteq> []" using False ring_list_length [of r] by fastforce
  have "take n (ring_list r) = take (if outcap = 0 then rb_size r else outcap) (ring_list r)"
    "drop n (ring_list r) = drop (if outcap = 0 then rb_size r else outcap) (ring_list r)"
    by (simp_all add: n_def min_def)
  then show ?thesis
    using drain_loop_list [OF assms(1), of n zero "[]"] drain_loop_fields [of zero n r "[]"] ne
    by (simp add: r'_def run list_drain_def Let_def d_def n_def)
qed

section \<open>Refinement\<close>

datatype 'a ring_op = Push 'a | Drain nat | Close

definition ring_step :: "'a \<Rightarrow> 'a ring_op \<Rightarrow> 'a ringBuffer \<Rightarrow> ('a list \<times> bool) option \<times> 'a ringBuffer" where
  "ring_step zero op r =
     (case op of Push ev \<Rightarrow> (None, ring_push ev r) | Drain outcap \<Rightarrow> ring_drain zero outcap r | Close \<Rightarrow> (None, ring_close r))"

text \<open>The bounded queue: the newest events, the number of lost ones, and whether it is closed.\<close>

record 'a bounded_queue =
  bq_items :: "'a list"
  bq_cap :: nat
  bq_dropped :: nat
  bq_closed :: bool

definition queue_step :: "'a ring_op \<Rightarrow> 'a bounded_queue \<Rightarrow> ('a list \<times> bool) option \<times> 'a bounded_queue" where
  "queue_step op q =
     (case op of
        Push ev \<Rightarrow>
          (None,
           if bq_closed q then q
           else q\<lparr>bq_items := list_push (bq_cap q) ev (bq_items q),
                  bq_dropped := bq_dropped q + (Suc (length (bq_items q)) - bq_cap q)\<rparr>)
      | Drain outcap \<Rightarrow>
          (case list_drain outcap (bq_closed q) (bq_items q) of (out, rest) \<Rightarrow> (out, q\<lparr>bq_items := rest\<rparr>))
      | Close \<Rightarrow> (None, q\<lparr>bq_closed := True\<rparr>))"

definition ring_queue :: "'a ringBuffer \<Rightarrow> 'a bounded_queue" where
  "ring_queue r = \<lparr>bq_items = ring_list r, bq_cap = rb_cap r, bq_dropped = rb_dropped r, bq_closed = rb_closed r\<rparr>"

lemma ring_step_sim:
  assumes "ring_inv r"
  shows "ring_inv (snd (ring_step zero op r)) \<and>
    queue_step op (ring_queue r) = (fst (ring_step zero op r), ring_queue (snd (ring_step zero op r)))"
proof (cases op)
  case (Push ev)
  have "rb_size r \<le> rb_cap r" using assms by (simp add: ring_inv_def)
  then have d: "Suc (rb_size r) - rb_cap r = (if rb_size r = rb_cap r then 1 else 0)" by auto
  show ?thesis
  proof (cases "rb_closed r")
    case True
    with Push assms show ?thesis by (simp add: ring_step_def queue_step_def ring_queue_def ring_push_def)
  next
    case False
    with Push ring_push_refines [OF assms False, of ev] d show ?thesis
      by (simp add: ring_step_def queue_step_def ring_queue_def)
  qed
next
  case (Drain n)
  then show ?thesis
    using ring_drain_refines [OF assms, of zero n]
    by (simp add: ring_step_def queue_step_def ring_queue_def case_prod_beta prod_eq_iff)
next
  case Close
  with assms show ?thesis
    by (simp add: ring_step_def queue_step_def ring_queue_def ring_close_def ring_list_def ring_inv_def)
qed

interpretation ring: refinement ring_inv ring_queue "ring_step zero" queue_step for zero :: 'a
  using ring_step_sim [of _ zero] by unfold_locales simp_all

text \<open>
  C5: The ring is a bounded queue: over every sequence of pushes, drains and closes a new ring
  gives exactly the outputs of the queue that keeps the newest events in order, and its drop counter
  is the number of events that this queue lost.
\<close>
theorem ring_refines_queue:
  "run_ops queue_step ops \<lparr>bq_items = [], bq_cap = max 1 (nat c), bq_dropped = 0, bq_closed = False\<rparr>
     = (fst (run_ops (ring_step zero) ops (newRingBuffer zero c)), ring_queue (snd (run_ops (ring_step zero) ops (newRingBuffer zero c))))"
proof -
  have "ring_queue (newRingBuffer zero c) = \<lparr>bq_items = [], bq_cap = max 1 (nat c), bq_dropped = 0, bq_closed = False\<rparr>"
    by (simp add: ring_queue_def ring_list_def newRingBuffer_def Let_def)
  then show ?thesis using ring.run_sim [of "newRingBuffer zero c" ops zero] ring_inv_new [of zero c] by simp
qed

end
