(* ===== verification/Dispatch.thy ===== *)
theory Dispatch
  imports SipMessage "HOL-Library.Word" "HOL-Library.Sublist"
begin

text \<open>
  Routing received packets to calls, \<^verbatim>\<open>mailboxRegistry\<close> of \<^verbatim>\<open>internal/engine/engine.go\<close>.  Several
  goroutines run at once: one spreads the packets over shards by a hash of the Call-ID, one per shard parses
  and delivers, and the calls register, read and unregister their mailboxes.  The operations are split where
  another goroutine can run: between loading a mailbox and sending to it.
\<close>

unbundle bit_operations_syntax

section \<open>Shards\<close>

definition call_id_line :: "string \<Rightarrow> bool" where
  "call_id_line line \<longleftrightarrow> 9 \<le> length line \<and> line ! 0 \<in> {CHR ''C'', CHR ''c''} \<and> line ! 1 \<in> {CHR ''a'', CHR ''A''}
     \<and> line ! 2 \<in> {CHR ''l'', CHR ''L''} \<and> line ! 3 \<in> {CHR ''l'', CHR ''L''} \<and> line ! 4 = CHR ''-''
     \<and> line ! 5 \<in> {CHR ''I'', CHR ''i''} \<and> line ! 6 \<in> {CHR ''D'', CHR ''d''} \<and> line ! 7 = CHR '':''"

definition compact_line :: "string \<Rightarrow> bool" where
  "compact_line line \<longleftrightarrow> 3 \<le> length line \<and> line ! 0 \<in> {CHR ''i'', CHR ''I''} \<and> line ! 1 = CHR '':''"

text \<open>The scan stops eight bytes before the end of the packet.\<close>

fun shard_value :: "string \<Rightarrow> string option" where
  "shard_value [] = None"
| "shard_value (c # line) =
     (if length line < 8 then None
      else if c \<noteq> LF then shard_value line
      else if call_id_line line then Some (drop 8 line)
      else if compact_line line then Some (drop 2 line)
      else shard_value line)"

definition fnv1a :: "string \<Rightarrow> 32 word" where
  "fnv1a s = foldl (\<lambda>h b. (h XOR of_nat (of_char b)) * 16777619) 2166136261 s"

definition callIDShard :: "string \<Rightarrow> nat \<Rightarrow> nat" where
  "callIDShard raw n =
     (case shard_value raw of
        None \<Rightarrow> 0
      | Some v \<Rightarrow> unat (fnv1a (takeWhile (\<lambda>b. b \<noteq> CR \<and> b \<noteq> LF) v) mod of_nat n))"

section \<open>The registry\<close>

definition sipMailboxCap :: nat where "sipMailboxCap = 512"
definition shardCap :: nat where "shardCap = 4096"

datatype drop_reason = Unparsable | NoCallID | NoMailbox | MailboxFull

text \<open>
  Channels are numbered; \<open>d_boxes\<close> is the \<^verbatim>\<open>sync.Map\<close> from Call-IDs to them.  \<open>d_workers\<close> holds the message a
  worker is about to send and the channel it loaded.  \<open>d_history\<close> (all that was sent to a channel),
  \<open>d_read\<close> (what its call has read) and \<open>d_dropped\<close> record what has happened.
\<close>

record dispatcher =
  d_incoming :: "string list"
  d_shards :: "nat \<Rightarrow> string list"
  d_workers :: "nat \<Rightarrow> (nat \<times> message) option"
  d_boxes :: "string \<Rightarrow> nat option"
  d_chans :: "nat \<Rightarrow> message list"
  d_next :: nat
  d_history :: "nat \<Rightarrow> message list"
  d_read :: "nat \<Rightarrow> message list"
  d_dropped :: "(string \<times> drop_reason) list"

text \<open>With fewer than two shards the only worker reads the incoming packets itself.\<close>

definition dispatchParallel :: "string list \<Rightarrow> nat \<Rightarrow> dispatcher" where
  "dispatchParallel packets n =
     \<lparr>d_incoming = (if n < 2 then [] else packets), d_shards = (\<lambda>i. if n < 2 \<and> i = 0 then packets else []),
      d_workers = (\<lambda>_. None), d_boxes = (\<lambda>_. None), d_chans = (\<lambda>_. []), d_next = 0, d_history = (\<lambda>_. []),
      d_read = (\<lambda>_. []), d_dropped = []\<rparr>"

definition register :: "string \<Rightarrow> dispatcher \<Rightarrow> dispatcher" where
  "register callID d =
     d\<lparr>d_boxes := (d_boxes d)(NormalizeCallID callID \<mapsto> d_next d), d_chans := (d_chans d)(d_next d := []), d_next := Suc (d_next d)\<rparr>"

definition unregister :: "string \<Rightarrow> dispatcher \<Rightarrow> dispatcher" where
  "unregister callID d =
     (case d_boxes d (NormalizeCallID callID) of
        None \<Rightarrow> d
      | Some ch \<Rightarrow> d\<lparr>d_boxes := (d_boxes d)(NormalizeCallID callID := None), d_chans := (d_chans d)(ch := [])\<rparr>)"

text \<open>The first half of \<^verbatim>\<open>dispatchMessagePtr\<close> finds the mailbox; the second sends without blocking.\<close>

definition load_mailbox :: "(string \<Rightarrow> nat option) \<Rightarrow> message \<Rightarrow> (drop_reason, nat) result" where
  "load_mailbox boxes m =
     (case Header (Headers m) ''Call-ID'' of
        None \<Rightarrow> Inl NoCallID
      | Some callID \<Rightarrow> (case boxes (NormalizeCallID callID) of None \<Rightarrow> Inl NoMailbox | Some ch \<Rightarrow> Inr ch))"

definition drop_packet :: "string \<Rightarrow> drop_reason \<Rightarrow> dispatcher \<Rightarrow> dispatcher" where
  "drop_packet p why d = d\<lparr>d_dropped := d_dropped d @ [(p, why)]\<rparr>"

definition send_mailbox :: "nat \<Rightarrow> message \<Rightarrow> dispatcher \<Rightarrow> dispatcher" where
  "send_mailbox ch m d =
     (if length (d_chans d ch) < sipMailboxCap
      then d\<lparr>d_chans := (d_chans d)(ch := d_chans d ch @ [m]), d_history := (d_history d)(ch := d_history d ch @ [m])\<rparr>
      else drop_packet (Raw m) MailboxFull d)"

definition dispatchMessagePtr :: "message \<Rightarrow> dispatcher \<Rightarrow> dispatcher" where
  "dispatchMessagePtr m d =
     (case load_mailbox (d_boxes d) m of
        Inl why \<Rightarrow> drop_packet (Raw m) why d
      | Inr ch \<Rightarrow> send_mailbox ch m d)"

text \<open>A turn of \<^verbatim>\<open>dispatch\<close> up to the send: \<open>pm\<close> is the message the pool hands out.\<close>

definition dispatch_load :: "nat \<Rightarrow> message \<Rightarrow> string \<Rightarrow> dispatcher \<Rightarrow> dispatcher" where
  "dispatch_load i pm p d =
     (case ParseInto pm p of
        Inl _ \<Rightarrow> drop_packet p Unparsable d
      | Inr m \<Rightarrow>
          (case load_mailbox (d_boxes d) m of
             Inl why \<Rightarrow> drop_packet p why d
           | Inr ch \<Rightarrow> d\<lparr>d_workers := (d_workers d)(i \<mapsto> (ch, m))\<rparr>))"

section \<open>Steps\<close>

definition route :: "nat \<Rightarrow> string \<Rightarrow> nat" where
  "route n p = (if n < 2 then 0 else callIDShard p n)"

inductive dispatch_step :: "nat \<Rightarrow> dispatcher \<Rightarrow> dispatcher \<Rightarrow> bool" for n where
  spread: "d_incoming d = p # ps \<Longrightarrow> length (d_shards d (callIDShard p n)) < shardCap \<Longrightarrow>
    dispatch_step n d (d\<lparr>d_incoming := ps,
      d_shards := (d_shards d)(callIDShard p n := d_shards d (callIDShard p n) @ [p])\<rparr>)"
| load: "d_workers d i = None \<Longrightarrow> d_shards d i = p # ps \<Longrightarrow>
    dispatch_step n d (dispatch_load i pm p (d\<lparr>d_shards := (d_shards d)(i := ps)\<rparr>))"
| send: "d_workers d i = Some (ch, m) \<Longrightarrow>
    dispatch_step n d (send_mailbox ch m (d\<lparr>d_workers := (d_workers d)(i := None)\<rparr>))"
| reg: "dispatch_step n d (register callID d)"
| unreg: "dispatch_step n d (unregister callID d)"
| read: "d_chans d ch = m # ms \<Longrightarrow>
    dispatch_step n d (d\<lparr>d_chans := (d_chans d)(ch := ms), d_read := (d_read d)(ch := d_read d ch @ [m])\<rparr>)"

inductive dispatch_reachable :: "nat \<Rightarrow> string list \<Rightarrow> dispatcher \<Rightarrow> bool" for n packets where
  start: "dispatch_reachable n packets (dispatchParallel packets n)"
| step: "dispatch_reachable n packets d \<Longrightarrow> dispatch_step n d d' \<Longrightarrow> dispatch_reachable n packets d'"

section \<open>Order\<close>

text \<open>What shard \<open>s\<close> has not dealt with yet, in the order in which it will.\<close>

definition in_flight :: "nat \<Rightarrow> nat \<Rightarrow> dispatcher \<Rightarrow> string list" where
  "in_flight n s d =
     (case d_workers d s of None \<Rightarrow> [] | Some (ch, m) \<Rightarrow> [Raw m]) @ d_shards d s @ filter (\<lambda>p. route n p = s) (d_incoming d)"

text \<open>What channel \<open>ch\<close> has got and may still get through shard \<open>s\<close>.\<close>

definition trail :: "nat \<Rightarrow> nat \<Rightarrow> nat \<Rightarrow> dispatcher \<Rightarrow> string list" where
  "trail n ch s d = filter (\<lambda>p. route n p = s) (map Raw (d_history d ch)) @ in_flight n s d"

definition sharded :: "nat \<Rightarrow> dispatcher \<Rightarrow> bool" where
  "sharded n d \<longleftrightarrow> (\<forall>s. \<forall>p\<in>set (in_flight n s d). route n p = s) \<and> (n < 2 \<longrightarrow> d_incoming d = [])"

definition fifo :: "dispatcher \<Rightarrow> bool" where
  "fifo d \<longleftrightarrow> (\<forall>ch. subseq (d_read d ch @ d_chans d ch) (d_history d ch))"

lemma subseq_set: "subseq xs ys \<Longrightarrow> p \<in> set xs \<Longrightarrow> p \<in> set ys"
  by (induction rule: list_emb.induct) auto

lemma ParseInto_Raw: "ParseInto pm p = Inr m \<Longrightarrow> Raw m = p"
  unfolding ParseInto_def parseBytes_def
  by (rule parse_lines_induct) (auto simp: parse_start_line_frame parse_header_line_def split: option.splits)

lemma drop_packet_frame [simp]:
  "d_incoming (drop_packet p w d) = d_incoming d" "d_shards (drop_packet p w d) = d_shards d"
  "d_workers (drop_packet p w d) = d_workers d" "d_boxes (drop_packet p w d) = d_boxes d"
  "d_chans (drop_packet p w d) = d_chans d" "d_history (drop_packet p w d) = d_history d"
  "d_read (drop_packet p w d) = d_read d" "d_next (drop_packet p w d) = d_next d"
  by (simp_all add: drop_packet_def)

lemma in_flight_frame:
  "in_flight n s (register callID d) = in_flight n s d" "in_flight n s (unregister callID d) = in_flight n s d"
  by (simp_all add: in_flight_def register_def unregister_def split: option.split)

lemma history_frame [simp]:
  "d_history (register callID d) = d_history d" "d_history (unregister callID d) = d_history d"
  "d_incoming (register callID d) = d_incoming d" "d_incoming (unregister callID d) = d_incoming d"
  by (simp_all add: register_def unregister_def split: option.split)

lemma load_trail:
  assumes "d_workers d i = None" and "d_shards d i = p # ps"
  shows "subseq (in_flight n s (dispatch_load i pm p (d\<lparr>d_shards := (d_shards d)(i := ps)\<rparr>))) (in_flight n s d)"
    and "d_history (dispatch_load i pm p (d\<lparr>d_shards := (d_shards d)(i := ps)\<rparr>)) = d_history d"
    and "d_incoming (dispatch_load i pm p (d\<lparr>d_shards := (d_shards d)(i := ps)\<rparr>)) = d_incoming d"
  using assms by (auto simp: dispatch_load_def in_flight_def ParseInto_Raw split: sum.split)

lemma send_mailbox_frame [simp]:
  "d_incoming (send_mailbox ch m d) = d_incoming d" "d_shards (send_mailbox ch m d) = d_shards d"
  "d_workers (send_mailbox ch m d) = d_workers d"
  by (simp_all add: send_mailbox_def)

lemma send_history:
  "d_history (send_mailbox ch m d) c = d_history d c \<or> c = ch \<and> d_history (send_mailbox ch m d) c = d_history d c @ [m]"
  by (simp add: send_mailbox_def)

lemma sent_in_flight:
  assumes "d_workers d i = Some (ch, m)"
  shows "in_flight n s d = (if s = i then [Raw m] else []) @ in_flight n s (send_mailbox ch m (d\<lparr>d_workers := (d_workers d)(i := None)\<rparr>))"
  using assms by (simp add: in_flight_def)

lemma send_trail:
  assumes "d_workers d i = Some (ch, m)" and "sharded n d"
    and "d' = send_mailbox ch m (d\<lparr>d_workers := (d_workers d)(i := None)\<rparr>)"
  shows "subseq (trail n c s d') (trail n c s d)"
proof -
  have "\<forall>p\<in>set (in_flight n i d). route n p = i" using assms(2) by (simp add: sharded_def)
  then have i: "route n (Raw m) = i" by (simp add: in_flight_def assms(1))
  note f = sent_in_flight [OF assms(1), of n s, folded assms(3)]
  consider "d_history d' c = d_history d c" | "d_history d' c = d_history d c @ [m]"
    using send_history [of ch m "d\<lparr>d_workers := (d_workers d)(i := None)\<rparr>" c] assms(3) by auto
  then show ?thesis
  proof cases
    case 1
    have "subseq (in_flight n s d') (in_flight n s d)" unfolding f by (rule list_emb_append2) simp
    then show ?thesis by (simp only: trail_def 1 subseq_append')
  next
    case 2
    then have "trail n c s d' = (if s = i then trail n c s d else filter (\<lambda>p. route n p = s) (map Raw (d_history d c)) @ in_flight n s d')"
      by (simp only: trail_def f map_append filter_append list.map filter.simps i if_cancel append_assoc append.simps append_Nil2 split: if_split) blast
    then show ?thesis using f by (simp only: trail_def append_Nil subseq_order.order_refl split: if_split) simp
  qed
qed

lemma sharded_mono:
  assumes "sharded n d" and "\<And>s. subseq (in_flight n s d') (in_flight n s d)" and "d_incoming d = [] \<Longrightarrow> d_incoming d' = []"
  shows "sharded n d'"
  using assms unfolding sharded_def by (metis subseq_set)

lemma step_trail:
  assumes "dispatch_step n d d'" and "sharded n d"
  shows "sharded n d'" and "subseq (trail n c s d') (trail n c s d)"
proof -
  have "sharded n d' \<and> subseq (trail n c s d') (trail n c s d)" for c s
    using assms(1)
  proof cases
    case (spread p ps)
    then have "\<not> n < 2" using assms(2) by (auto simp: sharded_def)
    then have "in_flight n s d' = in_flight n s d" for s unfolding spread(1) by (simp add: in_flight_def route_def spread(2))
    moreover have "d_incoming d = [] \<Longrightarrow> d_incoming d' = []" using spread by simp
    moreover have "d_history d' = d_history d" using spread by simp
    ultimately show ?thesis using sharded_mono [OF assms(2), of d'] by (simp add: trail_def)
  next
    case (load i p ps pm)
    note t = load_trail [OF load(2,3), where pm = pm, folded load(1)]
    show ?thesis using sharded_mono [OF assms(2) t(1)] t by (simp add: trail_def subseq_append')
  next
    case (send i ch m)
    have "subseq (in_flight n s d') (in_flight n s d)" for s
      unfolding send(1) sent_in_flight [OF send(2)] by (rule list_emb_append2) simp
    from sharded_mono [OF assms(2) this] send_trail [OF send(2) assms(2) send(1)] show ?thesis by (simp add: send(1))
  next
    case (reg callID)
    have f: "in_flight n s d' = in_flight n s d" for s unfolding reg by (rule in_flight_frame)
    have "d_history d' = d_history d" "d_incoming d' = d_incoming d" unfolding reg by simp_all
    then show ?thesis using sharded_mono [OF assms(2), of d'] by (simp add: f trail_def)
  next
    case (unreg callID)
    have f: "in_flight n s d' = in_flight n s d" for s unfolding unreg by (rule in_flight_frame)
    have "d_history d' = d_history d" "d_incoming d' = d_incoming d" unfolding unreg by simp_all
    then show ?thesis using sharded_mono [OF assms(2), of d'] by (simp add: f trail_def)
  next
    case (read ch m ms)
    have f: "in_flight n s d' = in_flight n s d" for s unfolding read by (simp add: in_flight_def)
    have "d_history d' = d_history d" "d_incoming d' = d_incoming d" unfolding read by simp_all
    then show ?thesis using sharded_mono [OF assms(2), of d'] by (simp add: f trail_def)
  qed
  then show "sharded n d'" and "subseq (trail n c s d') (trail n c s d)" by blast+
qed

text \<open>A channel is first in, first out, and no message is sent on a channel before it is made.\<close>

definition fresh :: "dispatcher \<Rightarrow> bool" where
  "fresh d \<longleftrightarrow> (\<forall>ch\<ge>d_next d. d_history d ch = [] \<and> d_read d ch = [] \<and> d_chans d ch = [])
     \<and> (\<forall>k ch. d_boxes d k = Some ch \<longrightarrow> ch < d_next d) \<and> (\<forall>i ch m. d_workers d i = Some (ch, m) \<longrightarrow> ch < d_next d)"

lemma load_mailbox_fresh: "load_mailbox (d_boxes d) m = Inr ch \<Longrightarrow> \<exists>k. d_boxes d k = Some ch"
  by (auto simp: load_mailbox_def split: option.splits)

lemma step_fresh:
  assumes "dispatch_step n d d'" and "fresh d"
  shows "fresh d'"
  using assms(1)
proof cases
  case (load i p ps pm)
  from assms(2) show ?thesis unfolding load
    by (auto simp: fresh_def dispatch_load_def drop_packet_def split: sum.split dest: load_mailbox_fresh)
next
  case (send i ch m)
  from assms(2) send(2) have "ch < d_next d" unfolding fresh_def by blast
  with assms(2) show ?thesis unfolding send by (auto simp: fresh_def send_mailbox_def drop_packet_def)
qed (use assms(2) in \<open>auto simp: fresh_def send_mailbox_def drop_packet_def register_def unregister_def less_Suc_eq split: option.split\<close>)

lemma step_fifo:
  assumes "dispatch_step n d d'" and "fresh d" and "fifo d"
  shows "fifo d'"
  using assms(1)
proof cases
  case (load i p ps pm)
  from assms(3) show ?thesis unfolding load by (simp add: fifo_def dispatch_load_def drop_packet_def split: sum.split)
next
  case (send i ch m)
  from assms(3) show ?thesis unfolding send
    by (simp add: fifo_def send_mailbox_def flip: append_assoc)
next
  case (read ch m ms)
  have "subseq (d_read d ch @ m # ms) (d_history d ch)" using assms(3) read(2) unfolding fifo_def by metis
  with assms(3) show ?thesis unfolding read by (simp add: fifo_def)
next
  case (unreg callID)
  have "subseq (d_read d ch) (d_history d ch)" for ch
    using assms(3) unfolding fifo_def by (metis list_emb_append2 subseq_order.order_trans subseq_order.order_refl prefix_imp_subseq prefixI)
  with assms(3) show ?thesis unfolding unreg fifo_def unregister_def by (simp split: option.split)
qed (use assms(2,3) in \<open>auto simp: fifo_def fresh_def register_def\<close>)

lemma dispatch_start:
  "sharded n (dispatchParallel packets n)" "fresh (dispatchParallel packets n)" "fifo (dispatchParallel packets n)"
  "trail n ch s (dispatchParallel packets n) = filter (\<lambda>p. route n p = s) packets"
  by (auto simp: dispatchParallel_def sharded_def fresh_def fifo_def trail_def in_flight_def route_def split: if_splits)

lemma reachable_order:
  assumes "dispatch_reachable n packets d"
  shows "sharded n d \<and> fresh d \<and> fifo d \<and> (\<forall>ch s. subseq (trail n ch s d) (filter (\<lambda>p. route n p = s) packets))"
  using assms
proof (induction rule: dispatch_reachable.induct)
  case start
  show ?case by (simp add: dispatch_start)
next
  case (step d d')
  then show ?case using step_trail [OF step.hyps(2)] step_fresh [OF step.hyps(2)] step_fifo [OF step.hyps(2)]
    by (meson subseq_order.order_trans)
qed

text \<open>
  C8: The messages of a call are read in the order in which their packets arrived, none of them
  twice, in every interleaving of the workers with the calls, provided that the packets delivered to
  its mailbox hash to one shard.
\<close>
theorem dispatch_in_order:
  assumes "dispatch_reachable n packets d" and "\<forall>m\<in>set (d_history d ch). route n (Raw m) = s"
  shows "subseq (map Raw (d_read d ch @ d_chans d ch)) packets"
proof -
  note r = reachable_order [OF assms(1)]
  from r have "subseq (d_read d ch @ d_chans d ch) (d_history d ch)" by (simp add: fifo_def)
  then have "subseq (map Raw (d_read d ch @ d_chans d ch)) (map Raw (d_history d ch))" by (rule subseq_map)
  also from assms(2) have "map Raw (d_history d ch) = filter (\<lambda>p. route n p = s) (map Raw (d_history d ch))"
    by (simp add: filter_id_conv)
  also have "subseq \<dots> (trail n ch s d)" unfolding trail_def by (simp add: prefix_imp_subseq)
  also from r have "subseq \<dots> (filter (\<lambda>p. route n p = s) packets)" by blast
  also have "subseq \<dots> packets" by (rule subseq_filter_left)
  finally show ?thesis .
qed

text \<open>An INVITE and its retransmission: the call has read the first, the second is still in its shard.\<close>

lemma sample_dispatch:
  "\<exists>d. dispatch_reachable 4 [sample_invite, sample_invite] d \<and> d_history d 0 = [sample_request] \<and> d_read d 0 = [sample_request]
     \<and> d_chans d 0 = []"
proof -
  let ?R = "dispatch_reachable 4 [sample_invite, sample_invite]" and ?k = "callIDShard sample_invite 4"
  define d1 where "d1 = register ''1-2@h'' (dispatchParallel [sample_invite, sample_invite] 4)"
  define d2 where "d2 = d1\<lparr>d_incoming := [sample_invite], d_shards := (d_shards d1)(?k := d_shards d1 ?k @ [sample_invite])\<rparr>"
  define d3 where "d3 = dispatch_load ?k sample_request sample_invite (d2\<lparr>d_shards := (d_shards d2)(?k := [])\<rparr>)"
  define d4 where "d4 = send_mailbox 0 sample_request (d3\<lparr>d_workers := (d_workers d3)(?k := None)\<rparr>)"
  define d5 where "d5 = d4\<lparr>d_chans := (d_chans d4)(0 := []), d_read := (d_read d4)(0 := d_read d4 0 @ [sample_request])\<rparr>"
  have norm: "NormalizeCallID ''1-2@h'' = ''1-2@h''" and hdr: "Header (Headers sample_request) ''Call-ID'' = Some ''1-2@h''" by code_simp+
  have "?R d1" unfolding d1_def by (rule dispatch_reachable.step [OF start reg])
  moreover have "dispatch_step 4 d1 d2"
    unfolding d2_def by (rule spread) (simp_all add: d1_def register_def dispatchParallel_def shardCap_def)
  ultimately have "?R d2" by (rule dispatch_reachable.step)
  moreover have "dispatch_step 4 d2 d3"
    unfolding d3_def by (rule load) (simp_all add: d2_def d1_def register_def dispatchParallel_def)
  ultimately have "?R d3" by (rule dispatch_reachable.step)
  have box: "load_mailbox (d_boxes d2) sample_request = Inr 0"
    by (simp add: load_mailbox_def hdr norm d2_def d1_def register_def dispatchParallel_def)
  have w: "d_workers d3 ?k = Some (0, sample_request)" "d_chans d3 0 = []" "d_read d3 0 = []" "d_history d3 0 = []"
    by (simp_all add: d3_def dispatch_load_def ParseInto_sample box) (simp_all add: d2_def d1_def register_def dispatchParallel_def)
  have "dispatch_step 4 d3 d4" unfolding d4_def by (rule send) (rule w(1))
  with \<open>?R d3\<close> have "?R d4" by (rule dispatch_reachable.step)
  have c: "d_chans d4 0 = [sample_request]" "d_history d4 0 = [sample_request]" "d_read d4 0 = []"
    by (simp_all add: d4_def send_mailbox_def w sipMailboxCap_def)
  have "dispatch_step 4 d4 d5" unfolding d5_def by (rule read) (rule c(1))
  with \<open>?R d4\<close> have "?R d5" by (rule dispatch_reachable.step)
  then show ?thesis by (intro exI [of _ d5]) (simp add: d5_def c)
qed

theorem dispatch_in_order_witness:
  "\<exists>d. dispatch_reachable 4 [sample_invite, sample_invite] d \<and> d_read d 0 = [sample_request]
     \<and> subseq (map Raw (d_read d 0 @ d_chans d 0)) [sample_invite, sample_invite]"
proof -
  obtain d where d: "dispatch_reachable 4 [sample_invite, sample_invite] d" "d_history d 0 = [sample_request]"
    "d_read d 0 = [sample_request]" using sample_dispatch by blast
  then show ?thesis using dispatch_in_order [OF d(1), of 0 "route 4 (Raw sample_request)"] by auto
qed

text \<open>
  The hash covers the bytes after the colon, so two spellings of one Call-ID are different to it: these lines
  of one call go to different shards, and their order is then left to the scheduler.
\<close>

lemma callIDShard_spelling:
  "NormalizeCallID '' a1'' = NormalizeCallID ''a1''"
  "callIDShard (''OPTIONS sip:h SIP/2.0'' @ CRLF @ ''Call-ID: a1'' @ CRLF @ CRLF) 4
     \<noteq> callIDShard (''OPTIONS sip:h SIP/2.0'' @ CRLF @ ''Call-ID:a1'' @ CRLF @ CRLF) 4"
  by code_simp+

end
