(* ===== verification/Hep.thy ===== *)
theory Hep
  imports Bytes
begin

text \<open>
  The HEP version 3 codec, \<^verbatim>\<open>hepcodec/codec.go\<close>: a packet is a header with its length and a sequence of
  typed chunks.  An address is its bytes, as in \<^verbatim>\<open>net.IP\<close>; resolving a host name is a parameter, and so is
  the clock that stands in for a zero time.
\<close>

section \<open>Addresses\<close>

definition v4_prefix :: string where
  "v4_prefix = replicate 10 (char_of (0 :: nat)) @ [CHR 0xFF, CHR 0xFF]"

definition To4 :: "string \<Rightarrow> string option" where
  "To4 ip =
     (if length ip = 4 then Some ip
      else if length ip = 16 \<and> take 12 ip = v4_prefix then Some (drop 12 ip)
      else None)"

definition To16 :: "string \<Rightarrow> string option" where
  "To16 ip =
     (if length ip = 4 then Some (v4_prefix @ ip)
      else if length ip = 16 then Some ip
      else None)"

text \<open>A nil slice is written as no bytes.\<close>

definition bytes_or_nil :: "string option \<Rightarrow> string" where
  "bytes_or_nil ip = (case ip of None \<Rightarrow> [] | Some b \<Rightarrow> b)"

section \<open>Encoding\<close>

datatype hep_error =
    BadSrcIP | BadDstIP | BadSrcPort int | BadDstPort int | TooLarge int
  | TooShort | BadHeader | BadLength | ShortChunk | BadChunkLength

record hep_message =
  hm_Time :: "(int \<times> int) option"
  hm_SrcIP :: string
  hm_DstIP :: string
  hm_SrcPort :: int
  hm_DstPort :: int
  hm_IPProtocol :: nat
  hm_ProtoType :: nat
  hm_CaptureID :: nat
  hm_AuthKey :: string
  hm_CorrelationID :: string
  hm_Payload :: string

definition IPFamilyIPv4 :: nat where "IPFamilyIPv4 = 2"
definition IPFamilyIPv6 :: nat where "IPFamilyIPv6 = 10"

definition writeChunkBytes :: "nat \<Rightarrow> string \<Rightarrow> string" where
  "writeChunkBytes chunkType payload =
     be_bytes 2 0 @ be_bytes 2 chunkType @ be_bytes 2 (length payload + 6) @ payload"

definition writeChunkUint8 :: "nat \<Rightarrow> nat \<Rightarrow> string" where
  "writeChunkUint8 chunkType v = writeChunkBytes chunkType (be_bytes 1 v)"

definition writeChunkUint16 :: "nat \<Rightarrow> nat \<Rightarrow> string" where
  "writeChunkUint16 chunkType v = writeChunkBytes chunkType (be_bytes 2 v)"

definition writeChunkUint32 :: "nat \<Rightarrow> nat \<Rightarrow> string" where
  "writeChunkUint32 chunkType v = writeChunkBytes chunkType (be_bytes 4 v)"

text \<open>\<open>resolve\<close> is \<^verbatim>\<open>net.ParseIP\<close> followed by \<^verbatim>\<open>net.ResolveIPAddr\<close>.\<close>

definition hep_parseIP :: "(string \<Rightarrow> string option) \<Rightarrow> string \<Rightarrow> (string \<times> nat) option" where
  "hep_parseIP resolve raw =
     (case resolve raw of
        None \<Rightarrow> None
      | Some ip \<Rightarrow>
          (case To4 ip of
             Some v4 \<Rightarrow> Some (v4, IPFamilyIPv4)
           | None \<Rightarrow> (case To16 ip of Some v6 \<Rightarrow> Some (v6, IPFamilyIPv6) | None \<Rightarrow> None)))"

text \<open>The conversions to \<^verbatim>\<open>uint32\<close> keep the low bits.\<close>

definition hep_chunks :: "hep_message \<Rightarrow> nat \<Rightarrow> string \<Rightarrow> string \<Rightarrow> int \<times> int \<Rightarrow> string" where
  "hep_chunks msg family srcIP dstIP time =
     writeChunkUint8 1 family @ writeChunkUint8 2 (hm_IPProtocol msg)
     @ (if family = IPFamilyIPv6
        then writeChunkBytes 5 (bytes_or_nil (To16 srcIP)) @ writeChunkBytes 6 (bytes_or_nil (To16 dstIP))
        else writeChunkBytes 3 (bytes_or_nil (To4 srcIP)) @ writeChunkBytes 4 (bytes_or_nil (To4 dstIP)))
     @ writeChunkUint16 7 (nat (hm_SrcPort msg)) @ writeChunkUint16 8 (nat (hm_DstPort msg))
     @ writeChunkUint32 9 (nat (fst time mod 2 ^ 32)) @ writeChunkUint32 10 (nat (snd time div 1000 mod 2 ^ 32))
     @ writeChunkUint8 11 (hm_ProtoType msg) @ writeChunkUint32 12 (hm_CaptureID msg)
     @ (if hm_AuthKey msg \<noteq> [] then writeChunkBytes 14 (hm_AuthKey msg) else [])
     @ (if hm_CorrelationID msg \<noteq> [] then writeChunkBytes 17 (hm_CorrelationID msg) else [])
     @ writeChunkBytes 15 (hm_Payload msg)"

definition Encode :: "(string \<Rightarrow> string option) \<Rightarrow> int \<times> int \<Rightarrow> hep_message \<Rightarrow> (hep_error, string) result" where
  "Encode resolve now msg =
     (case hep_parseIP resolve (hm_SrcIP msg) of
        None \<Rightarrow> Inl BadSrcIP
      | Some (srcIP, family) \<Rightarrow>
          (case hep_parseIP resolve (hm_DstIP msg) of
             None \<Rightarrow> Inl BadDstIP
           | Some (dstIP, dstFamily) \<Rightarrow>
               if hm_SrcPort msg < 0 \<or> 65535 < hm_SrcPort msg then Inl (BadSrcPort (hm_SrcPort msg))
               else if hm_DstPort msg < 0 \<or> 65535 < hm_DstPort msg then Inl (BadDstPort (hm_DstPort msg))
               else
                 let time = (case hm_Time msg of None \<Rightarrow> now | Some t \<Rightarrow> t);
                     chunks = hep_chunks msg family srcIP dstIP time;
                     totalLen = 6 + length chunks
                 in if 65535 < totalLen then Inl (TooLarge (int totalLen))
                    else Inr (''HEP3'' @ be_bytes 2 totalLen @ chunks)))"

definition TransportProtocol :: "string \<Rightarrow> nat" where
  "TransportProtocol transport =
     (if transport \<in> {''t1'', ''tn'', ''l1'', ''ln'', ''TCP'', ''tcp'', ''TLS'', ''tls''} then 6 else 17)"

section \<open>Decoding\<close>

record hep_decoded =
  hd_IPFamily :: nat
  hd_IPProtocol :: nat
  hd_SrcIP :: string
  hd_DstIP :: string
  hd_SrcPort :: nat
  hd_DstPort :: nat
  hd_Sec :: nat
  hd_Usec :: nat
  hd_ProtoType :: nat
  hd_CaptureID :: nat
  hd_AuthKey :: string
  hd_CorrelationID :: string
  hd_Payload :: string

definition no_hep :: hep_decoded where
  "no_hep = \<lparr>hd_IPFamily = 0, hd_IPProtocol = 0, hd_SrcIP = [], hd_DstIP = [], hd_SrcPort = 0, hd_DstPort = 0, hd_Sec = 0,
     hd_Usec = 0, hd_ProtoType = 0, hd_CaptureID = 0, hd_AuthKey = [], hd_CorrelationID = [], hd_Payload = []\<rparr>"

definition decode_chunk :: "nat \<Rightarrow> string \<Rightarrow> hep_decoded \<Rightarrow> hep_decoded" where
  "decode_chunk chunkType payload out =
     (if chunkType = 1 then (if length payload = 1 then out\<lparr>hd_IPFamily := be_value payload\<rparr> else out)
      else if chunkType = 2 then (if length payload = 1 then out\<lparr>hd_IPProtocol := be_value payload\<rparr> else out)
      else if chunkType = 3 \<or> chunkType = 5 then out\<lparr>hd_SrcIP := payload\<rparr>
      else if chunkType = 4 \<or> chunkType = 6 then out\<lparr>hd_DstIP := payload\<rparr>
      else if chunkType = 7 then (if length payload = 2 then out\<lparr>hd_SrcPort := be_value payload\<rparr> else out)
      else if chunkType = 8 then (if length payload = 2 then out\<lparr>hd_DstPort := be_value payload\<rparr> else out)
      else if chunkType = 9 then (if length payload = 4 then out\<lparr>hd_Sec := be_value payload\<rparr> else out)
      else if chunkType = 10 then (if length payload = 4 then out\<lparr>hd_Usec := be_value payload\<rparr> else out)
      else if chunkType = 11 then (if length payload = 1 then out\<lparr>hd_ProtoType := be_value payload\<rparr> else out)
      else if chunkType = 12 then (if length payload = 4 then out\<lparr>hd_CaptureID := be_value payload\<rparr> else out)
      else if chunkType = 14 then out\<lparr>hd_AuthKey := payload\<rparr>
      else if chunkType = 17 then out\<lparr>hd_CorrelationID := payload\<rparr>
      else if chunkType = 15 then out\<lparr>hd_Payload := payload\<rparr>
      else out)"

text \<open>\<open>rest\<close> is \<^verbatim>\<open>packet[offset:]\<close>.\<close>

function decode_chunks :: "string \<Rightarrow> hep_decoded \<Rightarrow> (hep_error, hep_decoded) result" where
  "decode_chunks rest out =
     (if rest = [] then Inr out
      else if length rest < 6 then Inl ShortChunk
      else
        let chunkType = be_value (take 2 (drop 2 rest));
            chunkLen = be_value (take 2 (drop 4 rest))
        in if chunkLen < 6 \<or> length rest < chunkLen then Inl BadChunkLength
           else decode_chunks (drop chunkLen rest) (decode_chunk chunkType (take (chunkLen - 6) (drop 6 rest)) out))"
  by pat_completeness auto
termination by (relation "measure (\<lambda>(rest, out). length rest)") auto

declare decode_chunks.simps [simp del]

text \<open>The time of the result is \<open>hd_Sec\<close> seconds and \<open>hd_Usec\<close> microseconds.\<close>

definition Decode :: "string \<Rightarrow> (hep_error, hep_decoded) result" where
  "Decode packet =
     (if length packet < 6 then Inl TooShort
      else if take 4 packet \<noteq> ''HEP3'' then Inl BadHeader
      else if be_value (take 2 (drop 4 packet)) \<noteq> length packet then Inl BadLength
      else decode_chunks (drop 6 packet) no_hep)"

section \<open>Round trip\<close>

lemma decode_written:
  assumes "length payload + 6 < 65536" and "t < 65536"
  shows "decode_chunks (writeChunkBytes t payload @ rest) out = decode_chunks rest (decode_chunk t payload out)"
proof -
  define s where "s = writeChunkBytes t payload @ rest"
  have w: "s = be_bytes 2 0 @ be_bytes 2 t @ be_bytes 2 (length payload + 6) @ payload @ rest"
    by (simp add: s_def writeChunkBytes_def)
  have two: "take 2 (be_bytes 2 n @ s) = be_bytes 2 n" "drop 2 (be_bytes 2 n @ s) = s" for n s by simp_all
  have d: "drop 2 s = be_bytes 2 t @ be_bytes 2 (length payload + 6) @ payload @ rest" unfolding w by (rule two)
  have d4: "drop 4 s = be_bytes 2 (length payload + 6) @ payload @ rest"
    using arg_cong [OF d, of "drop 2"] unfolding two drop_drop by simp
  have d6: "drop 6 s = payload @ rest"
    using arg_cong [OF d4, of "drop 2"] unfolding two drop_drop by simp
  have len: "length s = length payload + 6 + length rest" by (simp add: w)
  have "drop (length payload + 6) s = drop (length payload) (drop 6 s)" by (simp only: drop_drop)
  then have dn: "drop (length payload + 6) s = rest" by (simp add: d6)
  have vals: "be_value (take 2 (drop 2 s)) = t" "be_value (take 2 (drop 4 s)) = length payload + 6"
    unfolding d d4 two using assms by (simp_all add: be_value_bytes)
  have ne: "s \<noteq> []" "\<not> length s < 6" using len by auto
  have "decode_chunks s out = decode_chunks rest (decode_chunk t payload out)"
    using ne by (subst decode_chunks.simps) (simp add: vals len dn d6 Let_def)
  then show ?thesis by (simp add: s_def)
qed

lemma decode_end: "decode_chunks [] out = Inr out"
  by (simp add: decode_chunks.simps)

lemma byte_payloads: "v < 256 ^ w \<Longrightarrow> be_value (be_bytes w v) = v"
  by (simp add: be_value_bytes)

text \<open>The widths of the integer fields.\<close>

definition hep_ok :: "hep_message \<Rightarrow> bool" where
  "hep_ok msg \<longleftrightarrow> hm_IPProtocol msg < 256 \<and> hm_ProtoType msg < 256 \<and> hm_CaptureID msg < 2 ^ 32"

lemma parseIP_family:
  assumes "hep_parseIP resolve raw = Some (ip, family)"
  shows "family = IPFamilyIPv4 \<and> To4 ip = Some ip \<and> length ip = 4 \<or> family = IPFamilyIPv6 \<and> To16 ip = Some ip \<and> length ip = 16"
  using assms by (auto simp: hep_parseIP_def To4_def To16_def split: option.splits if_splits)

lemma decode_addresses:
  assumes "family = IPFamilyIPv4 \<and> To4 src = Some src \<and> length src = 4 \<or> family = IPFamilyIPv6 \<and> To16 src = Some src \<and> length src = 16"
    and "family = IPFamilyIPv4 \<and> To4 dst = Some dst \<and> length dst = 4 \<or> family = IPFamilyIPv6 \<and> To16 dst = Some dst \<and> length dst = 16"
  shows "decode_chunks ((if family = IPFamilyIPv6
        then writeChunkBytes 5 (bytes_or_nil (To16 src)) @ writeChunkBytes 6 (bytes_or_nil (To16 dst))
        else writeChunkBytes 3 (bytes_or_nil (To4 src)) @ writeChunkBytes 4 (bytes_or_nil (To4 dst))) @ rest) out
     = decode_chunks rest (out\<lparr>hd_SrcIP := src, hd_DstIP := dst\<rparr>)"
  using assms by (auto simp: bytes_or_nil_def decode_written decode_chunk_def IPFamilyIPv4_def IPFamilyIPv6_def)

lemma decode_optional:
  assumes "length x + 6 < 65536" and "t < 65536" and "x = [] \<Longrightarrow> decode_chunk t x out = out"
  shows "decode_chunks ((if x \<noteq> [] then writeChunkBytes t x else []) @ rest) out = decode_chunks rest (decode_chunk t x out)"
  using assms by (simp add: decode_written)


definition sample_hep :: hep_message where
  "sample_hep = \<lparr>hm_Time = Some (1700000000, 5000999), hm_SrcIP = ''10.0.0.1'', hm_DstIP = ''10.0.0.2'', hm_SrcPort = 5060,
     hm_DstPort = 5080, hm_IPProtocol = 17, hm_ProtoType = 1, hm_CaptureID = 2001, hm_AuthKey = [],
     hm_CorrelationID = ''id-7'', hm_Payload = ''BYE''\<rparr>"

definition sample_resolve :: "string \<Rightarrow> string option" where
  "sample_resolve raw =
     (if raw = ''10.0.0.1'' then Some [CHR 0x0A, CHR 0x00, CHR 0x00, CHR 0x01]
      else if raw = ''10.0.0.2'' then Some [CHR 0x0A, CHR 0x00, CHR 0x00, CHR 0x02] else None)"

lemma sample_hep_encodes: "\<exists>packet. Encode sample_resolve (0, 0) sample_hep = Inr packet"
  by (simp add: Encode_def sample_hep_def sample_resolve_def hep_parseIP_def To4_def Let_def hep_chunks_def
      writeChunkBytes_def writeChunkUint8_def writeChunkUint16_def writeChunkUint32_def IPFamilyIPv4_def IPFamilyIPv6_def
      bytes_or_nil_def)


end
