(* ===== verification/Server.thy ===== *)
theory Server
  imports Dispatch Scenario Hep
begin

text \<open>
  The server side of \<^verbatim>\<open>internal/engine/engine.go\<close>: the receive pumps of the UDP listeners
  (\<^verbatim>\<open>udpServerReceivePump\<close>, \<^verbatim>\<open>runServerPerSourceIP\<close>) and of the shared TCP listeners
  (\<^verbatim>\<open>runServerTCPSharedOn\<close>), which number, limit and end calls through one \<^verbatim>\<open>serverMultiCoordinator\<close>.
  Pumps and calls run concurrently; a step is what happens under a mutex or one channel operation.
\<close>

section \<open>Limits and live settings\<close>

record server_config =
  sc_UnlimitedCalls :: bool
  sc_TotalCalls :: int
  sc_regexp :: "string \<Rightarrow> string \<Rightarrow> bool"

definition serverRejectNew :: "server_config \<Rightarrow> int \<Rightarrow> bool" where
  "serverRejectNew cfg currentCount \<longleftrightarrow> \<not> sc_UnlimitedCalls cfg \<and> sc_TotalCalls cfg \<le> currentCount"

definition serverFinishedAll :: "server_config \<Rightarrow> int \<Rightarrow> bool" where
  "serverFinishedAll cfg finished \<longleftrightarrow> \<not> sc_UnlimitedCalls cfg \<and> sc_TotalCalls cfg \<le> finished"

fun first_index :: "('a \<Rightarrow> bool) \<Rightarrow> int \<Rightarrow> 'a list \<Rightarrow> int" where
  "first_index P i [] = - 1"
| "first_index P i (x # xs) = (if P x then i else first_index P (i + 1) xs)"

definition firstReceiveIndex :: "Scenario \<Rightarrow> int" where
  "firstReceiveIndex sc = first_index (\<lambda>cmd. c_Type cmd = CommandRecv) 0 (s_Commands sc)"

definition snapshotLiveFirstRecvCommand :: "Scenario \<Rightarrow> Command option" where
  "snapshotLiveFirstRecvCommand sc =
     (let i = firstReceiveIndex sc
      in if i < 0 \<or> int (length (s_Commands sc)) \<le> i then None
         else let cmd = s_Commands sc ! nat i in if c_Type cmd \<noteq> CommandRecv then None else Some cmd)"

definition listenerAcceptNew :: "bool list \<Rightarrow> nat \<Rightarrow> bool" where
  "listenerAcceptNew accept idx \<longleftrightarrow> (if length accept \<le> idx then True else accept ! idx)"

definition matches_first :: "server_config \<Rightarrow> Command \<Rightarrow> message \<Rightarrow> bool" where
  "matches_first cfg cmd m =
     (case (if c_RegexpMatch cmd then c_RecvReqRegex cmd else None) of
        Some re \<Rightarrow> sc_regexp cfg re (StartLine m)
      | None \<Rightarrow> Match empty_message m (c_RecvReq cmd) (c_RecvResp cmd))"

text \<open>
  The address that responses go to: the sent-by of the topmost Via when it is not the source of the packet.
  \<^verbatim>\<open>net.ParseIP\<close> and the first address of \<^verbatim>\<open>net.LookupHost\<close> are parameters, addresses are their bytes.
\<close>

definition ip_Equal :: "string \<Rightarrow> string \<Rightarrow> bool" where
  "ip_Equal a b \<longleftrightarrow>
     (if length a = length b then a = b else if length a = 4 \<and> length b = 16 then b = v4_prefix @ a
      else if length a = 16 \<and> length b = 4 then a = v4_prefix @ b else False)"

definition resolveResponseAddr ::
  "(string \<Rightarrow> string option) \<Rightarrow> (string \<Rightarrow> string option) \<Rightarrow> message \<Rightarrow> string \<times> int \<Rightarrow> (string \<times> int) option" where
  "resolveResponseAddr parse_ip lookup_host msg packetAddr =
     (case ViaSentBy (Headers msg) of
        None \<Rightarrow> None
      | Some (host, port) \<Rightarrow>
          (case (case parse_ip host of
                   Some ip \<Rightarrow> Some ip
                 | None \<Rightarrow> (case lookup_host host of None \<Rightarrow> None | Some first \<Rightarrow> parse_ip first)) of
             None \<Rightarrow> None
           | Some viaIP \<Rightarrow> if ip_Equal viaIP (fst packetAddr) then None else Some (viaIP, port)))"

section \<open>State\<close>

text \<open>
  A call is known by its number.  \<open>Reserved\<close> has a number and no session yet; \<open>Starting\<close> is a UDP call whose
  goroutine has not put the first message into the inbox; \<open>Running\<close> executes the scenario; a TCP call that is
  \<open>Leaving\<close> has deleted its session and is not counted as finished yet.  A pump that has
  reserved a number is \<open>Inserting\<close> it; one that has found a session is \<open>Offering\<close> the message to it.  The key of
  a session is its map and its Call-ID: the UDP listeners share map 0, TCP listener \<open>l\<close> has map \<open>Suc l\<close>.
\<close>

datatype phase = Reserved | Starting message | Running | Leaving | Ended
datatype pump = PumpIdle | Inserting nat string message | Offering nat message
datatype listener = UDP | UDPPerSource | TCPShared

record server =
  sv_accept :: "bool list"
  sv_live :: Scenario
  sv_sessions :: "nat \<times> string \<Rightarrow> nat option"
  sv_accepted :: nat
  sv_finished :: nat
  sv_done :: bool
  sv_calls :: "nat \<Rightarrow> ((nat \<times> string) \<times> phase) option"
  sv_inbox :: "nat \<Rightarrow> message list"
  sv_socket :: "nat \<Rightarrow> nat"
  sv_remote :: "nat \<Rightarrow> string \<times> int"
  sv_pump :: "nat \<Rightarrow> pump"
  sv_put :: "message list"

definition newServerMultiCoordinator :: "bool list \<Rightarrow> Scenario \<Rightarrow> server" where
  "newServerMultiCoordinator accept sc =
     \<lparr>sv_accept = accept, sv_live = sc, sv_sessions = (\<lambda>_. None), sv_accepted = 0, sv_finished = 0, sv_done = False,
      sv_calls = (\<lambda>_. None), sv_inbox = (\<lambda>_. []), sv_socket = (\<lambda>_. 0), sv_remote = (\<lambda>_. ([], 0)), sv_pump = (\<lambda>_. PumpIdle),
      sv_put = []\<rparr>"

definition put_back :: "message \<Rightarrow> server \<Rightarrow> server" where
  "put_back m st = st\<lparr>sv_put := sv_put st @ [m]\<rparr>"

section \<open>Operations\<close>

definition finishCallUnlocked :: "server_config \<Rightarrow> server \<Rightarrow> server" where
  "finishCallUnlocked cfg st =
     (let finished = Suc (sv_finished st)
      in st\<lparr>sv_finished := finished, sv_done := sv_done st \<or> serverFinishedAll cfg (int finished)\<rparr>)"

definition reserveCallSlot :: "server_config \<Rightarrow> server \<Rightarrow> (nat \<times> server) option" where
  "reserveCallSlot cfg st =
     (if serverRejectNew cfg (int (sv_accepted st)) then None
      else let n = Suc (sv_accepted st) in Some (n, st\<lparr>sv_accepted := n\<rparr>))"

definition refundReservedSlot :: "server \<Rightarrow> server" where
  "refundReservedSlot st = (if 0 < sv_accepted st then st\<lparr>sv_accepted := sv_accepted st - 1\<rparr> else st)"

text \<open>A message of an unknown Call-ID may start a call: the tests of the pumps, in their order.\<close>

definition may_start :: "server_config \<Rightarrow> nat \<Rightarrow> message \<Rightarrow> server \<Rightarrow> bool" where
  "may_start cfg l m st =
     (if \<not> listenerAcceptNew (sv_accept st) l then False
      else (case snapshotLiveFirstRecvCommand (sv_live st) of None \<Rightarrow> False | Some firstCmd \<Rightarrow> matches_first cfg firstCmd m))"

definition start_udp_call :: "string \<Rightarrow> nat \<Rightarrow> string \<times> int \<Rightarrow> message \<Rightarrow> server \<Rightarrow> server" where
  "start_udp_call callID sock remote m st =
     (let n = Suc (sv_accepted st)
      in st\<lparr>sv_accepted := n, sv_sessions := (sv_sessions st)((0, callID) \<mapsto> n), sv_calls := (sv_calls st)(n \<mapsto> ((0, callID), Starting m)),
            sv_socket := (sv_socket st)(n := sock), sv_remote := (sv_remote st)(n := remote)\<rparr>)"

text \<open>\<open>via\<close> is the answer of \<^verbatim>\<open>resolveResponseAddr\<close>; \<open>l\<close> is the pump's index, \<open>sock\<close> the socket the packet came in on.\<close>

definition udp_message ::
  "server_config \<Rightarrow> listener \<Rightarrow> nat \<Rightarrow> nat \<Rightarrow> string \<times> int \<Rightarrow> (message \<Rightarrow> string \<times> int \<Rightarrow> (string \<times> int) option) \<Rightarrow> message
     \<Rightarrow> server \<Rightarrow> server" where
  "udp_message cfg kind l sock source via m st =
     (case Header (Headers m) ''Call-ID'' of
        None \<Rightarrow> put_back m st
      | Some raw \<Rightarrow>
          let callID = NormalizeCallID raw
          in (case sv_sessions st (0, callID) of
                None \<Rightarrow>
                  if \<not> may_start cfg l m st \<or> serverRejectNew cfg (int (sv_accepted st)) then put_back m st
                  else start_udp_call callID sock (case via m source of None \<Rightarrow> source | Some a \<Rightarrow> a) m st
              | Some n \<Rightarrow>
                  if kind = UDPPerSource \<and> sv_socket st n \<noteq> sock then put_back m st
                  else st\<lparr>sv_pump := (sv_pump st)(l := Offering n m)\<rparr>))"

text \<open>With one socket per source address a single pump serves all sockets.\<close>

definition ui_message ::
  "server_config \<Rightarrow> nat \<Rightarrow> string \<times> int \<Rightarrow> (message \<Rightarrow> string \<times> int \<Rightarrow> (string \<times> int) option) \<Rightarrow> message \<Rightarrow> server \<Rightarrow> server" where
  "ui_message cfg sock source via m st = udp_message cfg UDPPerSource 0 sock source via m st"

definition tcp_message :: "server_config \<Rightarrow> nat \<Rightarrow> message \<Rightarrow> server \<Rightarrow> server" where
  "tcp_message cfg l m st =
     (case Header (Headers m) ''Call-ID'' of
        None \<Rightarrow> st
      | Some raw \<Rightarrow>
          let callID = NormalizeCallID raw
          in (case sv_sessions st (Suc l, callID) of
                None \<Rightarrow>
                  if \<not> may_start cfg l m st then st
                  else (case reserveCallSlot cfg st of
                          None \<Rightarrow> st
                        | Some (n, st1) \<Rightarrow>
                            st1\<lparr>sv_calls := (sv_calls st1)(n \<mapsto> ((Suc l, callID), Reserved)),
                                sv_pump := (sv_pump st1)(l := Inserting n callID m)\<rparr>)
              | Some n \<Rightarrow> st\<lparr>sv_pump := (sv_pump st)(l := Offering n m)\<rparr>))"

definition tcp_insert :: "nat \<Rightarrow> nat \<Rightarrow> string \<Rightarrow> message \<Rightarrow> server \<Rightarrow> server" where
  "tcp_insert l n callID m st =
     (case sv_sessions st (Suc l, callID) of
        Some _ \<Rightarrow> refundReservedSlot (st\<lparr>sv_calls := (sv_calls st)(n := None), sv_pump := (sv_pump st)(l := PumpIdle)\<rparr>)
      | None \<Rightarrow>
          st\<lparr>sv_sessions := (sv_sessions st)((Suc l, callID) \<mapsto> n), sv_calls := (sv_calls st)(n \<mapsto> ((Suc l, callID), Running)),
             sv_pump := (sv_pump st)(l := Offering n m)\<rparr>)"

definition inbox_cap :: "listener \<Rightarrow> nat" where
  "inbox_cap kind = (if kind = TCPShared then 8 else sipMailboxCap)"

definition offer :: "listener \<Rightarrow> nat \<Rightarrow> nat \<Rightarrow> message \<Rightarrow> server \<Rightarrow> server" where
  "offer kind l n m st =
     (let st1 = st\<lparr>sv_pump := (sv_pump st)(l := PumpIdle)\<rparr>
      in if length (sv_inbox st n) < inbox_cap kind then st1\<lparr>sv_inbox := (sv_inbox st)(n := sv_inbox st n @ [m])\<rparr>
         else put_back m st1)"

text \<open>The end of a call: under one mutex for UDP, in two critical sections for TCP.\<close>

definition delete_session :: "nat \<Rightarrow> nat \<times> string \<Rightarrow> phase \<Rightarrow> server \<Rightarrow> server" where
  "delete_session n key ph st = st\<lparr>sv_sessions := (sv_sessions st)(key := None), sv_calls := (sv_calls st)(n \<mapsto> (key, ph))\<rparr>"

definition end_udp_call :: "server_config \<Rightarrow> nat \<Rightarrow> nat \<times> string \<Rightarrow> server \<Rightarrow> server" where
  "end_udp_call cfg n key st = finishCallUnlocked cfg (delete_session n key Ended st)"

definition end_tcp_call :: "server_config \<Rightarrow> nat \<Rightarrow> nat \<times> string \<Rightarrow> server \<Rightarrow> server" where
  "end_tcp_call cfg n key st = finishCallUnlocked cfg (st\<lparr>sv_calls := (sv_calls st)(n \<mapsto> (key, Ended))\<rparr>)"

definition SetTransportListenerEnabled :: "int \<Rightarrow> bool \<Rightarrow> server \<Rightarrow> (string, server) result" where
  "SetTransportListenerEnabled index enabled st =
     (if sv_accept st = [] then Inl ''transport toggles are only available in server (-server) mode''
      else if index < 0 \<or> int (length (sv_accept st)) \<le> index then Inl ''listener index out of range''
      else Inr (st\<lparr>sv_accept := (sv_accept st)[nat index := enabled]\<rparr>))"

definition TryReplaceLiveScenario :: "Mode \<Rightarrow> Scenario \<Rightarrow> server \<Rightarrow> (string, server) result" where
  "TryReplaceLiveScenario mode nxt st =
     (if s_Mode nxt \<noteq> mode then Inl ''scenario mode does not match startup mode (restart required)''
      else Inr (st\<lparr>sv_live := nxt\<rparr>))"

section \<open>Steps\<close>

text \<open>\<open>kinds\<close> gives the kind of each listener.\<close>

inductive server_step :: "server_config \<Rightarrow> (nat \<Rightarrow> listener) \<Rightarrow> server \<Rightarrow> server \<Rightarrow> bool" for cfg kinds where
  udp: "sv_pump st l = PumpIdle \<Longrightarrow> kinds l = UDP \<Longrightarrow> server_step cfg kinds st (udp_message cfg UDP l l source via m st)"
| ui: "sv_pump st 0 = PumpIdle \<Longrightarrow> kinds 0 = UDPPerSource \<Longrightarrow> server_step cfg kinds st (ui_message cfg sock source via m st)"
| tcp: "sv_pump st l = PumpIdle \<Longrightarrow> kinds l = TCPShared \<Longrightarrow> server_step cfg kinds st (tcp_message cfg l m st)"
| insert: "sv_pump st l = Inserting n callID m \<Longrightarrow> server_step cfg kinds st (tcp_insert l n callID m st)"
| offer: "sv_pump st l = Offering n m \<Longrightarrow> server_step cfg kinds st (offer (kinds l) l n m st)"
| start: "sv_calls st n = Some (key, Starting m) \<Longrightarrow> length (sv_inbox st n) < sipMailboxCap \<Longrightarrow>
    server_step cfg kinds st (st\<lparr>sv_calls := (sv_calls st)(n \<mapsto> (key, Running)), sv_inbox := (sv_inbox st)(n := sv_inbox st n @ [m])\<rparr>)"
| read: "sv_calls st n = Some (key, Running) \<Longrightarrow> sv_inbox st n = m # ms \<Longrightarrow>
    server_step cfg kinds st (st\<lparr>sv_inbox := (sv_inbox st)(n := ms)\<rparr>)"
| finish: "sv_calls st n = Some (key, Running) \<Longrightarrow> fst key = 0 \<Longrightarrow> server_step cfg kinds st (end_udp_call cfg n key st)"
| leave: "sv_calls st n = Some (key, Running) \<Longrightarrow> fst key \<noteq> 0 \<Longrightarrow> server_step cfg kinds st (delete_session n key Leaving st)"
| count: "sv_calls st n = Some (key, Leaving) \<Longrightarrow> server_step cfg kinds st (end_tcp_call cfg n key st)"
| toggle: "SetTransportListenerEnabled index enabled st = Inr st' \<Longrightarrow> server_step cfg kinds st st'"
| reload: "TryReplaceLiveScenario ModeServer nxt st = Inr st' \<Longrightarrow> server_step cfg kinds st st'"

inductive server_reachable :: "server_config \<Rightarrow> (nat \<Rightarrow> listener) \<Rightarrow> server \<Rightarrow> bool" for cfg kinds where
  init: "server_reachable cfg kinds (newServerMultiCoordinator accept sc)"
| step: "server_reachable cfg kinds st \<Longrightarrow> server_step cfg kinds st st' \<Longrightarrow> server_reachable cfg kinds st'"

section \<open>Counting calls\<close>

definition live :: "server \<Rightarrow> nat set" where
  "live st = {n. \<exists>key ph. sv_calls st n = Some (key, ph) \<and> ph \<noteq> Ended}"

fun has_session :: "phase \<Rightarrow> bool" where
  "has_session (Starting m) = True"
| "has_session Running = True"
| "has_session ph = False"

definition numbered_calls :: "server \<Rightarrow> bool" where
  "numbered_calls st \<longleftrightarrow> dom (sv_calls st) = {1..sv_accepted st} \<and> card (live st) + sv_finished st = sv_accepted st"

definition owns :: "((nat \<times> string) \<times> phase) option \<Rightarrow> nat \<times> string \<Rightarrow> bool" where
  "owns call key = (case call of None \<Rightarrow> False | Some (k, ph) \<Rightarrow> k = key \<and> has_session ph)"

definition linked :: "server \<Rightarrow> bool" where
  "linked st \<longleftrightarrow> (\<forall>key n. sv_sessions st key = Some n \<longleftrightarrow> owns (sv_calls st n) key)"

definition inserting :: "server \<Rightarrow> bool" where
  "inserting st \<longleftrightarrow> (\<forall>l n id m. sv_pump st l = Inserting n id m \<longrightarrow>
     sv_calls st n = Some ((Suc l, id), Reserved) \<and> sv_sessions st (Suc l, id) = None)"

definition within_limit :: "server_config \<Rightarrow> server \<Rightarrow> bool" where
  "within_limit cfg st \<longleftrightarrow> (\<not> sc_UnlimitedCalls cfg \<longrightarrow> int (sv_accepted st) \<le> max 0 (sc_TotalCalls cfg))
     \<and> (sv_done st \<longleftrightarrow> 0 < sv_finished st \<and> serverFinishedAll cfg (int (sv_finished st)))"

definition server_inv :: "server_config \<Rightarrow> server \<Rightarrow> bool" where
  "server_inv cfg st \<longleftrightarrow> numbered_calls st \<and> linked st \<and> inserting st \<and> within_limit cfg st"

lemmas server_inv_defs = server_inv_def numbered_calls_def linked_def inserting_def within_limit_def

lemma live_upd:
  "sv_calls st' = (sv_calls st)(n \<mapsto> (key, ph)) \<Longrightarrow> live st' = (if ph = Ended then live st - {n} else insert n (live st))"
  by (auto simp: live_def)

lemma live_dom: "live st \<subseteq> dom (sv_calls st)"
  by (auto simp: live_def)

lemma finite_live: "numbered_calls st \<Longrightarrow> finite (live st)"
  using live_dom [of st] by (simp add: numbered_calls_def finite_subset)

text \<open>A new number, a change of phase of a live call, and the end of one.\<close>

lemma numbered_new:
  assumes "numbered_calls st" and "sv_calls st' = (sv_calls st)(Suc (sv_accepted st) \<mapsto> (key, ph))" and "ph \<noteq> Ended"
    and "sv_accepted st' = Suc (sv_accepted st)" and "sv_finished st' = sv_finished st"
  shows "numbered_calls st'"
proof -
  have "Suc (sv_accepted st) \<notin> live st" using assms(1) live_dom [of st] by (auto simp: numbered_calls_def)
  moreover have "card (live st) + sv_finished st = sv_accepted st" "dom (sv_calls st) = {1..sv_accepted st}"
    using assms(1) by (simp_all add: numbered_calls_def)
  ultimately show ?thesis
    using finite_live [OF assms(1)] assms(3) by (simp add: numbered_calls_def live_upd [OF assms(2)] assms(2,4,5) atLeastAtMostSuc_conv)
qed

lemma numbered_phase:
  assumes "numbered_calls st" and "sv_calls st' = (sv_calls st)(n \<mapsto> (key, ph))" and "n \<in> live st" and "ph \<noteq> Ended"
    and "sv_accepted st' = sv_accepted st" and "sv_finished st' = sv_finished st"
  shows "numbered_calls st'"
proof -
  have "insert n (dom (sv_calls st)) = dom (sv_calls st)" using assms(3) live_dom by blast
  with assms(1,3,4) show ?thesis
    unfolding numbered_calls_def live_upd [OF assms(2)] assms(2,5,6) by (simp add: insert_absorb)
qed

lemma numbered_end:
  assumes "numbered_calls st" and "sv_calls st' = (sv_calls st)(n \<mapsto> (key, Ended))" and "n \<in> live st"
    and "sv_accepted st' = sv_accepted st" and "sv_finished st' = Suc (sv_finished st)"
  shows "numbered_calls st'"
proof -
  have "insert n (dom (sv_calls st)) = dom (sv_calls st)" using assms(3) live_dom by blast
  moreover have "card (live st) = Suc (card (live st - {n}))" using finite_live [OF assms(1)] assms(3) by (metis card.remove)
  ultimately show ?thesis
    using assms(1) unfolding numbered_calls_def live_upd [OF assms(2)] assms(2,4,5) by simp
qed

lemma numbered_same:
  "numbered_calls st \<Longrightarrow> sv_calls st' = sv_calls st \<Longrightarrow> sv_accepted st' = sv_accepted st \<Longrightarrow> sv_finished st' = sv_finished st
     \<Longrightarrow> numbered_calls st'"
  by (simp add: numbered_calls_def live_def)

lemma owns_simps [simp]: "owns None key = False" "owns (Some (k, ph)) key \<longleftrightarrow> k = key \<and> has_session ph"
  by (simp_all add: owns_def)

lemma linked_same:
  "linked st \<Longrightarrow> sv_sessions st' = sv_sessions st \<Longrightarrow> sv_calls st' = (sv_calls st)(n := c) \<Longrightarrow>
     (\<And>key. owns c key = owns (sv_calls st n) key) \<Longrightarrow> linked st'"
  by (auto simp: linked_def simp del: split_paired_All)

lemma linked_add:
  "linked st \<Longrightarrow> sv_sessions st' = (sv_sessions st)(key \<mapsto> n) \<Longrightarrow> sv_calls st' = (sv_calls st)(n \<mapsto> (key, ph)) \<Longrightarrow>
     has_session ph \<Longrightarrow> sv_sessions st key = None \<Longrightarrow> (\<And>k. \<not> owns (sv_calls st n) k) \<Longrightarrow> linked st'"
  by (simp add: linked_def del: split_paired_All) (metis option.distinct(1))

lemma linked_delete:
  assumes "linked st" and "sv_sessions st' = (sv_sessions st)(key := None)" and "sv_calls st' = (sv_calls st)(n \<mapsto> (key, ph))"
    and "\<not> has_session ph" and "owns (sv_calls st n) key"
  shows "linked st'"
proof -
  have own: "owns (sv_calls st n') k \<longleftrightarrow> sv_sessions st k = Some n'" for n' k using assms(1) by (simp add: linked_def del: split_paired_All)
  with assms(5) have n: "sv_sessions st key = Some n" by simp
  have other: "k = key" if "owns (sv_calls st n) k" for k
    using that assms(5) by (cases "sv_calls st n") (auto simp: owns_def)
  show ?thesis unfolding linked_def assms(2,3)
  proof (intro allI)
    fix k n'
    show "((sv_sessions st)(key := None)) k = Some n' \<longleftrightarrow> owns (((sv_calls st)(n \<mapsto> (key, ph))) n') k"
    proof (cases "n' = n")
      case True
      have "sv_sessions st k = Some n \<Longrightarrow> k = key" using other own by blast
      with True assms(4) show ?thesis by auto
    next
      case False
      have "sv_sessions st key \<noteq> Some n'" using n False by simp
      with False own [of n' k] show ?thesis by (cases "k = key") simp_all
    qed
  qed
qed

lemma not_owned: "\<not> owns (sv_calls st n) key \<or> n \<in> live st"
  by (cases "sv_calls st n") (auto simp: owns_def live_def)

text \<open>The operations keep the invariant.\<close>

lemma fresh_number: "server_inv cfg st \<Longrightarrow> sv_calls st (Suc (sv_accepted st)) = None"
  by (metis atLeastAtMost_iff domIff not_less_eq_eq order_refl server_inv_def numbered_calls_def)

lemma within_limit_new:
  "within_limit cfg st \<Longrightarrow> \<not> serverRejectNew cfg (int (sv_accepted st)) \<Longrightarrow> sv_accepted st' = Suc (sv_accepted st) \<Longrightarrow>
     sv_finished st' = sv_finished st \<Longrightarrow> sv_done st' = sv_done st \<Longrightarrow> within_limit cfg st'"
  by (auto simp: within_limit_def serverRejectNew_def)

lemma within_limit_end:
  "within_limit cfg st \<Longrightarrow> sv_accepted st' = sv_accepted st \<Longrightarrow> sv_finished st' = Suc (sv_finished st) \<Longrightarrow>
     sv_done st' = (sv_done st \<or> serverFinishedAll cfg (int (Suc (sv_finished st)))) \<Longrightarrow> within_limit cfg st'"
  by (auto simp: within_limit_def serverFinishedAll_def)

lemma within_limit_same:
  "within_limit cfg st \<Longrightarrow> sv_accepted st' = sv_accepted st \<Longrightarrow> sv_finished st' = sv_finished st \<Longrightarrow>
     sv_done st' = sv_done st \<Longrightarrow> within_limit cfg st'"
  by (simp add: within_limit_def)

lemma server_inv_frame:
  assumes "server_inv cfg st" and "sv_calls st' = sv_calls st" and "sv_sessions st' = sv_sessions st"
    and "sv_accepted st' = sv_accepted st" and "sv_finished st' = sv_finished st" and "sv_done st' = sv_done st"
    and "\<And>l n id m. sv_pump st' l = Inserting n id m \<Longrightarrow> sv_pump st l = Inserting n id m"
  shows "server_inv cfg st'"
proof -
  have "inserting st'" using assms(1,7) by (simp add: server_inv_def inserting_def assms(2,3))
  then show ?thesis
    using assms(1) numbered_same [OF _ assms(2,4,5)] within_limit_same [OF _ assms(4-6)]
    by (simp add: server_inv_def linked_def assms(2,3))
qed

lemma start_udp_call_fields:
  fixes st callID sock remote m
  defines "st' \<equiv> start_udp_call callID sock remote m st"
  shows "sv_calls st' = (sv_calls st)(Suc (sv_accepted st) \<mapsto> ((0, callID), Starting m))"
    and "sv_sessions st' = (sv_sessions st)((0, callID) \<mapsto> Suc (sv_accepted st))"
    and "sv_accepted st' = Suc (sv_accepted st)" and "sv_finished st' = sv_finished st" and "sv_done st' = sv_done st"
    and "sv_pump st' = sv_pump st"
  by (simp_all add: st'_def start_udp_call_def Let_def)

lemma start_udp_call_inv:
  assumes "server_inv cfg st" and "sv_sessions st (0, callID) = None" and "\<not> serverRejectNew cfg (int (sv_accepted st))"
  shows "server_inv cfg (start_udp_call callID sock remote m st)"
proof -
  note f = start_udp_call_fields [of callID sock remote m st]
  note fresh = fresh_number [OF assms(1)]
  have parts: "numbered_calls st" "linked st" "inserting st" "within_limit cfg st" using assms(1) by (simp_all add: server_inv_def)
  have "inserting (start_udp_call callID sock remote m st)"
    unfolding inserting_def f
  proof (intro allI impI)
    fix l n id ma
    assume "sv_pump st l = Inserting n id ma"
    with parts(3) have "sv_calls st n = Some ((Suc l, id), Reserved)" "sv_sessions st (Suc l, id) = None" by (simp_all add: inserting_def)
    moreover from this(1) fresh have "n \<noteq> Suc (sv_accepted st)" by auto
    ultimately show "((sv_calls st)(Suc (sv_accepted st) \<mapsto> ((0, callID), Starting m))) n = Some ((Suc l, id), Reserved)
      \<and> ((sv_sessions st)((0, callID) \<mapsto> Suc (sv_accepted st))) (Suc l, id) = None" by simp
  qed
  moreover have "linked (start_udp_call callID sock remote m st)"
    by (rule linked_add [OF parts(2) f(2,1)]) (simp_all add: assms(2) fresh)
  ultimately show ?thesis
    using numbered_new [OF parts(1) f(1) _ f(3,4)] within_limit_new [OF parts(4) assms(3) f(3-5)] by (simp add: server_inv_def)
qed

lemma udp_message_inv:
  assumes "server_inv cfg st" and "sv_pump st l = PumpIdle"
  shows "server_inv cfg (udp_message cfg kind l sock source via m st)"
proof -
  have "server_inv cfg (put_back m st)" "server_inv cfg (st\<lparr>sv_pump := (sv_pump st)(l := Offering n m)\<rparr>)" for n
    by (rule server_inv_frame [OF assms(1)]; simp add: put_back_def split: if_splits)+
  then show ?thesis using start_udp_call_inv [OF assms(1)]
    by (simp add: udp_message_def Let_def split: option.split)
qed

lemma tcp_message_inv:
  assumes "server_inv cfg st" and "sv_pump st l = PumpIdle"
  shows "server_inv cfg (tcp_message cfg l m st)"
proof (cases "Header (Headers m) ''Call-ID''")
  case None
  with assms(1) show ?thesis by (simp add: tcp_message_def)
next
  case (Some raw)
  let ?id = "NormalizeCallID raw" and ?n = "Suc (sv_accepted st)"
  define st' where "st' = st\<lparr>sv_accepted := ?n, sv_calls := (sv_calls st)(?n \<mapsto> ((Suc l, ?id), Reserved)),
     sv_pump := (sv_pump st)(l := Inserting ?n ?id m)\<rparr>"
  have offer: "server_inv cfg (st\<lparr>sv_pump := (sv_pump st)(l := Offering n m)\<rparr>)" for n
    by (rule server_inv_frame [OF assms(1)]) (simp_all split: if_splits)
  note fresh = fresh_number [OF assms(1)]
  have f: "sv_calls st' = (sv_calls st)(?n \<mapsto> ((Suc l, ?id), Reserved))" "sv_sessions st' = sv_sessions st" "sv_accepted st' = ?n"
    "sv_finished st' = sv_finished st" "sv_done st' = sv_done st" "sv_pump st' = (sv_pump st)(l := Inserting ?n ?id m)"
    by (simp_all add: st'_def)
  have parts: "numbered_calls st" "linked st" "inserting st" "within_limit cfg st" using assms(1) by (simp_all add: server_inv_def)
  have "server_inv cfg st'" if new: "sv_sessions st (Suc l, ?id) = None" "\<not> serverRejectNew cfg (int (sv_accepted st))"
  proof -
    have "inserting st'"
      unfolding inserting_def f
    proof (intro allI impI)
      fix l' n id ma
      assume "((sv_pump st)(l := Inserting ?n ?id m)) l' = Inserting n id ma"
      then consider "l' = l" "n = ?n" "id = ?id" | "l' \<noteq> l" "sv_pump st l' = Inserting n id ma" by (auto split: if_splits)
      then show "((sv_calls st)(?n \<mapsto> ((Suc l, ?id), Reserved))) n = Some ((Suc l', id), Reserved) \<and> sv_sessions st (Suc l', id) = None"
      proof cases
        case 2
        with parts(3) have "sv_calls st n = Some ((Suc l', id), Reserved)" "sv_sessions st (Suc l', id) = None"
          by (simp_all add: inserting_def)
        moreover from this(1) fresh have "n \<noteq> ?n" by auto
        ultimately show ?thesis by simp
      qed (simp add: new(1))
    qed
    moreover have "linked st'" by (rule linked_same [OF parts(2) f(2,1)]) (simp add: fresh)
    ultimately show ?thesis
      using numbered_new [OF parts(1) f(1) _ f(3,4)] within_limit_new [OF parts(4) new(2) f(3-5)] by (simp add: server_inv_def)
  qed
  with Some offer assms(1) show ?thesis
    by (simp add: tcp_message_def Let_def reserveCallSlot_def st'_def split: option.split)
qed

lemma tcp_insert_inv:
  assumes "server_inv cfg st" and "sv_pump st l = Inserting n callID m"
  shows "server_inv cfg (tcp_insert l n callID m st)"
proof -
  have parts: "numbered_calls st" "linked st" "inserting st" "within_limit cfg st" using assms(1) by (simp_all add: server_inv_def)
  have n: "sv_calls st n = Some ((Suc l, callID), Reserved)" and free: "sv_sessions st (Suc l, callID) = None"
    using parts(3) assms(2) by (simp_all add: inserting_def)
  define st' where "st' = tcp_insert l n callID m st"
  have f: "sv_calls st' = (sv_calls st)(n \<mapsto> ((Suc l, callID), Running))" "sv_sessions st' = (sv_sessions st)((Suc l, callID) \<mapsto> n)"
    "sv_accepted st' = sv_accepted st" "sv_finished st' = sv_finished st" "sv_done st' = sv_done st"
    "sv_pump st' = (sv_pump st)(l := Offering n m)"
    by (simp_all add: st'_def tcp_insert_def free)
  have "inserting st'"
    unfolding inserting_def f
  proof (intro allI impI)
    fix l' n' id ma
    assume "((sv_pump st)(l := Offering n m)) l' = Inserting n' id ma"
    then have l': "l' \<noteq> l" "sv_pump st l' = Inserting n' id ma" by (auto split: if_splits)
    with parts(3) have c: "sv_calls st n' = Some ((Suc l', id), Reserved)" "sv_sessions st (Suc l', id) = None"
      by (simp_all add: inserting_def)
    with n l'(1) have "n' \<noteq> n" by auto
    with c l'(1) show "((sv_calls st)(n \<mapsto> ((Suc l, callID), Running))) n' = Some ((Suc l', id), Reserved)
      \<and> ((sv_sessions st)((Suc l, callID) \<mapsto> n)) (Suc l', id) = None" by simp
  qed
  moreover have "linked st'" by (rule linked_add [OF parts(2) f(2,1)]) (simp_all add: free n)
  moreover have "numbered_calls st'" by (rule numbered_phase [OF parts(1) f(1) _ _ f(3,4)]) (simp_all add: live_def n)
  moreover have "within_limit cfg st'" by (rule within_limit_same [OF parts(4) f(3-5)])
  ultimately show ?thesis by (simp add: server_inv_def st'_def)
qed

text \<open>A pump that is inserting does not depend on the calls that have a session or have left.\<close>

lemma inserting_other:
  assumes "inserting st" and "sv_calls st n = Some (key, ph)" and "ph \<noteq> Reserved" and "sv_calls st' = (sv_calls st)(n := c)"
    and "\<And>k. sv_sessions st k = None \<Longrightarrow> sv_sessions st' k = None" and "sv_pump st' = sv_pump st"
  shows "inserting st'"
  unfolding inserting_def assms(4,6)
proof (intro allI impI)
  fix l n' id ma
  assume "sv_pump st l = Inserting n' id ma"
  with assms(1) have c: "sv_calls st n' = Some ((Suc l, id), Reserved)" "sv_sessions st (Suc l, id) = None"
    by (simp_all add: inserting_def)
  with assms(2,3) have "n' \<noteq> n" by auto
  with c assms(5) show "((sv_calls st)(n := c)) n' = Some ((Suc l, id), Reserved) \<and> sv_sessions st' (Suc l, id) = None" by simp
qed

lemma start_inv:
  assumes "server_inv cfg st" and "sv_calls st n = Some (key, Starting m)"
  shows "server_inv cfg (st\<lparr>sv_calls := (sv_calls st)(n \<mapsto> (key, Running)), sv_inbox := inbox\<rparr>)" (is "server_inv cfg ?st")
proof -
  have parts: "numbered_calls st" "linked st" "inserting st" "within_limit cfg st" using assms(1) by (simp_all add: server_inv_def)
  have "numbered_calls ?st" by (rule numbered_phase [OF parts(1), of _ n key Running]) (use assms(2) in \<open>auto simp: live_def\<close>)
  moreover have "linked ?st" by (rule linked_same [OF parts(2), of _ n "Some (key, Running)"]) (simp_all add: assms(2))
  moreover have "inserting ?st" by (rule inserting_other [OF parts(3) assms(2)]) simp_all
  moreover have "within_limit cfg ?st" by (rule within_limit_same [OF parts(4)]) simp_all
  ultimately show ?thesis by (simp add: server_inv_def)
qed

lemma end_udp_inv:
  assumes "server_inv cfg st" and "sv_calls st n = Some (key, Running)"
  shows "server_inv cfg (end_udp_call cfg n key st)"
proof -
  have parts: "numbered_calls st" "linked st" "inserting st" "within_limit cfg st" using assms(1) by (simp_all add: server_inv_def)
  define st' where "st' = end_udp_call cfg n key st"
  have f: "sv_calls st' = (sv_calls st)(n \<mapsto> (key, Ended))" "sv_sessions st' = (sv_sessions st)(key := None)"
    "sv_accepted st' = sv_accepted st" "sv_finished st' = Suc (sv_finished st)" "sv_pump st' = sv_pump st"
    "sv_done st' = (sv_done st \<or> serverFinishedAll cfg (int (Suc (sv_finished st))))"
    by (simp_all add: st'_def end_udp_call_def finishCallUnlocked_def delete_session_def Let_def)
  have "numbered_calls st'" by (rule numbered_end [OF parts(1) f(1) _ f(3,4)]) (use assms(2) in \<open>auto simp: live_def\<close>)
  moreover have "linked st'" by (rule linked_delete [OF parts(2) f(2,1)]) (simp_all add: assms(2))
  moreover have "inserting st'" by (rule inserting_other [OF parts(3) assms(2) _ f(1)]) (simp_all add: f)
  moreover have "within_limit cfg st'" by (rule within_limit_end [OF parts(4) f(3,4,6)])
  ultimately show ?thesis by (simp add: server_inv_def st'_def)
qed

lemma delete_session_inv:
  assumes "server_inv cfg st" and "sv_calls st n = Some (key, Running)"
  shows "server_inv cfg (delete_session n key Leaving st)"
proof -
  have parts: "numbered_calls st" "linked st" "inserting st" "within_limit cfg st" using assms(1) by (simp_all add: server_inv_def)
  define st' where "st' = delete_session n key Leaving st"
  have f: "sv_calls st' = (sv_calls st)(n \<mapsto> (key, Leaving))" "sv_sessions st' = (sv_sessions st)(key := None)"
    "sv_accepted st' = sv_accepted st" "sv_finished st' = sv_finished st" "sv_done st' = sv_done st" "sv_pump st' = sv_pump st"
    by (simp_all add: st'_def delete_session_def)
  have "numbered_calls st'" by (rule numbered_phase [OF parts(1) f(1) _ _ f(3,4)]) (use assms(2) in \<open>auto simp: live_def\<close>)
  moreover have "linked st'" by (rule linked_delete [OF parts(2) f(2,1)]) (simp_all add: assms(2))
  moreover have "inserting st'" by (rule inserting_other [OF parts(3) assms(2) _ f(1)]) (simp_all add: f)
  moreover have "within_limit cfg st'" by (rule within_limit_same [OF parts(4) f(3-5)])
  ultimately show ?thesis by (simp add: server_inv_def st'_def)
qed

lemma end_tcp_inv:
  assumes "server_inv cfg st" and "sv_calls st n = Some (key, Leaving)"
  shows "server_inv cfg (end_tcp_call cfg n key st)"
proof -
  have parts: "numbered_calls st" "linked st" "inserting st" "within_limit cfg st" using assms(1) by (simp_all add: server_inv_def)
  define st' where "st' = end_tcp_call cfg n key st"
  have f: "sv_calls st' = (sv_calls st)(n \<mapsto> (key, Ended))" "sv_sessions st' = sv_sessions st"
    "sv_accepted st' = sv_accepted st" "sv_finished st' = Suc (sv_finished st)" "sv_pump st' = sv_pump st"
    "sv_done st' = (sv_done st \<or> serverFinishedAll cfg (int (Suc (sv_finished st))))"
    by (simp_all add: st'_def end_tcp_call_def finishCallUnlocked_def Let_def)
  have "numbered_calls st'" by (rule numbered_end [OF parts(1) f(1) _ f(3,4)]) (use assms(2) in \<open>auto simp: live_def\<close>)
  moreover have "linked st'" by (rule linked_same [OF parts(2) f(2,1)]) (simp add: assms(2))
  moreover have "inserting st'" by (rule inserting_other [OF parts(3) assms(2) _ f(1)]) (simp_all add: f)
  moreover have "within_limit cfg st'" by (rule within_limit_end [OF parts(4) f(3,4,6)])
  ultimately show ?thesis by (simp add: server_inv_def st'_def)
qed

lemma offer_inv: "server_inv cfg st \<Longrightarrow> server_inv cfg (offer kind l n m st)"
  by (erule server_inv_frame) (simp_all add: offer_def put_back_def Let_def split: if_splits)

lemma toggle_inv:
  assumes "server_inv cfg st" and "SetTransportListenerEnabled index enabled st = Inr st'"
  shows "server_inv cfg st'"
proof -
  from assms(2) obtain accept where "st' = st\<lparr>sv_accept := accept\<rparr>" by (auto simp: SetTransportListenerEnabled_def split: if_splits)
  then show ?thesis by (intro server_inv_frame [OF assms(1)]) simp_all
qed

lemma reload_inv:
  assumes "server_inv cfg st" and "TryReplaceLiveScenario mode nxt st = Inr st'"
  shows "server_inv cfg st'"
proof -
  from assms(2) have "st' = st\<lparr>sv_live := nxt\<rparr>" by (simp add: TryReplaceLiveScenario_def split: if_splits)
  then show ?thesis by (intro server_inv_frame [OF assms(1)]) simp_all
qed

lemma step_inv:
  assumes "server_step cfg kinds st st'" and inv: "server_inv cfg st"
  shows "server_inv cfg st'"
  using assms(1)
proof cases
  case (udp l source via m)
  show ?thesis unfolding udp(1) by (rule udp_message_inv [OF inv udp(2)])
next
  case (ui sock source via m)
  show ?thesis unfolding ui(1) ui_message_def by (rule udp_message_inv [OF inv ui(2)])
next
  case (tcp l m)
  show ?thesis unfolding tcp(1) by (rule tcp_message_inv [OF inv tcp(2)])
next
  case (insert l n callID m)
  show ?thesis unfolding insert(1) by (rule tcp_insert_inv [OF inv insert(2)])
next
  case (offer l n m)
  show ?thesis unfolding offer(1) by (rule offer_inv [OF inv])
next
  case (start n key m)
  show ?thesis unfolding start(1) by (rule start_inv [OF inv start(2)])
next
  case (read n key m ms)
  show ?thesis unfolding read(1) by (rule server_inv_frame [OF inv]) simp_all
next
  case (finish n key)
  show ?thesis unfolding finish(1) by (rule end_udp_inv [OF inv finish(2)])
next
  case (leave n key)
  show ?thesis unfolding leave(1) by (rule delete_session_inv [OF inv leave(2)])
next
  case (count n key)
  show ?thesis unfolding count(1) by (rule end_tcp_inv [OF inv count(2)])
next
  case (toggle index enabled)
  show ?thesis by (rule toggle_inv [OF inv toggle])
next
  case (reload nxt)
  show ?thesis by (rule reload_inv [OF inv reload])
qed

lemma reachable_inv: "server_reachable cfg kinds st \<Longrightarrow> server_inv cfg st"
proof (induction rule: server_reachable.induct)
  case (init accept sc)
  show ?case by (simp add: newServerMultiCoordinator_def server_inv_defs live_def serverFinishedAll_def)
qed (rule step_inv)

text \<open>
  C6: In every interleaving of listeners and calls, the calls in progress are the accepted ones less
  the finished ones, a limited server never accepts more than \<^verbatim>\<open>TotalCalls\<close>, different sessions have
  different call numbers, and the server signals its end only when the last of \<^verbatim>\<open>TotalCalls\<close> calls has
  finished and none is in progress.
\<close>
theorem server_counts:
  assumes "server_reachable cfg kinds st"
  shows "card (live st) = sv_accepted st - sv_finished st \<and> sv_finished st \<le> sv_accepted st
    \<and> (\<forall>n. n \<in> live st \<longrightarrow> 1 \<le> n \<and> n \<le> sv_accepted st)
    \<and> (\<not> sc_UnlimitedCalls cfg \<longrightarrow> int (sv_accepted st) \<le> max 0 (sc_TotalCalls cfg))
    \<and> (\<forall>k k' n. sv_sessions st k = Some n \<longrightarrow> sv_sessions st k' = Some n \<longrightarrow> k = k')
    \<and> (sv_done st \<longrightarrow> live st = {} \<and> int (sv_finished st) = sc_TotalCalls cfg)"
proof -
  have parts: "numbered_calls st" "linked st" "within_limit cfg st"
    using reachable_inv [OF assms] by (simp_all add: server_inv_def)
  from parts(1) have count: "card (live st) + sv_finished st = sv_accepted st" by (simp add: numbered_calls_def)
  have range: "1 \<le> n \<and> n \<le> sv_accepted st" if "n \<in> live st" for n
    using that parts(1) live_dom [of st] by (auto simp: numbered_calls_def)
  have limit: "int (sv_accepted st) \<le> max 0 (sc_TotalCalls cfg)" if "\<not> sc_UnlimitedCalls cfg"
    using that parts(3) by (simp add: within_limit_def)
  have unique: "k = k'" if "sv_sessions st k = Some n" "sv_sessions st k' = Some n" for k k' n
  proof -
    from parts(2) that have "owns (sv_calls st n) k" "owns (sv_calls st n) k'" by (simp_all add: linked_def del: split_paired_All)
    then show ?thesis by (cases "sv_calls st n") (auto simp: owns_def)
  qed
  have stop: "live st = {} \<and> int (sv_finished st) = sc_TotalCalls cfg" if "sv_done st"
  proof -
    from that parts(3) have fin: "0 < sv_finished st" "\<not> sc_UnlimitedCalls cfg" "sc_TotalCalls cfg \<le> int (sv_finished st)"
      by (simp_all add: within_limit_def serverFinishedAll_def)
    with limit count have "card (live st) = 0" "int (sv_finished st) = sc_TotalCalls cfg" by linarith+
    with finite_live [OF parts(1)] show ?thesis by simp
  qed
  from count range limit unique stop show ?thesis by auto
qed

section \<open>A sample run\<close>

definition sample_scenario :: Scenario where
  "sample_scenario = (new_scenario \<lparr>raw_Name = ''uas'', raw_WebRTC = [], raw_Elements = []\<rparr>)
     \<lparr>s_Mode := ModeServer, s_Commands := [(new_command 0)\<lparr>c_Type := CommandRecv, c_RecvReq := ''INVITE''\<rparr>]\<rparr>"

definition sample_config :: server_config where
  "sample_config = \<lparr>sc_UnlimitedCalls = False, sc_TotalCalls = 1, sc_regexp = (\<lambda>_ _. False)\<rparr>"

definition sample_cancel :: message where
  "sample_cancel = sample_request\<lparr>StartLine := ''CANCEL sip:bob@host SIP/2.0'', Method := ''CANCEL''\<rparr>"

lemma sample_start: "may_start sample_config 0 sample_request (newServerMultiCoordinator [True] sample_scenario)"
proof -
  have "snapshotLiveFirstRecvCommand sample_scenario = Some ((new_command 0)\<lparr>c_Type := CommandRecv, c_RecvReq := ''INVITE''\<rparr>)"
    by (simp add: snapshotLiveFirstRecvCommand_def firstReceiveIndex_def sample_scenario_def)
  moreover have "strings_EqualFold ''INVITE'' ''INVITE''" by code_simp
  ultimately show ?thesis
    by (simp add: may_start_def listenerAcceptNew_def newServerMultiCoordinator_def matches_first_def new_command_def Match_def
        MatchRecv_def sample_request_def)
qed

lemma sample_overtaken:
  "\<exists>st. server_reachable sample_config (\<lambda>_. UDP) st \<and> sv_inbox st 1 = [sample_cancel, sample_request]
     \<and> sv_calls st 1 = Some ((0, ''1-2@h''), Running) \<and> sv_finished st = 0"
proof -
  let ?R = "server_reachable sample_config (\<lambda>_. UDP)" and ?via = "\<lambda>m source. None" and ?src = "([], 0)"
  define s0 where "s0 = newServerMultiCoordinator [True] sample_scenario"
  define s1 where "s1 = udp_message sample_config UDP 0 0 ?src ?via sample_request s0"
  define s2 where "s2 = udp_message sample_config UDP 0 0 ?src ?via sample_cancel s1"
  define s3 where "s3 = offer UDP 0 1 sample_cancel s2"
  define s4 where "s4 = s3\<lparr>sv_calls := (sv_calls s3)(1 \<mapsto> ((0, ''1-2@h''), Running)), sv_inbox := (sv_inbox s3)(1 := sv_inbox s3 1 @ [sample_request])\<rparr>"
  have norm: "NormalizeCallID ''1-2@h'' = ''1-2@h''" and hdr: "Header (Headers sample_request) ''Call-ID'' = Some ''1-2@h''" by code_simp+
  have hdr2: "Header (Headers sample_cancel) ''Call-ID'' = Some ''1-2@h''" using hdr by (simp add: sample_cancel_def)
  have room: "\<not> serverRejectNew sample_config 0" by (simp add: serverRejectNew_def sample_config_def)
  have none: "sv_sessions s0 k = None" "sv_accepted s0 = 0" "sv_pump s0 0 = PumpIdle" "sv_inbox s0 n = []" "sv_finished s0 = 0" for k n
    by (simp_all add: s0_def newServerMultiCoordinator_def)
  have s1: "s1 = start_udp_call ''1-2@h'' 0 ?src sample_request s0"
    using sample_start [folded s0_def] by (simp add: s1_def udp_message_def hdr norm none room)
  have f1: "sv_sessions s1 (0, ''1-2@h'') = Some 1" "sv_pump s1 0 = PumpIdle" "sv_inbox s1 n = []" "sv_finished s1 = 0"
    "sv_calls s1 (Suc 0) = Some ((0, ''1-2@h''), Starting sample_request)" for n
    by (simp_all add: s1 start_udp_call_def none)
  have s2: "s2 = s1\<lparr>sv_pump := (sv_pump s1)(0 := Offering 1 sample_cancel)\<rparr>"
    by (simp add: s2_def udp_message_def hdr2 norm f1)
  have f3: "sv_inbox s3 (Suc 0) = [sample_cancel]" "sv_calls s3 (Suc 0) = Some ((0, ''1-2@h''), Starting sample_request)" "sv_finished s3 = 0"
    by (simp_all add: s3_def offer_def s2 f1 inbox_cap_def sipMailboxCap_def)
  have "?R s0" unfolding s0_def by (rule server_reachable.init)
  moreover have "server_step sample_config (\<lambda>_. UDP) s0 s1" unfolding s1_def by (rule udp) (simp_all add: none)
  ultimately have "?R s1" by (rule server_reachable.step)
  moreover have "server_step sample_config (\<lambda>_. UDP) s1 s2" unfolding s2_def by (rule udp) (simp_all add: f1)
  ultimately have "?R s2" by (rule server_reachable.step)
  moreover have "server_step sample_config (\<lambda>_. UDP) s2 s3" unfolding s3_def by (rule server_step.offer) (simp add: s2)
  ultimately have "?R s3" by (rule server_reachable.step)
  moreover have "server_step sample_config (\<lambda>_. UDP) s3 s4"
    unfolding s4_def by (rule server_step.start [OF f3(2) [folded One_nat_def]]) (simp add: f3 sipMailboxCap_def)
  ultimately have "?R s4" by (rule server_reachable.step)
  then show ?thesis by (intro exI [of _ s4]) (simp add: s4_def f3)
qed

theorem server_counts_witness:
  "\<exists>st. server_reachable sample_config (\<lambda>_. UDP) st \<and> sv_done st \<and> live st = {} \<and> sv_finished st = 1"
proof -
  obtain st where st: "server_reachable sample_config (\<lambda>_. UDP) st" "sv_calls st 1 = Some ((0, ''1-2@h''), Running)" "sv_finished st = 0"
    using sample_overtaken by blast
  define st' where "st' = end_udp_call sample_config 1 (0, ''1-2@h'') st"
  have r: "server_reachable sample_config (\<lambda>_. UDP) st'"
    unfolding st'_def by (rule server_reachable.step [OF st(1) finish [OF st(2)]]) simp
  have d: "sv_done st'" "sv_finished st' = 1"
    by (simp_all add: st'_def end_udp_call_def finishCallUnlocked_def delete_session_def st(3) serverFinishedAll_def sample_config_def)
  with server_counts [OF r] r show ?thesis by blast
qed


end
