(* ===== verification/Pacing.thy ===== *)
theory Pacing
  imports Float64 Loops Scenario
begin

text \<open>
  Pacing new calls: the rate controller (\<^verbatim>\<open>internal/scheduler/rate.go\<close>) and the plain scheduler beside it
  (\<^verbatim>\<open>scheduler.go\<close>).  Times are nanoseconds.
  Other goroutines may change the controller whenever its mutex is free; what they have done by then is an
  answer of the environment.
\<close>

section \<open>The rate controller\<close>

definition Second :: int where "Second = 10 ^ 9"

definition sanitizeRate :: "float64 \<Rightarrow> float64" where
  "sanitizeRate rate = (if float_le rate (Fin 0) then Fin 1 else rate)"

definition rateToPeriod :: "float64 \<Rightarrow> int" where
  "rateToPeriod rate =
     (let period = float_to_int64 (float_div (float_of_int Second) (sanitizeRate rate))
      in if period \<le> 0 then 1 else period)"

text \<open>\<open>rc_updates\<close> counts how often \<^verbatim>\<open>updateCh\<close> was closed and replaced; a zero time is \<open>None\<close>.\<close>

record RateController =
  rc_rate :: float64
  rc_paused :: bool
  rc_stopped :: bool
  rc_updates :: nat
  rc_nextFire :: "int option"

definition NewRateController :: "int \<Rightarrow> float64 \<Rightarrow> RateController" where
  "NewRateController now rate =
     \<lparr>rc_rate = sanitizeRate rate, rc_paused = False, rc_stopped = False, rc_updates = 0, rc_nextFire = Some now\<rparr>"

definition broadcastLocked :: "RateController \<Rightarrow> RateController" where
  "broadcastLocked r = r\<lparr>rc_updates := Suc (rc_updates r)\<rparr>"

definition SetRate :: "int \<Rightarrow> float64 \<Rightarrow> RateController \<Rightarrow> RateController" where
  "SetRate now rate r = broadcastLocked (r\<lparr>rc_rate := sanitizeRate rate, rc_nextFire := Some now\<rparr>)"

definition AdjustRate :: "int \<Rightarrow> float64 \<Rightarrow> RateController \<Rightarrow> RateController" where
  "AdjustRate now delta r = broadcastLocked (r\<lparr>rc_rate := sanitizeRate (float_add (rc_rate r) delta), rc_nextFire := Some now\<rparr>)"

definition rc_Pause :: "RateController \<Rightarrow> RateController" where
  "rc_Pause r = broadcastLocked (r\<lparr>rc_paused := True\<rparr>)"

definition rc_Resume :: "int \<Rightarrow> RateController \<Rightarrow> RateController" where
  "rc_Resume now r = broadcastLocked (r\<lparr>rc_paused := False, rc_nextFire := Some now\<rparr>)"

definition rc_Stop :: "RateController \<Rightarrow> RateController" where
  "rc_Stop r = broadcastLocked (r\<lparr>rc_stopped := True\<rparr>)"

datatype rate_op = OpSetRate float64 | OpAdjustRate float64 | OpPause | OpResume | OpStop

fun apply_op :: "int \<Rightarrow> rate_op \<Rightarrow> RateController \<Rightarrow> RateController" where
  "apply_op now (OpSetRate rate) r = SetRate now rate r"
| "apply_op now (OpAdjustRate delta) r = AdjustRate now delta r"
| "apply_op now OpPause r = rc_Pause r"
| "apply_op now OpResume r = rc_Resume now r"
| "apply_op now OpStop r = rc_Stop r"

section \<open>Waiting for the next call\<close>

definition maxBurst :: int where "maxBurst = 10"

text \<open>The part of \<^verbatim>\<open>Wait\<close> under the mutex; \<open>t0\<close> and \<open>t1\<close> are the two readings of the clock.\<close>

definition advance :: "int \<Rightarrow> int \<Rightarrow> int \<Rightarrow> RateController \<Rightarrow> int \<times> RateController" where
  "advance period t0 t1 r =
     (let nextFire = (case rc_nextFire r of None \<Rightarrow> t0 | Some t \<Rightarrow> t);
          earliest = t1 + wrap64 (- maxBurst * period);
          target = (if nextFire < earliest then earliest else nextFire) + period
      in (target, r\<lparr>rc_nextFire := Some target\<rparr>))"

datatype wait_error = ErrStopped | CtxErr
datatype select = SelCtx | SelUpdate | SelTimer

text \<open>
  The clock moves on by \<open>we_delay\<close> between two readings; \<open>we_others\<close> are the operations of other goroutines since the
  mutex was last held, \<open>we_select\<close> the channel a \<^verbatim>\<open>select\<close> takes.
\<close>

record wait_env =
  we_delay :: "nat \<Rightarrow> nat"
  we_others :: "nat \<Rightarrow> rate_op list"
  we_select :: "nat \<Rightarrow> select"

record wait_state =
  ws_rc :: RateController
  ws_clock :: int
  ws_n :: nat

definition tick :: "wait_env \<Rightarrow> wait_state \<Rightarrow> wait_state" where
  "tick env s = s\<lparr>ws_clock := ws_clock s + int (we_delay env (ws_n s)), ws_n := Suc (ws_n s)\<rparr>"

definition others :: "wait_env \<Rightarrow> wait_state \<Rightarrow> wait_state" where
  "others env s = s\<lparr>ws_rc := fold (apply_op (ws_clock s)) (we_others env (ws_n s)) (ws_rc s), ws_n := Suc (ws_n s)\<rparr>"

definition next_select :: "wait_env \<Rightarrow> wait_state \<Rightarrow> select \<times> wait_state" where
  "next_select env s = (we_select env (ws_n s), s\<lparr>ws_n := Suc (ws_n s)\<rparr>)"

text \<open>A timer has run when the clock has reached its target.\<close>

definition timer_until :: "int \<Rightarrow> wait_state \<Rightarrow> wait_state" where
  "timer_until target s = s\<lparr>ws_clock := max (ws_clock s) target\<rparr>"

definition pace_turn :: "wait_env \<Rightarrow> wait_state \<Rightarrow> (wait_state + (wait_error, unit) result \<times> wait_state) option" where
  "pace_turn env s0 =
     (let s = others env s0; r = ws_rc s
      in if rc_stopped r then Some (Inr (Inl ErrStopped, s))
         else if rc_paused r then
           (case next_select env s of
              (SelCtx, s1) \<Rightarrow> Some (Inr (Inl CtxErr, s1))
            | (_, s1) \<Rightarrow> Some (Inl s1))
         else
           let period = rateToPeriod (rc_rate r);
               s1 = others env s;
               s2 = tick env s1;
               s3 = tick env s2;
               (target, r') = advance period (ws_clock s2) (ws_clock s3) (ws_rc s3);
               s4 = tick env (s3\<lparr>ws_rc := r'\<rparr>)
           in if target \<le> ws_clock s4 then Some (Inr (Inr (), s4))
              else
                (case next_select env s4 of
                   (SelCtx, s5) \<Rightarrow> Some (Inr (Inl CtxErr, s5))
                 | (SelUpdate, s5) \<Rightarrow> Some (Inl s5)
                 | (SelTimer, s5) \<Rightarrow> Some (Inr (Inr (), timer_until target s5))))"

definition rate_Wait :: "wait_env \<Rightarrow> wait_state \<Rightarrow> ((wait_error, unit) result \<times> wait_state) option" where
  "rate_Wait env s = iterate (pace_turn env) s"

text \<open>\<open>n\<close> calls of \<^verbatim>\<open>Wait\<close> that all succeed.\<close>

fun waits :: "wait_env \<Rightarrow> nat \<Rightarrow> wait_state \<Rightarrow> wait_state option" where
  "waits env 0 s = Some s"
| "waits env (Suc n) s =
     (case rate_Wait env s of Some (Inr _, s1) \<Rightarrow> waits env n s1 | _ \<Rightarrow> None)"

section \<open>The plain scheduler\<close>

text \<open>\<^verbatim>\<open>Real\<close> of \<^verbatim>\<open>scheduler.go\<close>: a sleep that the context may end, and the period of a ticker (\<open>None\<close> is the
closed channel).\<close>

definition sched_Sleep :: "select \<Rightarrow> int \<Rightarrow> (wait_error, unit) result" where
  "sched_Sleep sel d = (if d \<le> 0 then Inr () else case sel of SelCtx \<Rightarrow> Inl CtxErr | _ \<Rightarrow> Inr ())"

definition Interval :: "float64 \<Rightarrow> int option" where
  "Interval rate =
     (if float_le rate (Fin 0) then None
      else let period = float_to_int64 (float_div (float_of_int Second) rate)
           in Some (if period \<le> 0 then 1 else period))"

text \<open>The ticker and the rate controller agree on the period of every rate that is not sanitized.\<close>

lemma Interval_period: "Interval rate = (if float_le rate (Fin 0) then None else Some (rateToPeriod rate))"
  by (simp add: Interval_def rateToPeriod_def sanitizeRate_def Let_def)

section \<open>Bursts\<close>

text \<open>Nobody touches the controller, so the update channel is never closed.\<close>

definition quiet_env :: "wait_env \<Rightarrow> bool" where
  "quiet_env env \<longleftrightarrow> (\<forall>n. we_others env n = [] \<and> we_select env n \<noteq> SelUpdate)"

definition pace_ok :: "int \<Rightarrow> int \<Rightarrow> wait_state \<Rightarrow> bool" where
  "pace_ok p low s \<longleftrightarrow> rateToPeriod (rc_rate (ws_rc s)) = p \<and> (\<exists>f. rc_nextFire (ws_rc s) = Some f \<and> low \<le> f) \<and> low \<le> ws_clock s"

lemma rateToPeriod_pos: "0 < rateToPeriod rate"
  by (simp add: rateToPeriod_def Let_def)

lemma wrap64_small: "- (2 ^ 63) \<le> x \<Longrightarrow> x < 2 ^ 63 \<Longrightarrow> wrap64 x = x"
  by (simp add: wrap64_def)

lemma tick_frame [simp]: "ws_rc (tick env s) = ws_rc s" "ws_clock (tick env s) = ws_clock s + int (we_delay env (ws_n s))"
  by (simp_all add: tick_def)

lemma others_quiet: "quiet_env env \<Longrightarrow> others env s = s\<lparr>ws_n := Suc (ws_n s)\<rparr>"
  by (simp add: others_def quiet_env_def)

lemma advance_bounds:
  assumes "advance p t0 t1 r = (target, r')" and "10 * p < 2 ^ 63" and "0 < p"
  shows "t1 - 10 * p + p \<le> target" and "rc_nextFire r = Some f \<Longrightarrow> f + p \<le> target"
    and "rc_nextFire r' = Some target" and "rc_rate r' = rc_rate r"
  using assms by (auto simp: advance_def Let_def maxBurst_def wrap64_small split: if_splits)

text \<open>One turn: the target is a period after the last one and not before the burst window.\<close>

lemma quiet_turn:
  assumes "quiet_env env" and "10 * p < 2 ^ 63" and "rateToPeriod (rc_rate (ws_rc s)) = p"
    and "pace_turn env s = Some (Inr (Inr (), s'))" and "t \<le> ws_clock s"
  shows "pace_ok p (t - 10 * p + p) s'" and "rc_nextFire (ws_rc s) = Some f \<Longrightarrow> pace_ok p (f + p) s'" and "ws_clock s \<le> ws_clock s'"
proof -
  define s2 where "s2 = tick env (others env (others env s))"
  define s3 where "s3 = tick env s2"
  obtain target r' where adv: "advance p (ws_clock s2) (ws_clock s3) (ws_rc s) = (target, r')" by fastforce
  define s4 where "s4 = tick env (s3\<lparr>ws_rc := r'\<rparr>)"
  have rc: "ws_rc s2 = ws_rc s" "ws_rc s3 = ws_rc s" by (simp_all add: s3_def s2_def others_quiet [OF assms(1)])
  have clk: "ws_clock s \<le> ws_clock s3" "ws_clock s3 \<le> ws_clock s4"
    by (simp_all add: s4_def s3_def s2_def others_quiet [OF assms(1)])
  have p: "0 < p" using assms(3) rateToPeriod_pos by blast
  note bounds = advance_bounds [OF adv assms(2) p]
  have "ws_rc s' = r' \<and> max (ws_clock s4) target \<le> ws_clock s'"
    using assms(4) rc adv
    by (auto simp: pace_turn_def Let_def others_quiet [OF assms(1)] assms(3) next_select_def timer_until_def
        s2_def s3_def s4_def split: if_splits select.splits)
  with bounds clk assms(3,5) show "pace_ok p (t - 10 * p + p) s'" "ws_clock s \<le> ws_clock s'"
    and "rc_nextFire (ws_rc s) = Some f \<Longrightarrow> pace_ok p (f + p) s'"
    by (auto simp: pace_ok_def)
qed

text \<open>A paused controller nobody touches goes round and round; otherwise the first turn is the last.\<close>

lemma quiet_again:
  assumes "quiet_env env" and "pace_turn env s = Some (Inl s')"
  shows "ws_rc s' = ws_rc s" and "ws_clock s' = ws_clock s"
  using assms by (auto simp: pace_turn_def Let_def others_quiet next_select_def quiet_env_def
      split: if_splits select.splits prod.splits)

lemma quiet_Wait:
  assumes "quiet_env env" and "10 * p < 2 ^ 63" and "rateToPeriod (rc_rate (ws_rc s)) = p"
    and "rate_Wait env s = Some (Inr (), s')" and "t \<le> ws_clock s"
  shows "pace_ok p (t - 10 * p + p) s' \<and> (\<forall>f. rc_nextFire (ws_rc s) = Some f \<longrightarrow> pace_ok p (f + p) s') \<and> ws_clock s \<le> ws_clock s'"
proof -
  let ?Q = "\<lambda>(r, s'). r = (Inr () :: (wait_error, unit) result) \<longrightarrow> pace_ok p (t - 10 * p + p) s'
    \<and> (\<forall>f. rc_nextFire (ws_rc s) = Some f \<longrightarrow> pace_ok p (f + p) s') \<and> ws_clock s \<le> ws_clock s'"
  have "?Q (Inr (), s')"
  proof (rule iterate_rule [OF assms(4) [unfolded rate_Wait_def], where I = "\<lambda>u. ws_rc u = ws_rc s \<and> ws_clock u = ws_clock s"])
    fix u u' assume "ws_rc u = ws_rc s \<and> ws_clock u = ws_clock s" and "pace_turn env u = Some (Inl u')"
    with quiet_again [OF assms(1)] show "ws_rc u' = ws_rc s \<and> ws_clock u' = ws_clock s" by metis
  next
    fix u x assume u: "ws_rc u = ws_rc s \<and> ws_clock u = ws_clock s" and x: "pace_turn env u = Some (Inr x)"
    show "?Q x"
    proof (cases x)
      case (Pair r v)
      show ?thesis
      proof (cases "r = Inr ()")
        case True
        with x Pair have "pace_turn env u = Some (Inr (Inr (), v))" by simp
        from quiet_turn [OF assms(1,2) _ this] u assms(3,5) show ?thesis by (simp add: Pair)
      qed (simp add: Pair)
    qed
  qed simp
  then show ?thesis by simp
qed

lemma waits_from:
  assumes "quiet_env env" and "10 * p < 2 ^ 63" and "pace_ok p low s" and "waits env n s = Some s'"
  shows "low + int n * p \<le> ws_clock s'"
  using assms(3,4)
proof (induction n arbitrary: s low)
  case 0
  then show ?case by (simp add: pace_ok_def)
next
  case (Suc n)
  from Suc.prems(2) obtain s1 where s1: "rate_Wait env s = Some (Inr (), s1)" and rest: "waits env n s1 = Some s'"
    by (auto split: option.splits sum.splits)
  from Suc.prems(1) obtain f where f: "rateToPeriod (rc_rate (ws_rc s)) = p" "rc_nextFire (ws_rc s) = Some f" "low \<le> f"
    by (auto simp: pace_ok_def)
  have "pace_ok p (f + p) s1" using quiet_Wait [OF assms(1,2) f(1) s1 order_refl] f(2) by blast
  then have "pace_ok p (low + p) s1" using f(3) by (auto simp: pace_ok_def)
  from Suc.IH [OF this rest] show ?case by (simp add: algebra_simps)
qed

text \<open>
  C32: However long the caller was held up before, while the rate stays as it is \<open>n\<close> waits that succeed take
  at least \<open>n - 10\<close> periods: after a delay the controller catches up with a burst of at most ten calls and never
  exceeds the rate in the long run.  The bound on the period keeps ten periods below \<^verbatim>\<open>int64\<close>.
\<close>
theorem pace_bounded:
  assumes "quiet_env env" and "10 * rateToPeriod (rc_rate (ws_rc s)) < 2 ^ 63" and "waits env n s = Some s'"
  shows "(int n - 10) * rateToPeriod (rc_rate (ws_rc s)) \<le> ws_clock s' - ws_clock s"
proof (cases n)
  case 0
  with assms(3) rateToPeriod_pos [of "rc_rate (ws_rc s)"] show ?thesis by simp
next
  case (Suc k)
  define p where "p = rateToPeriod (rc_rate (ws_rc s))"
  from assms(3) Suc obtain s1 where s1: "rate_Wait env s = Some (Inr (), s1)" and rest: "waits env k s1 = Some s'"
    by (auto split: option.splits sum.splits)
  have "pace_ok p (ws_clock s - 10 * p + p) s1"
    using quiet_Wait [OF assms(1) assms(2) refl s1 order_refl] by (simp add: p_def)
  from waits_from [OF assms(1) _ this rest] assms(2) show ?thesis by (simp add: p_def Suc algebra_simps)
qed

text \<open>A controller that runs and is left alone lets every caller through.\<close>

lemma Wait_returns:
  assumes "quiet_env env" and "\<forall>n. we_select env n = SelTimer" and "\<not> rc_stopped (ws_rc s)" and "\<not> rc_paused (ws_rc s)"
  shows "\<exists>s'. rate_Wait env s = Some (Inr (), s') \<and> \<not> rc_stopped (ws_rc s') \<and> \<not> rc_paused (ws_rc s')"
  using assms
  by (auto simp: rate_Wait_def iterate.simps pace_turn_def Let_def others_quiet next_select_def timer_until_def advance_def
      case_prod_beta)

lemma waits_return:
  assumes "quiet_env env" and "\<forall>n. we_select env n = SelTimer" and "\<not> rc_stopped (ws_rc s)" and "\<not> rc_paused (ws_rc s)"
  shows "\<exists>s'. waits env n s = Some s'"
  using assms(3,4)
proof (induction n arbitrary: s)
  case (Suc n)
  obtain s1 where "rate_Wait env s = Some (Inr (), s1)" "\<not> rc_stopped (ws_rc s1)" "\<not> rc_paused (ws_rc s1)"
    using Wait_returns [OF assms(1,2) Suc.prems] by blast
  with Suc.IH [of s1] show ?case by simp
qed simp

definition sample_pace :: wait_env where
  "sample_pace = \<lparr>we_delay = (\<lambda>_. 0), we_others = (\<lambda>_. []), we_select = (\<lambda>_. SelTimer)\<rparr>"

definition sample_late :: wait_state where
  "sample_late = \<lparr>ws_rc = NewRateController 0 (Fin 2), ws_clock = 60 * Second, ws_n = 0\<rparr>"

lemma sample_period: "rateToPeriod (Fin 2) = 500000000"
proof -
  have one: "float_of_int Second = Fin (of_int (10 ^ 9))" unfolding float_of_int_def Second_def by (rule round64_int) simp
  have half: "(10 ^ 9 :: rat) / 2 = of_int 500000000" by simp
  have "round64 (of_int 500000000) = Fin (of_int 500000000)" by (rule round64_int) simp
  then have "float_div (float_of_int Second) (Fin 2) = Fin (of_int 500000000)" by (simp add: one half)
  then show ?thesis
    by (simp add: rateToPeriod_def sanitizeRate_def float_le_def float_eq_def rat_trunc_def int64_range_def)
qed

theorem pace_bounded_witness:
  "\<exists>s'. waits sample_pace 12 sample_late = Some s' \<and> Second \<le> ws_clock s' - ws_clock sample_late"
proof -
  have q: "quiet_env sample_pace" "\<forall>n. we_select sample_pace n = SelTimer" by (simp_all add: quiet_env_def sample_pace_def)
  have rate: "rc_rate (ws_rc sample_late) = Fin 2"
    by (simp add: sample_late_def NewRateController_def sanitizeRate_def float_le_def float_eq_def)
  obtain s' where s': "waits sample_pace 12 sample_late = Some s'"
    using waits_return [OF q, of sample_late 12] by (auto simp: sample_late_def NewRateController_def)
  with pace_bounded [OF q(1) _ s'] show ?thesis by (simp add: rate sample_period Second_def)
qed

end
