(* ===== verification/Client.thy ===== *)
theory Client
  imports Pacing Outgoing
begin

text \<open>
  The client side of \<^verbatim>\<open>internal/engine/engine.go\<close>: the choice of the run loop, the concurrency limit, the loop that
  starts the calls (the same in \<^verbatim>\<open>runClientShared\<close>, \<^verbatim>\<open>runClientPerCall\<close> and their variants), the rate ramp, and the
  identifiers a call gets.
\<close>

section \<open>Limits\<close>

record client_config =
  cc_UnlimitedCalls :: bool
  cc_TotalCalls :: int
  cc_MaxConcurrent :: int
  cc_MaxSockets :: int
  cc_RemoteHost :: string
  cc_RemotePort :: int
  cc_Transport :: string
  cc_LocalIP :: string
  cc_UISourceIPs :: "string list"
  cc_RateMax :: float64
  cc_RateIncrease :: float64

definition callConcurrencyLimit :: "client_config \<Rightarrow> bool \<Rightarrow> int" where
  "callConcurrencyLimit cfg perCallSocket =
     (let limit = (if cc_MaxConcurrent cfg \<le> 0 then 1 else cc_MaxConcurrent cfg)
      in if perCallSocket \<and> 0 < cc_MaxSockets cfg \<and> cc_MaxSockets cfg < limit then cc_MaxSockets cfg else limit)"

text \<open>The value stored for the user and the size given to the semaphore.\<close>

definition SetMaxConcurrent :: "client_config \<Rightarrow> bool \<Rightarrow> int \<Rightarrow> int \<times> int" where
  "SetMaxConcurrent cfg perSocketMode n0 =
     (let n = (if n0 < 1 then 1 else n0)
      in (n, if perSocketMode \<and> 0 < cc_MaxSockets cfg \<and> cc_MaxSockets cfg < n then cc_MaxSockets cfg else n))"

definition clientShouldSpawnAnother :: "client_config \<Rightarrow> int \<Rightarrow> bool" where
  "clientShouldSpawnAnother cfg callIndex \<longleftrightarrow> (if cc_UnlimitedCalls cfg then True else callIndex \<le> cc_TotalCalls cfg)"

definition dispatchWorkers :: "int \<Rightarrow> int" where
  "dispatchWorkers n = (if n < 2 then 2 else if 8 < n then 8 else n)"

text \<open>Go's remainder has the sign of the dividend; call numbers start at one.\<close>

definition sourceIPForCall :: "client_config \<Rightarrow> int \<Rightarrow> string" where
  "sourceIPForCall cfg callNumber =
     (if cc_UISourceIPs cfg = [] then cc_LocalIP cfg
      else cc_UISourceIPs cfg ! nat ((callNumber - 1) mod int (length (cc_UISourceIPs cfg))))"

lemma limits_positive: "1 \<le> callConcurrencyLimit cfg b" "1 \<le> snd (SetMaxConcurrent cfg b n)"
  by (simp_all add: callConcurrencyLimit_def SetMaxConcurrent_def Let_def)

text \<open>Resizing to the configured maximum at run time gives the limit the run started with.\<close>

lemma SetMaxConcurrent_initial:
  "1 \<le> cc_MaxConcurrent cfg \<Longrightarrow> snd (SetMaxConcurrent cfg b (cc_MaxConcurrent cfg)) = callConcurrencyLimit cfg b"
  by (simp add: callConcurrencyLimit_def SetMaxConcurrent_def Let_def)

section \<open>The loop that starts the calls\<close>

definition scenarioNeedsSIPTransport :: "Scenario \<Rightarrow> bool" where
  "scenarioNeedsSIPTransport sc \<longleftrightarrow> list_ex (\<lambda>cmd. c_Type cmd = CommandSend \<or> c_Type cmd = CommandRecv) (s_Commands sc)"

datatype runner =
    CommandOnly | Shared | PerCall | PerSourceIP | SharedTCP | PerCallTCP | SharedTLS | PerCallTLS
  | SharedWS | PerCallWS | SharedWSS | PerCallWSS

datatype client_error = NoRemote | UnsupportedTransport string

definition runners :: "(string \<times> runner) list" where
  "runners = [(''u1'', Shared), (''un'', PerCall), (''ui'', PerSourceIP), (''t1'', SharedTCP), (''tn'', PerCallTCP),
     (''l1'', SharedTLS), (''ln'', PerCallTLS), (''w1'', SharedWS), (''wn'', PerCallWS), (''ws1'', SharedWSS), (''wsn'', PerCallWSS)]"

definition runClient :: "client_config \<Rightarrow> Scenario \<Rightarrow> (client_error, runner) result" where
  "runClient cfg sc =
     (if \<not> scenarioNeedsSIPTransport sc then Inr CommandOnly
      else if cc_RemoteHost cfg = [] \<or> cc_RemotePort cfg = 0 then Inl NoRemote
      else case map_of runners (cc_Transport cfg) of
             Some r \<Rightarrow> Inr r
           | None \<Rightarrow> Inl (UnsupportedTransport (cc_Transport cfg)))"

text \<open>
  One turn: \<open>wait\<close> is the answer of \<^verbatim>\<open>waitForNextCall\<close> and \<open>acquire\<close> that of the semaphore.  The state is the loop
  variable and the calls started; the result is the error the run returns at once with, if any.
\<close>

definition spawn_turn ::
  "client_config \<Rightarrow> (int \<Rightarrow> (wait_error, unit) result) \<Rightarrow> (int \<Rightarrow> (wait_error, unit) result) \<Rightarrow> int \<times> int list
     \<Rightarrow> ((int \<times> int list) + (wait_error option \<times> int list)) option" where
  "spawn_turn cfg wait acquire p =
     (case p of (i, started) \<Rightarrow>
        if \<not> clientShouldSpawnAnother cfg i then Some (Inr (None, started))
        else
          (case wait i of
             Inl ErrStopped \<Rightarrow> Some (Inr (None, started))
           | Inl e \<Rightarrow> Some (Inr (Some e, started))
           | Inr _ \<Rightarrow>
               (case acquire i of
                  Inl e \<Rightarrow> Some (Inr (Some e, started))
                | Inr _ \<Rightarrow> Some (Inl (i + 1, started @ [i])))))"

definition spawn_loop ::
  "client_config \<Rightarrow> (int \<Rightarrow> (wait_error, unit) result) \<Rightarrow> (int \<Rightarrow> (wait_error, unit) result)
     \<Rightarrow> (wait_error option \<times> int list) option" where
  "spawn_loop cfg wait acquire = iterate (spawn_turn cfg wait acquire) (1, [])"

definition spawn_inv :: "client_config \<Rightarrow> int \<times> int list \<Rightarrow> bool" where
  "spawn_inv cfg p \<longleftrightarrow> 1 \<le> fst p \<and> snd p = [1..fst p - 1] \<and> (\<not> cc_UnlimitedCalls cfg \<longrightarrow> fst p \<le> max 0 (cc_TotalCalls cfg) + 1)"

lemma spawn_turn_inv:
  assumes "spawn_inv cfg p" and "spawn_turn cfg wait acquire p = Some (Inl p')"
  shows "spawn_inv cfg p'" and "fst p' = fst p + 1" and "\<not> cc_UnlimitedCalls cfg \<Longrightarrow> fst p \<le> cc_TotalCalls cfg"
  using assms upto_rec2 [of 1 "fst p"]
  by (auto simp: spawn_turn_def spawn_inv_def clientShouldSpawnAnother_def split: prod.splits if_splits sum.splits wait_error.splits)

lemma spawn_turn_last:
  assumes "spawn_inv cfg p" and "spawn_turn cfg wait acquire p = Some (Inr x)"
  shows "snd x = snd p" and "fst x = None \<Longrightarrow> \<forall>i. wait i \<noteq> Inl ErrStopped \<Longrightarrow> \<not> cc_UnlimitedCalls cfg \<and> cc_TotalCalls cfg < fst p"
  using assms
  by (auto simp: spawn_turn_def clientShouldSpawnAnother_def split: prod.splits if_splits sum.splits wait_error.splits)

lemma spawn_turn_total: "\<exists>x. spawn_turn cfg wait acquire p = Some x"
  by (simp add: spawn_turn_def split: prod.split sum.split wait_error.split)

text \<open>
  C33: A client run with a limit ends its loop whatever the rate controller and the semaphore answer.  It
  has then started the calls \<open>1, 2, \<dots>\<close> without a gap, at most \<^verbatim>\<open>TotalCalls\<close> of them, and all of them when neither
  an error nor a stop came in between.
\<close>
theorem client_calls:
  assumes "\<not> cc_UnlimitedCalls cfg"
  shows "\<exists>err k. spawn_loop cfg wait acquire = Some (err, [1..k]) \<and> 0 \<le> k \<and> k \<le> max 0 (cc_TotalCalls cfg)
    \<and> (err = None \<longrightarrow> (\<forall>i. wait i \<noteq> Inl ErrStopped) \<longrightarrow> k = max 0 (cc_TotalCalls cfg))"
proof -
  have init: "spawn_inv cfg (1, [])" by (simp add: spawn_inv_def)
  have "\<exists>r. spawn_loop cfg wait acquire = Some r"
    unfolding spawn_loop_def
  proof (rule iterate_returns [where I = "spawn_inv cfg" and m = "\<lambda>p. nat (max 0 (cc_TotalCalls cfg) + 2 - fst p)"])
    fix p assume p: "spawn_inv cfg p"
    obtain x where x: "spawn_turn cfg wait acquire p = Some x" using spawn_turn_total by blast
    with spawn_turn_inv [OF p] assms show "\<exists>x. spawn_turn cfg wait acquire p = Some x \<and> (\<forall>p'. x = Inl p' \<longrightarrow> spawn_inv cfg p'
        \<and> nat (max 0 (cc_TotalCalls cfg) + 2 - fst p') < nat (max 0 (cc_TotalCalls cfg) + 2 - fst p))" by fastforce
  qed (rule init)
  then obtain r where r: "spawn_loop cfg wait acquire = Some r" by blast
  let ?Q = "\<lambda>r. \<exists>k. snd r = [1..k] \<and> 0 \<le> k \<and> k \<le> max 0 (cc_TotalCalls cfg)
    \<and> (fst r = None \<longrightarrow> (\<forall>i. wait i \<noteq> Inl ErrStopped) \<longrightarrow> k = max 0 (cc_TotalCalls cfg))"
  have "?Q r"
  proof (rule iterate_rule [OF r [unfolded spawn_loop_def], where I = "spawn_inv cfg"])
    show "spawn_inv cfg (1, [])" by (rule init)
  next
    fix p p' assume "spawn_inv cfg p" "spawn_turn cfg wait acquire p = Some (Inl p')"
    then show "spawn_inv cfg p'" by (rule spawn_turn_inv(1))
  next
    fix p x assume p: "spawn_inv cfg p" and x: "spawn_turn cfg wait acquire p = Some (Inr x)"
    from p assms spawn_turn_last [OF p x] show "?Q x"
      by (intro exI [of _ "fst p - 1"]) (auto simp: spawn_inv_def)
  qed
  with r show ?thesis by (cases r) auto
qed

definition sample_client :: client_config where
  "sample_client = \<lparr>cc_UnlimitedCalls = False, cc_TotalCalls = 3, cc_MaxConcurrent = 10, cc_MaxSockets = 0, cc_RemoteHost = ''h'',
     cc_RemotePort = 5060, cc_Transport = ''u1'', cc_LocalIP = [], cc_UISourceIPs = [], cc_RateMax = Fin 0, cc_RateIncrease = Fin 0\<rparr>"

theorem client_calls_witness:
  "\<exists>err k. spawn_loop sample_client (\<lambda>_. Inr ()) (\<lambda>i. if i < 3 then Inr () else Inl CtxErr) = Some (err, [1..k]) \<and> k \<le> 3"
  using client_calls [of sample_client "\<lambda>_. Inr ()" "\<lambda>i. if i < 3 then Inr () else Inl CtxErr"]
  by (auto simp: sample_client_def)

section \<open>The rate ramp\<close>

text \<open>A tick of \<^verbatim>\<open>startRateRampLoop\<close>; the flag says that the ramp goes on.\<close>

definition ramp_tick :: "client_config \<Rightarrow> int \<Rightarrow> RateController \<Rightarrow> bool \<times> RateController" where
  "ramp_tick cfg now r =
     (let r1 = AdjustRate now (cc_RateIncrease cfg) r; next = rc_rate r1
      in if float_lt (Fin 0) (cc_RateMax cfg) \<and> float_lt (cc_RateMax cfg) next
         then (False, SetRate now (cc_RateMax cfg) r1) else (True, r1))"

text \<open>After a tick a limited rate is not above its maximum.\<close>

lemma ramp_tick_max:
  assumes "float_lt (Fin 0) (cc_RateMax cfg)" and "ramp_tick cfg now r = (goes_on, r')"
  shows "\<not> float_lt (cc_RateMax cfg) (rc_rate r')"
proof -
  obtain m where "cc_RateMax cfg = Fin m \<or> cc_RateMax cfg = FInf False" using assms(1) by (cases "cc_RateMax cfg") auto
  then show ?thesis
    using assms
    by (auto simp: ramp_tick_def Let_def SetRate_def AdjustRate_def broadcastLocked_def sanitizeRate_def float_le_def
        float_eq_def split: if_splits)
qed

section \<open>Identifiers\<close>

fun hex_digits :: "nat \<Rightarrow> string" where
  "hex_digits n = (if n < 16 then [hex_digit n] else hex_digits (n div 16) @ [hex_digit (n mod 16)])"

declare hex_digits.simps [simp del]

text \<open>\<open>seq\<close> is the new value of the counter and \<open>now\<close> the clock in nanoseconds.\<close>

definition newCallID :: "int \<Rightarrow> nat \<Rightarrow> int \<Rightarrow> string" where
  "newCallID callNumber seq now =
     ''gossip-'' @ strconv_Itoa callNumber @ ''-'' @ hex_digits seq @ ''-'' @ hex_digits (nat (now mod 2 ^ 32))"

text \<open>The identifier and the stored counter.\<close>

definition nextDynamicID :: "int \<Rightarrow> int \<times> int" where
  "nextDynamicID counter =
     (let i = wrap64 (counter + 1) in if MaxInt32 < i then (0, 0) else (i, i))"

lemma nextDynamicID_range:
  "0 \<le> c \<Longrightarrow> c \<le> MaxInt32 \<Longrightarrow> 0 \<le> fst (nextDynamicID c) \<and> fst (nextDynamicID c) \<le> MaxInt32 \<and> snd (nextDynamicID c) = fst (nextDynamicID c)"
  by (auto simp: nextDynamicID_def Let_def MaxInt32_def wrap64_small)

lemma hex_digits_set: "set (hex_digits n) \<subseteq> hex_digit ` {..<16}"
proof (induction n rule: hex_digits.induct)
  case (1 n)
  then show ?case by (cases "n < 16") (simp_all add: hex_digits.simps [of n])
qed

lemma hex_digits_dash: "CHR ''-'' \<notin> set (hex_digits n)"
proof -
  have "hex_digit d \<noteq> CHR ''-''" if "d < 16" for d
  proof -
    have "hex_digit d \<in> set ''0123456789abcdef''" unfolding hex_digit_def by (rule nth_mem) (use that in simp)
    then show ?thesis by auto
  qed
  then show ?thesis using hex_digits_set [of n] by fastforce
qed

lemma hex_digit_inj: "a < 16 \<Longrightarrow> b < 16 \<Longrightarrow> hex_digit a = hex_digit b \<Longrightarrow> a = b"
  unfolding hex_digit_def by (subst (asm) nth_eq_iff_index_eq) simp_all

lemma hex_digits_nonempty [simp]: "hex_digits n \<noteq> []" "[] \<noteq> hex_digits n"
  by (simp_all add: hex_digits.simps)

lemma hex_digits_inj: "hex_digits a = hex_digits b \<Longrightarrow> a = b"
proof (induction a arbitrary: b rule: hex_digits.induct)
  case (1 a)
  consider "a < 16" "b < 16" | "a < 16" "16 \<le> b" | "16 \<le> a" "b < 16" | "16 \<le> a" "16 \<le> b" by linarith
  then show ?case
  proof cases
    case 4
    with 1 have "hex_digits (a div 16) = hex_digits (b div 16)" "hex_digit (a mod 16) = hex_digit (b mod 16)"
      by (simp_all add: hex_digits.simps [of a] hex_digits.simps [of b])
    with 1(1) 4 have "a div 16 = b div 16" "a mod 16 = b mod 16" by (auto intro: hex_digit_inj)
    then show ?thesis by (metis div_mult_mod_eq)
  qed (use 1 in \<open>auto simp: hex_digits.simps [of a] hex_digits.simps [of b] dest: hex_digit_inj\<close>)
qed

lemma split_at:
  "a @ x # b = a' @ x # b' \<Longrightarrow> x \<notin> set a \<Longrightarrow> x \<notin> set a' \<Longrightarrow> a = a' \<and> b = b'"
proof (induction a arbitrary: a')
  case Nil
  then show ?case by (cases a') auto
next
  case (Cons y a)
  then show ?case by (cases a') auto
qed

lemma Itoa_dash: "0 \<le> i \<Longrightarrow> CHR ''-'' \<notin> set (strconv_Itoa i)"
  using nat_digits_set [of "CHR ''-''" "nat i"] by (auto simp: strconv_Itoa_def)

lemma Itoa_inj: "0 \<le> i \<Longrightarrow> 0 \<le> j \<Longrightarrow> strconv_Itoa i = strconv_Itoa j \<Longrightarrow> i = j"
proof -
  assume "0 \<le> i" "0 \<le> j" "strconv_Itoa i = strconv_Itoa j"
  then have "nat_digits (nat i) = nat_digits (nat j)" by (simp add: strconv_Itoa_def)
  then have "Some (nat i) = Some (nat j)" by (metis digits_val_nat_digits)
  with \<open>0 \<le> i\<close> \<open>0 \<le> j\<close> show "i = j" by simp
qed

text \<open>Two calls of a run never get the same Call-ID, whatever the clock says.\<close>

lemma newCallID_unique:
  assumes "newCallID n seq now = newCallID n' seq' now'" and "0 \<le> n" and "0 \<le> n'"
  shows "n = n' \<and> seq = seq'"
proof -
  define t t' where "t = hex_digits (nat (now mod 2 ^ 32))" and "t' = hex_digits (nat (now' mod 2 ^ 32))"
  from assms(1) have "strconv_Itoa n @ CHR ''-'' # hex_digits seq @ CHR ''-'' # t = strconv_Itoa n' @ CHR ''-'' # hex_digits seq' @ CHR ''-'' # t'"
    by (simp only: newCallID_def t_def t'_def append.simps same_append_eq append_assoc list.inject simp_thms)
  from split_at [OF this Itoa_dash [OF assms(2)] Itoa_dash [OF assms(3)]] have num: "strconv_Itoa n = strconv_Itoa n'"
    and rest: "hex_digits seq @ CHR ''-'' # t = hex_digits seq' @ CHR ''-'' # t'" by simp_all
  from split_at [OF rest hex_digits_dash hex_digits_dash] have "hex_digits seq = hex_digits seq'" by simp
  with Itoa_inj [OF assms(2,3) num] hex_digits_inj show ?thesis by blast
qed

end
