(* ===== verification/Recording.thy ===== *)
theory Recording
  imports Bytes SafePath "HOL-Library.Word"
begin

text \<open>
  Recording calls, \<^verbatim>\<open>internal/media\<close>: decoding G.711 (\<^verbatim>\<open>g711_decode.go\<close>), putting received frames in order
  (\<^verbatim>\<open>record_reorder.go\<close>), starting and stopping a recording (\<^verbatim>\<open>record.go\<close>, \<^verbatim>\<open>g711_recorder.go\<close>), writing WAV files
  (\<^verbatim>\<open>wav_write.go\<close>) and building telephone events (\<^verbatim>\<open>dtmf.go\<close>).  Samples are \<^verbatim>\<open>int16\<close>, payload bytes \<^verbatim>\<open>uint8\<close>;
  marshalling an RTP packet is the package \<^verbatim>\<open>pion/rtp\<close> and a parameter.
\<close>

unbundle bit_operations_syntax

type_synonym sample = "16 word"
type_synonym byte = "8 word"

section \<open>G.711\<close>

definition muLawSampleToLinear :: "byte \<Rightarrow> sample" where
  "muLawSampleToLinear b0 =
     (let b = NOT b0;
          exponent = drop_bit 4 b AND 7;
          mantissa = ucast (b AND 15) :: sample;
          sample = push_bit (unat exponent + 2) (push_bit 1 mantissa + 33) - 33
      in if b AND 128 \<noteq> 0 then - sample else sample)"

definition aLawSampleToLinear :: "byte \<Rightarrow> sample" where
  "aLawSampleToLinear b0 =
     (let b = b0 XOR 0x55;
          t = push_bit 4 (ucast (b AND 15)) :: sample;
          seg = unat (drop_bit 4 (b AND 0x70));
          t' = (if seg = 0 then t + 8 else if seg = 1 then t + 0x108 else push_bit (seg - 1) (t + 0x108))
      in if b AND 128 = 0 then t' else - t')"

definition decodeG711PayloadToPCM16 :: "byte \<Rightarrow> byte list \<Rightarrow> sample list" where
  "decodeG711PayloadToPCM16 pt payload =
     (if pt = 0 then map muLawSampleToLinear payload else if pt = 8 then map aLawSampleToLinear payload else [])"

definition pcmFromCodecPayload :: "string \<Rightarrow> byte list \<Rightarrow> sample list" where
  "pcmFromCodecPayload codec payload = decodeG711PayloadToPCM16 (if strings_EqualFold codec ''PCMA'' then 8 else 0) payload"

section \<open>Frames of a packet\<close>

record rtp_packet =
  rp_PayloadType :: byte
  rp_SequenceNumber :: "16 word"
  rp_Timestamp :: "32 word"
  rp_SSRC :: "32 word"
  rp_Marker :: bool
  rp_Payload :: "byte list"

definition rfc2833SilenceSamples :: "byte list \<Rightarrow> nat" where
  "rfc2833SilenceSamples payload =
     (if length payload < 4 then 0
      else let dur = unat (payload ! 2) * 256 + unat (payload ! 3) in if dur = 0 \<or> 8000 * 10 < dur then 0 else dur)"

definition pcmFromOutboundPayload :: "byte \<Rightarrow> byte list \<Rightarrow> sample list" where
  "pcmFromOutboundPayload pt payload =
     (if payload = [] then []
      else
        let samples = decodeG711PayloadToPCM16 pt payload; n = rfc2833SilenceSamples payload
        in if samples \<noteq> [] then samples
           else if 0 < n then replicate (min n (8000 * 3)) 0
           else replicate 160 0)"

definition pcmFromInboundRTP :: "rtp_packet \<Rightarrow> sample list" where
  "pcmFromInboundRTP pkt = pcmFromOutboundPayload (rp_PayloadType pkt) (rp_Payload pkt)"

section \<open>Putting frames in order\<close>

type_synonym frame = "16 word \<times> sample list"

record recording =
  re_running :: bool
  re_on :: bool
  re_path :: string
  re_duplex :: bool
  re_recv :: "sample list"
  re_sent :: "sample list"
  re_buf :: "frame list"
  re_have :: bool
  re_next :: "16 word"

definition resetRecordReorder :: "recording \<Rightarrow> recording" where
  "resetRecordReorder s = s\<lparr>re_buf := [], re_have := False, re_next := 0\<rparr>"

fun take_seq :: "16 word \<Rightarrow> frame list \<Rightarrow> (sample list \<times> frame list) option" where
  "take_seq n [] = None"
| "take_seq n (f # fs) =
     (if fst f = n then Some (snd f, fs)
      else case take_seq n fs of None \<Rightarrow> None | Some (pcm, rest) \<Rightarrow> Some (pcm, f # rest))"

lemma take_seq_length: "take_seq n fs = Some (pcm, rest) \<Longrightarrow> length rest < length fs"
  by (induction fs arbitrary: rest) (auto split: if_splits option.splits)

function drainRecordBufHead :: "recording \<Rightarrow> recording" where
  "drainRecordBufHead s =
     (case take_seq (re_next s) (re_buf s) of
        None \<Rightarrow> s
      | Some (pcm, rest) \<Rightarrow>
          drainRecordBufHead (s\<lparr>re_recv := re_recv s @ pcm, re_buf := rest, re_next := re_next s + 1\<rparr>))"
  by pat_completeness auto
termination by (relation "measure (\<lambda>s. length (re_buf s))") (auto dest: take_seq_length)

declare drainRecordBufHead.simps [simp del]

fun replace_seq :: "16 word \<Rightarrow> sample list \<Rightarrow> frame list \<Rightarrow> frame list" where
  "replace_seq n pcm [] = []"
| "replace_seq n pcm (f # fs) = (if fst f = n then (n, pcm) # fs else f # replace_seq n pcm fs)"

text \<open>The order of \<^verbatim>\<open>sort.Slice\<close> is determined because the numbers in the buffer are distinct.\<close>

definition flush_buf :: "recording \<Rightarrow> recording" where
  "flush_buf s =
     (let sorted = sort_key fst (re_buf s)
      in s\<lparr>re_recv := re_recv s @ concat (map snd sorted), re_buf := [], re_next := fst (last sorted) + 1, re_have := True\<rparr>)"

definition pushRecordPCM :: "16 word \<Rightarrow> sample list \<Rightarrow> recording \<Rightarrow> recording" where
  "pushRecordPCM n pcm s =
     (if n = re_next s then drainRecordBufHead (s\<lparr>re_recv := re_recv s @ pcm, re_next := re_next s + 1\<rparr>)
      else if n \<in> fst ` set (re_buf s) then s\<lparr>re_buf := replace_seq n pcm (re_buf s)\<rparr>
      else
        let s1 = s\<lparr>re_buf := re_buf s @ [(n, pcm)]\<rparr>
        in if 48 < length (re_buf s1) then flush_buf s1 else s1)"

definition appendRecordInboundWithJitter :: "rtp_packet \<Rightarrow> recording \<Rightarrow> recording" where
  "appendRecordInboundWithJitter pkt s =
     (if \<not> re_on s then s
      else
        let pcm = pcmFromInboundRTP pkt
        in if pcm = [] then s
           else pushRecordPCM (rp_SequenceNumber pkt) pcm
             (if re_have s then s else s\<lparr>re_next := rp_SequenceNumber pkt, re_have := True\<rparr>))"

definition appendRecordOutbound :: "byte \<Rightarrow> byte list \<Rightarrow> recording \<Rightarrow> recording" where
  "appendRecordOutbound pt payload s =
     (if \<not> re_on s \<or> \<not> re_duplex s then s else s\<lparr>re_sent := re_sent s @ pcmFromOutboundPayload pt payload\<rparr>)"

section \<open>WAV files\<close>

datatype wav_error = BadChannels nat | OddSamples nat nat | WavIO

definition sample_bytes :: "sample \<Rightarrow> string" where
  "sample_bytes v = le_bytes 2 (unat v)"

definition writeWAVPCM16LE :: "nat \<Rightarrow> nat \<Rightarrow> sample list \<Rightarrow> (wav_error, string) result" where
  "writeWAVPCM16LE sampleRate channels samples =
     (if channels \<noteq> 1 \<and> channels \<noteq> 2 then Inl (BadChannels channels)
      else if length samples mod channels \<noteq> 0 then Inl (OddSamples (length samples) channels)
      else
        let dataBytes = length samples * 2
        in Inr (''RIFF'' @ le_bytes 4 (36 + dataBytes) @ ''WAVEfmt '' @ le_bytes 4 16 @ le_bytes 2 1 @ le_bytes 2 channels
             @ le_bytes 4 sampleRate @ le_bytes 4 (sampleRate * channels * 2) @ le_bytes 2 (channels * 2) @ le_bytes 2 16
             @ ''data'' @ le_bytes 4 dataBytes @ concat (map sample_bytes samples)))"

definition sample_at :: "sample list \<Rightarrow> nat \<Rightarrow> sample" where
  "sample_at xs i = (if i < length xs then xs ! i else 0)"

definition stereo :: "sample list \<Rightarrow> sample list \<Rightarrow> sample list" where
  "stereo sent recv = concat (map (\<lambda>i. [sample_at sent i, sample_at recv i]) [0..<max (length recv) (length sent)])"

section \<open>Starting and stopping\<close>

text \<open>What stopping does to the file system: nothing, remove the file, or write the bytes or fail to build them.\<close>

datatype stop_effect = NoFile | RemoveFile string | WriteFile string "(wav_error, string) result"

definition stopRecordingLocked :: "recording \<Rightarrow> stop_effect \<times> recording" where
  "stopRecordingLocked s =
     (if \<not> re_on s \<and> re_path s = [] then (NoFile, s)
      else
        let path = re_path s; recv = re_recv s; sent = re_sent s;
            s1 = resetRecordReorder (s\<lparr>re_on := False, re_path := [], re_recv := [], re_sent := []\<rparr>)
        in if path = [] then (NoFile, s1)
           else if recv = [] \<and> (\<not> re_duplex s \<or> sent = []) then (RemoveFile path, s1)
           else if re_duplex s then (WriteFile path (writeWAVPCM16LE 8000 2 (stereo sent recv)), s1)
           else (WriteFile path (writeWAVPCM16LE 8000 1 recv), s1))"

definition ResolvePath :: "string \<Rightarrow> string \<Rightarrow> string" where
  "ResolvePath basePath name = (if filepath_IsAbs name \<or> basePath = [] then name else filepath_Join [basePath, name])"

datatype record_error = NoSession | MkdirFailed | EmptySpec | BadSpec string | NoPath | EmptyPath

text \<open>\<open>mkdir\<close> answers whether the directory of the file exists or could be made; a recording in progress is stopped first.\<close>

definition StartRecording ::
  "(string \<Rightarrow> bool) \<Rightarrow> string \<Rightarrow> bool \<Rightarrow> string \<Rightarrow> recording \<Rightarrow> stop_effect \<times> (record_error, unit) result \<times> recording" where
  "StartRecording mkdir path0 duplex basePath s =
     (if \<not> re_running s then (NoFile, Inl NoSession, s)
      else
        let (effect, s1) = (if re_on s then stopRecordingLocked s else (NoFile, s));
            path = ResolvePath basePath path0
        in if \<not> mkdir path then (effect, Inl MkdirFailed, s1)
           else (effect, Inr (), resetRecordReorder
             (s1\<lparr>re_path := path, re_duplex := duplex, re_recv := [], re_sent := []\<rparr>)\<lparr>re_on := True\<rparr>))"

datatype record_spec = SpecStop | SpecStart string bool

definition ParseRTPRecordSpec :: "string \<Rightarrow> (record_error, record_spec) result" where
  "ParseRTPRecordSpec spec0 =
     (let spec = strings_TrimSpace (strings_ToLower spec0)
      in if spec = [] then Inl EmptySpec
         else if spec = ''stop'' then Inr SpecStop
         else if \<not> strings_HasPrefix spec ''start,'' then Inl (BadSpec spec)
         else
           let rest = strings_TrimSpace (drop 6 spec)
           in if rest = [] then Inl NoPath
              else
                let parts = strings_Split rest '',''; path = strings_TrimSpace (hd parts)
                in if path = [] then Inl EmptyPath
                   else Inr (SpecStart path (2 \<le> length parts \<and> strings_TrimSpace (strings_ToLower (parts ! 1)) = ''duplex'')))"

section \<open>The recorder of the WebRTC bridge\<close>

record G711WAVRecorder =
  gw_on :: bool
  gw_path :: string
  gw_duplex :: bool
  gw_recv :: "sample list"
  gw_sent :: "sample list"

definition gw_stopLocked :: "G711WAVRecorder \<Rightarrow> stop_effect \<times> G711WAVRecorder" where
  "gw_stopLocked r =
     (if \<not> gw_on r \<and> gw_path r = [] then (NoFile, r)
      else
        let path = gw_path r; recv = gw_recv r; sent = gw_sent r;
            r1 = r\<lparr>gw_on := False, gw_path := [], gw_recv := [], gw_sent := []\<rparr>
        in if path = [] then (NoFile, r1)
           else if recv = [] \<and> (\<not> gw_duplex r \<or> sent = []) then (RemoveFile path, r1)
           else if gw_duplex r then (WriteFile path (writeWAVPCM16LE 8000 2 (stereo sent recv)), r1)
           else (WriteFile path (writeWAVPCM16LE 8000 1 recv), r1))"

definition gw_StartRecording ::
  "(string \<Rightarrow> bool) \<Rightarrow> string \<Rightarrow> bool \<Rightarrow> string \<Rightarrow> G711WAVRecorder \<Rightarrow> stop_effect \<times> (record_error, unit) result \<times> G711WAVRecorder" where
  "gw_StartRecording mkdir path0 duplex basePath r =
     (let (effect, r1) = (if gw_on r then gw_stopLocked r else (NoFile, r));
          path = ResolvePath basePath path0
      in if \<not> mkdir path then (effect, Inl MkdirFailed, r1)
         else (effect, Inr (), r1\<lparr>gw_path := path, gw_duplex := duplex, gw_recv := [], gw_sent := [], gw_on := True\<rparr>))"

definition AppendReceived :: "byte list \<Rightarrow> string \<Rightarrow> G711WAVRecorder \<Rightarrow> G711WAVRecorder" where
  "AppendReceived payload codec r =
     (if \<not> gw_on r \<or> payload = [] then r else r\<lparr>gw_recv := gw_recv r @ pcmFromCodecPayload codec payload\<rparr>)"

definition AppendSent :: "byte list \<Rightarrow> string \<Rightarrow> G711WAVRecorder \<Rightarrow> G711WAVRecorder" where
  "AppendSent payload codec r =
     (if \<not> gw_on r \<or> \<not> gw_duplex r \<or> payload = [] then r
      else r\<lparr>gw_sent := gw_sent r @ pcmFromCodecPayload codec payload\<rparr>)"

section \<open>Telephone events\<close>

definition digitToEvent :: "(char \<times> byte) list" where
  "digitToEvent = zip ''0123456789*#'' (map of_nat [0..<12]) @ zip ''aAbBcCdD'' [12, 12, 13, 13, 14, 14, 15, 15]"

text \<open>Packet \<open>i\<close> of a digit with the duration so far; the sequence number and the timestamp advance with each.\<close>

definition dtmf_packet :: "byte \<Rightarrow> byte \<Rightarrow> 32 word \<Rightarrow> 16 word \<Rightarrow> 32 word \<Rightarrow> nat \<Rightarrow> rtp_packet" where
  "dtmf_packet event payloadType ssrc n ts i =
     (let duration = 4000 * (i + 1)
      in \<lparr>rp_PayloadType = payloadType, rp_SequenceNumber = n + of_nat i, rp_Timestamp = ts + 4000 * of_nat i, rp_SSRC = ssrc,
          rp_Marker = (i = 0),
          rp_Payload = [if i = 2 then event OR 0x80 else event, 0, of_nat (duration div 256), of_nat (duration mod 256)]\<rparr>)"

datatype dtmf_error = UnsupportedDigit | MarshalFailed

text \<open>The packets, marshalled by \<open>marshal\<close>, with the next sequence number and timestamp.\<close>

definition BuildDTMFPackets ::
  "(rtp_packet \<Rightarrow> 'raw option) \<Rightarrow> char \<Rightarrow> byte \<Rightarrow> 32 word \<Rightarrow> 16 word \<Rightarrow> 32 word
     \<Rightarrow> (dtmf_error, 'raw list \<times> 16 word \<times> 32 word) result" where
  "BuildDTMFPackets marshal digit payloadType0 ssrc n ts =
     (case map_of digitToEvent digit of
        None \<Rightarrow> Inl UnsupportedDigit
      | Some event \<Rightarrow>
          let payloadType = (if payloadType0 = 0 then 101 else payloadType0);
              raws = map (\<lambda>i. marshal (dtmf_packet event payloadType ssrc n ts i)) [0..<3]
          in if None \<in> set raws then Inl MarshalFailed
             else Inr (map the raws, n + 3, ts + 3 * 4000))"

section \<open>Files\<close>

lemma stereo_length: "length (stereo sent recv) = 2 * max (length recv) (length sent)"
proof -
  have "length (concat (map (\<lambda>i. [f i, g i]) is)) = 2 * length is" for f g :: "nat \<Rightarrow> sample" and "is"
    by (induction "is") simp_all
  then show ?thesis by (simp add: stereo_def)
qed

text \<open>Both layouts always satisfy the tests of the writer, so a recording that is not empty is written.\<close>

lemma stop_writes: "\<exists>file. writeWAVPCM16LE 8000 1 recv = Inr file" "\<exists>file. writeWAVPCM16LE 8000 2 (stereo sent recv) = Inr file"
  by (simp_all add: writeWAVPCM16LE_def Let_def stereo_length)

lemma sample_bytes_length [simp]: "length (concat (map sample_bytes samples)) = 2 * length samples"
  by (induction samples) (simp_all add: sample_bytes_def)

lemma wav_layout:
  assumes "writeWAVPCM16LE rate ch samples = Inr file" and "36 + 2 * length samples < 2 ^ 32"
  shows "length file = 44 + 2 * length samples" and "le_value (take 4 (drop 4 file)) = length file - 8"
    and "le_value (take 4 (drop 40 file)) = 2 * length samples"
  using assms by (auto simp: writeWAVPCM16LE_def Let_def le_value_bytes split: if_splits)

text \<open>The whole specification is folded to lower case, the path with it.\<close>

lemma record_spec_path: "ParseRTPRecordSpec ''start,Call.WAV'' = Inr (SpecStart ''call.wav'' False)"
  by code_simp

section \<open>Frames come out in order\<close>

text \<open>
  The packets of a stream are numbered from zero; packet \<open>i\<close> has the sequence number \<open>n + i\<close>, which may wrap around.
  When the packets of \<open>I\<close> have arrived, those before the first gap \<open>j\<close> are recorded and the others wait.
\<close>

definition stream_inv :: "(nat \<Rightarrow> sample list) \<Rightarrow> 16 word \<Rightarrow> nat \<Rightarrow> nat set \<Rightarrow> nat \<Rightarrow> recording \<Rightarrow> bool" where
  "stream_inv pcm n k I j s \<longleftrightarrow> {..<j} \<subseteq> I \<and> I \<subseteq> {..<k} \<and> re_on s \<and> re_have s \<and> re_recv s = concat (map pcm [0..<j])
     \<and> re_next s = n + of_nat j \<and> distinct (map fst (re_buf s))
     \<and> set (re_buf s) = (\<lambda>i. (n + of_nat i, pcm i)) ` (I - {..<j})"

lemma seq_inj:
  assumes "a < 65536" and "b < 65536" and "n + of_nat a = (n + of_nat b :: 16 word)"
  shows "a = b"
proof -
  from assms(3) have "(of_nat a :: 16 word) = of_nat b" by simp
  then have "unat (of_nat a :: 16 word) = unat (of_nat b :: 16 word)" by simp
  with assms(1,2) show ?thesis by (simp add: unat_of_nat)
qed

lemma take_seq_None: "take_seq n fs = None \<longleftrightarrow> n \<notin> fst ` set fs"
  by (induction fs) (auto split: option.splits)

lemma take_seq_Some:
  assumes "take_seq n fs = Some (pcm, rest)" and "distinct (map fst fs)"
  shows "(n, pcm) \<in> set fs \<and> set rest = set fs - {(n, pcm)} \<and> distinct (map fst rest)"
  using assms
proof (induction fs arbitrary: rest)
  case (Cons f fs)
  show ?case
  proof (cases "fst f = n")
    case True
    with Cons.prems show ?thesis by (cases f) force
  next
    case False
    with Cons.prems(1) obtain r where r: "take_seq n fs = Some (pcm, r)" "rest = f # r" by (auto split: option.splits)
    with Cons.IH [OF r(1)] Cons.prems(2) False show ?thesis by (cases f) force
  qed
qed simp

lemma stream_invD:
  assumes "stream_inv pcm n k I j s"
  shows "{..<j} \<subseteq> I" "I \<subseteq> {..<k}" "re_on s" "re_have s" "re_recv s = concat (map pcm [0..<j])" "re_next s = n + of_nat j"
    "distinct (map fst (re_buf s))" "set (re_buf s) = (\<lambda>i. (n + of_nat i, pcm i)) ` (I - {..<j})"
  using assms by (simp_all add: stream_inv_def)

lemma frames_without:
  assumes "j \<in> I" and "I \<subseteq> {..<k}" and "k < 65536"
  shows "(\<lambda>i. (n + of_nat i :: 16 word, pcm i)) ` (I - {..<j}) - {(n + of_nat j, pcm j)} = (\<lambda>i. (n + of_nat i, pcm i)) ` (I - {..<Suc j})"
proof -
  have eq: "i = j" if "i \<in> I" "n + of_nat i = (n + of_nat j :: 16 word)" for i
    using seq_inj [OF _ _ that(2)] that(1) assms by force
  have "I - {..<j} = insert j (I - {..<Suc j})" using assms(1) by auto
  moreover have "(n + of_nat j, pcm j) \<notin> (\<lambda>i. (n + of_nat i, pcm i)) ` (I - {..<Suc j})" using eq by auto
  ultimately show ?thesis by simp
qed

lemma drain_inv:
  assumes "stream_inv pcm n k I j s" and "k < 65536"
  shows "\<exists>j'. stream_inv pcm n k I j' (drainRecordBufHead s) \<and> j' \<notin> I"
  using assms(1)
proof (induction s arbitrary: j rule: drainRecordBufHead.induct)
  case (1 s)
  note inv = stream_invD [OF "1.prems"]
  show ?case
  proof (cases "take_seq (re_next s) (re_buf s)")
    case None
    have "j \<notin> I"
    proof
      assume "j \<in> I"
      then have "(n + of_nat j, pcm j) \<in> set (re_buf s)" unfolding inv(8) by simp
      then have "fst (n + of_nat j, pcm j) \<in> fst ` set (re_buf s)" by (rule imageI)
      with None inv(6) show False by (simp add: take_seq_None)
    qed
    with None "1.prems" show ?thesis by (auto simp: drainRecordBufHead.simps [of s])
  next
    case (Some p)
    obtain q rest where p: "p = (q, rest)" by (cases p)
    note t = take_seq_Some [OF Some [unfolded p] inv(7)]
    from conjunct1 [OF t] have "(n + of_nat j, q) \<in> (\<lambda>i. (n + of_nat i, pcm i)) ` (I - {..<j})" unfolding inv(6,8) .
    then obtain i where i: "i \<in> I - {..<j}" "(n + of_nat j, q) = (n + of_nat i, pcm i)" by blast
    have "i < k" "j \<le> i" using i(1) inv(2) by auto
    moreover have "n + of_nat j = (n + of_nat i :: 16 word)" using i(2) by (rule Pair_inject)
    ultimately have "j = i" using assms(2) by (intro seq_inj [of j i n]) simp_all
    with i have j: "j \<in> I" "q = pcm j" by simp_all
    have "set rest = (\<lambda>i. (n + of_nat i, pcm i)) ` (I - {..<Suc j})"
      using t frames_without [OF j(1) inv(2) assms(2), of n pcm] unfolding inv(6,8) j(2) by simp
    moreover have "{..<Suc j} \<subseteq> I" using inv(1) j(1) by (simp add: lessThan_Suc)
    ultimately have "stream_inv pcm n k I (Suc j) (s\<lparr>re_recv := re_recv s @ q, re_buf := rest, re_next := re_next s + 1\<rparr>)"
      using inv(2-6) t j(2) by (simp add: stream_inv_def)
    from "1.IH" [OF Some p [symmetric] this] show ?thesis by (simp add: drainRecordBufHead.simps [of s] Some p)
  qed
qed

lemma waiting_few:
  assumes "stream_inv pcm n k I j s" and "j \<notin> I" and "0 \<in> I" and "i \<notin> I" and "j < i" and "i < k" and "k \<le> 50"
  shows "length (re_buf s) < 48"
proof -
  note inv = stream_invD [OF assms(1)]
  have fin: "finite (I - {..<j})" using inv(2) by (meson finite_Diff finite_lessThan finite_subset)
  have "j \<noteq> 0" using assms(2,3) by metis
  have "insert i (I - {..<j}) \<subseteq> {Suc j..<k}"
  proof
    fix x assume "x \<in> insert i (I - {..<j})"
    with assms(2,5,6) inv(2) have "j \<le> x" "x \<noteq> j" "x < k" by auto
    then show "x \<in> {Suc j..<k}" by simp
  qed
  then have "card (insert i (I - {..<j})) \<le> k - Suc j" using card_mono [of "{Suc j..<k}"] by fastforce
  then have "Suc (card (I - {..<j})) \<le> 48" using fin assms(4,7) \<open>j \<noteq> 0\<close> by simp
  moreover have "length (re_buf s) = card (set (re_buf s))" using inv(7) by (metis distinct_card distinct_map)
  moreover have "card (set (re_buf s)) \<le> card (I - {..<j})" unfolding inv(8) by (rule card_image_le [OF fin])
  ultimately show ?thesis by simp
qed

lemma push_inv:
  assumes "stream_inv pcm n k I j s" and "j \<notin> I" and "0 \<in> I" and "i \<notin> I" and "i < k" and "k \<le> 50"
  shows "\<exists>j'. stream_inv pcm n k (insert i I) j' (pushRecordPCM (n + of_nat i) (pcm i) s) \<and> j' \<notin> insert i I"
proof (cases "i = j")
  case True
  note inv = stream_invD [OF assms(1)]
  have "insert i I - {..<Suc j} = I - {..<j}" using True assms(2) by (auto simp: less_Suc_eq)
  with inv assms(5) True
  have "stream_inv pcm n k (insert i I) (Suc j) (s\<lparr>re_recv := re_recv s @ pcm i, re_next := re_next s + 1\<rparr>)"
    by (simp add: stream_inv_def lessThan_Suc subset_insertI2)
  from drain_inv [OF this] assms(6) inv(6) True show ?thesis by (simp add: pushRecordPCM_def)
next
  case False
  note inv = stream_invD [OF assms(1)]
  have gt: "j < i" using inv(1) assms(4) False by (meson lessThan_iff linorder_neqE_nat subsetD)
  have fresh: "n + of_nat i \<noteq> re_next s" using seq_inj [of i j n] False gt assms(5,6) unfolding inv(6) by force
  have new: "n + of_nat i \<notin> fst ` set (re_buf s)"
  proof
    assume "n + of_nat i \<in> fst ` set (re_buf s)"
    then have "n + of_nat i \<in> (\<lambda>i. n + of_nat i) ` (I - {..<j})" unfolding inv(8) image_image by simp
    then obtain i' where i': "i' \<in> I" "n + of_nat i = (n + of_nat i' :: 16 word)" by blast
    moreover have "i' < k" using i'(1) inv(2) by blast
    ultimately have "i = i'" using assms(5,6) by (intro seq_inj [of i i' n]) simp_all
    with i'(1) assms(4) show False by simp
  qed
  have eq: "pushRecordPCM (n + of_nat i) (pcm i) s = s\<lparr>re_buf := re_buf s @ [(n + of_nat i, pcm i)]\<rparr>"
    using waiting_few [OF assms(1-4) gt assms(5,6)] fresh new by (simp add: pushRecordPCM_def Let_def)
  have "insert i I - {..<j} = insert i (I - {..<j})" using gt by auto
  with inv new assms(5) have "stream_inv pcm n k (insert i I) j (s\<lparr>re_buf := re_buf s @ [(n + of_nat i, pcm i)]\<rparr>)"
    by (simp add: stream_inv_def subset_insertI2)
  with eq assms(2) False show ?thesis by auto
qed

lemma pcm_nonempty: "rp_Payload pkt \<noteq> [] \<Longrightarrow> pcmFromInboundRTP pkt \<noteq> []"
  by (simp add: pcmFromInboundRTP_def pcmFromOutboundPayload_def Let_def)

text \<open>Packet \<open>i\<close> of a stream of \<open>k\<close> packets has sequence number \<open>n + i\<close> and some payload.\<close>

definition stream_of :: "(nat \<Rightarrow> rtp_packet) \<Rightarrow> 16 word \<Rightarrow> nat \<Rightarrow> bool" where
  "stream_of pk n k \<longleftrightarrow> (\<forall>i<k. rp_SequenceNumber (pk i) = n + of_nat i \<and> rp_Payload (pk i) \<noteq> [])"

definition record_all :: "(nat \<Rightarrow> rtp_packet) \<Rightarrow> nat list \<Rightarrow> recording \<Rightarrow> recording" where
  "record_all pk is s = fold (\<lambda>i. appendRecordInboundWithJitter (pk i)) is s"

definition fresh_recording :: "recording \<Rightarrow> bool" where
  "fresh_recording s \<longleftrightarrow> re_on s \<and> \<not> re_have s \<and> re_recv s = [] \<and> re_buf s = []"

lemma drain_frame: "re_path (drainRecordBufHead s) = re_path s \<and> re_duplex (drainRecordBufHead s) = re_duplex s"
proof (induction s rule: drainRecordBufHead.induct)
  case (1 s)
  then show ?case by (subst (1 2) drainRecordBufHead.simps) (simp split: option.split)
qed

lemma append_frame:
  "re_path (appendRecordInboundWithJitter pkt s) = re_path s \<and> re_duplex (appendRecordInboundWithJitter pkt s) = re_duplex s"
  by (simp add: appendRecordInboundWithJitter_def pushRecordPCM_def flush_buf_def drain_frame Let_def)

lemma record_all_frame: "re_path (record_all pk is s) = re_path s" "re_duplex (record_all pk is s) = re_duplex s"
  unfolding record_all_def by (induction "is" arbitrary: s) (simp_all add: append_frame)

lemma first_inv:
  assumes "stream_of pk n k" and "fresh_recording s" and "0 < k"
  shows "stream_inv (\<lambda>i. pcmFromInboundRTP (pk i)) n k {0} 1 (appendRecordInboundWithJitter (pk 0) s)"
proof -
  have seq: "rp_SequenceNumber (pk 0) = n" and pcm: "pcmFromInboundRTP (pk 0) \<noteq> []"
    using assms(1,3) by (auto simp: stream_of_def pcm_nonempty)
  have "take_seq m [] = None" for m by simp
  with assms(2,3) seq pcm show ?thesis
    by (simp add: appendRecordInboundWithJitter_def Let_def pushRecordPCM_def drainRecordBufHead.simps fresh_recording_def stream_inv_def
        lessThan_Suc)
qed

lemma record_all_inv:
  assumes "stream_of pk n k" and "stream_inv (\<lambda>i. pcmFromInboundRTP (pk i)) n k I j s" and "j \<notin> I" and "0 \<in> I"
    and "distinct is" and "set is \<inter> I = {}" and "set is \<subseteq> {..<k}" and "k \<le> 50"
  shows "\<exists>j'. stream_inv (\<lambda>i. pcmFromInboundRTP (pk i)) n k (I \<union> set is) j' (record_all pk is s) \<and> j' \<notin> I \<union> set is"
  using assms(2-7)
proof (induction "is" arbitrary: I j s)
  case Nil
  then show ?case by (auto simp: record_all_def)
next
  case (Cons i "is")
  let ?s = "pushRecordPCM (n + of_nat i) (pcmFromInboundRTP (pk i)) s"
  have i: "i < k" "i \<notin> I" using Cons.prems(5,6) by auto
  then have pk: "rp_SequenceNumber (pk i) = n + of_nat i" "pcmFromInboundRTP (pk i) \<noteq> []"
    using assms(1) by (auto simp: stream_of_def pcm_nonempty)
  have step: "appendRecordInboundWithJitter (pk i) s = ?s"
    using stream_invD(3,4) [OF Cons.prems(1)] pk by (simp add: appendRecordInboundWithJitter_def Let_def)
  obtain j' where "stream_inv (\<lambda>i. pcmFromInboundRTP (pk i)) n k (insert i I) j' ?s" "j' \<notin> insert i I"
    using push_inv [OF Cons.prems(1-3) i(2,1) assms(8)] by blast
  from Cons.IH [OF this] Cons.prems(3-6) show ?case by (auto simp: record_all_def step)
qed

lemma record_from_start:
  assumes "stream_of pk n k" and "fresh_recording s" and "distinct (0 # is)" and "set (0 # is) \<subseteq> {..<k}" and "k \<le> 50"
  shows "\<exists>j. stream_inv (\<lambda>i. pcmFromInboundRTP (pk i)) n k (set (0 # is)) j (record_all pk (0 # is) s) \<and> j \<notin> set (0 # is)"
proof -
  have "stream_inv (\<lambda>i. pcmFromInboundRTP (pk i)) n k {0} 1 (appendRecordInboundWithJitter (pk 0) s)"
    using assms(4) by (intro first_inv [OF assms(1,2)]) auto
  from record_all_inv [OF assms(1) this, of "is"] assms(3-5) show ?thesis by (simp add: record_all_def)
qed

text \<open>
  C35: Frames are recorded in the order of the stream, each exactly once, however the network shuffles the packets
  after the first, also when the sequence numbers wrap around, for streams of up to fifty packets (the buffer holds 48).
\<close>
theorem record_in_order:
  assumes "stream_of pk n k" and "fresh_recording s" and "distinct (0 # is)" and "set (0 # is) = {..<k}" and "k \<le> 50"
  shows "re_recv (record_all pk (0 # is) s) = concat (map (\<lambda>i. pcmFromInboundRTP (pk i)) [0..<k])
    \<and> re_buf (record_all pk (0 # is) s) = []"
proof -
  obtain j where inv: "stream_inv (\<lambda>i. pcmFromInboundRTP (pk i)) n k {..<k} j (record_all pk (0 # is) s)" "j \<notin> {..<k}"
    using record_from_start [OF assms(1-3) eq_refl [OF assms(4)] assms(5), unfolded assms(4)] by blast
  then have "j = k" using stream_invD(1) [OF inv(1)] by auto
  with stream_invD(5,8) [OF inv(1)] show ?thesis by auto
qed

text \<open>
  C36: A lost packet cuts the recording: when packet one of at most fifty never arrives, stopping writes the
  first frame alone and discards all that wait behind the gap.
\<close>
theorem record_loses_tail:
  assumes "stream_of pk n k" and "fresh_recording s" and "2 \<le> k" and "k \<le> 50" and "re_path s \<noteq> []" and "\<not> re_duplex s"
  shows "fst (stopRecordingLocked (record_all pk (0 # [2..<k]) s))
    = WriteFile (re_path s) (writeWAVPCM16LE 8000 1 (pcmFromInboundRTP (pk 0)))"
proof -
  have "set (0 # [2..<k]) \<subseteq> {..<k}" "distinct (0 # [2..<k])" using assms(3) by auto
  from record_from_start [OF assms(1,2) this(2,1) assms(4)]
  obtain j where inv: "stream_inv (\<lambda>i. pcmFromInboundRTP (pk i)) n k (set (0 # [2..<k])) j (record_all pk (0 # [2..<k]) s)"
    and j: "j \<notin> set (0 # [2..<k])" by blast
  have "\<not> 1 < j" using stream_invD(1) [OF inv] by fastforce
  with j have "j = 1" by (cases j) auto
  with stream_invD(5) [OF inv] have recv: "re_recv (record_all pk (0 # [2..<k]) s) = pcmFromInboundRTP (pk 0)" by simp
  have "rp_Payload (pk 0) \<noteq> []" using assms(1,3) by (simp add: stream_of_def)
  with recv assms(5,6) stream_invD(3) [OF inv] pcm_nonempty [of "pk 0"] show ?thesis
    by (simp add: stopRecordingLocked_def Let_def record_all_frame)
qed

definition sample_packet :: "nat \<Rightarrow> rtp_packet" where
  "sample_packet i = \<lparr>rp_PayloadType = 0, rp_SequenceNumber = 65535 + of_nat i, rp_Timestamp = 0, rp_SSRC = 0, rp_Marker = False,
     rp_Payload = [of_nat i]\<rparr>"

definition sample_recording :: recording where
  "sample_recording = \<lparr>re_running = True, re_on = True, re_path = ''a.wav'', re_duplex = False, re_recv = [], re_sent = [], re_buf = [],
     re_have = False, re_next = 0\<rparr>"

lemma sample_stream: "stream_of sample_packet 65535 4" "fresh_recording sample_recording"
  by (simp_all add: stream_of_def sample_packet_def fresh_recording_def sample_recording_def)

theorem record_in_order_witness:
  "re_recv (record_all sample_packet [0, 3, 1, 2] sample_recording) = concat (map (\<lambda>i. pcmFromInboundRTP (sample_packet i)) [0..<4])"
  using record_in_order [OF sample_stream, of "[3, 1, 2]"] by (simp add: lessThan_nat_numeral lessThan_Suc insert_commute)

theorem record_loses_tail_witness:
  "fst (stopRecordingLocked (record_all sample_packet [0, 2, 3] sample_recording))
     = WriteFile ''a.wav'' (writeWAVPCM16LE 8000 1 (pcmFromInboundRTP (sample_packet 0)))"
  using record_loses_tail [OF sample_stream] by (simp add: sample_recording_def upt_conv_Cons)

section \<open>Decoding against the recommendation\<close>

text \<open>The decoders of ITU-T G.711 at 16 bits, on integers.\<close>

definition itu_muLaw :: "int \<Rightarrow> int" where
  "itu_muLaw b =
     (let n = 255 - b; v = (2 * (n mod 16) + 33) * 2 ^ nat (n div 16 mod 8 + 2) - 132 in if 128 \<le> n then - v else v)"

definition itu_aLaw :: "byte \<Rightarrow> int" where
  "itu_aLaw b =
     (let n = uint (b XOR 0x55); m = n mod 16; seg = n div 16 mod 8;
          v = (if seg = 0 then 16 * m + 8 else (16 * m + 264) * 2 ^ nat (seg - 1))
      in if 128 \<le> n then v else - v)"

definition all_bytes :: "byte list" where "all_bytes = map of_nat [0..<256]"

lemma all_bytes: "b \<in> set all_bytes"
proof -
  have "b = of_nat (unat b)" "unat b < 256" using unsigned_less [of b, where ?'a = nat] by simp_all
  then show ?thesis unfolding all_bytes_def by (metis atLeastLessThan_iff image_eqI le0 set_map set_upt)
qed

lemma muLaw_table:
  "list_all (\<lambda>b. sint (muLawSampleToLinear b) = itu_muLaw (uint b) + (if uint b < 128 then - 99 else 99)) all_bytes"
  by code_simp

lemma aLaw_table: "list_all (\<lambda>b. sint (aLawSampleToLinear b) = - itu_aLaw b) all_bytes"
  by code_simp

text \<open>
  No byte decodes to the sample ITU-T G.711 gives: mu-law is 99 too far from zero (the
  bias taken off is 33 instead of 132, so silence decodes to 99 and -99), and A-law has the opposite sign.
\<close>
lemma g711_deviation:
  "sint (muLawSampleToLinear b) = itu_muLaw (uint b) + (if uint b < 128 then - 99 else 99)
   \<and> sint (aLawSampleToLinear b) = - itu_aLaw b"
  using muLaw_table aLaw_table all_bytes [of b] by (simp add: list_all_iff)

end
