(* ===== verification/MediaFiles.thy ===== *)
theory MediaFiles
  imports Recording
begin

text \<open>
  Sound that is played to a call, \<^verbatim>\<open>internal/media/media.go\<close>: companding samples to G.711, reading raw and WAV files
  into frames of one packet each, and silence for streams without a file.  Reading a file is a parameter.
\<close>

section \<open>Companding\<close>

fun mu_exponent :: "int \<Rightarrow> nat \<Rightarrow> int \<Rightarrow> nat" where
  "mu_exponent expMask 0 pcm = 0"
| "mu_exponent expMask (Suc e) pcm = (if pcm AND expMask = 0 then mu_exponent (drop_bit 1 expMask) e pcm else Suc e)"

definition mu_byte :: "bool \<Rightarrow> nat \<Rightarrow> int \<Rightarrow> byte" where
  "mu_byte neg exponent mantissa =
     NOT ((if neg then 0x80 else 0) OR push_bit 4 (of_nat exponent) OR of_int mantissa)"

definition linearToMuLaw :: "sample \<Rightarrow> byte" where
  "linearToMuLaw sample =
     (let pcm0 = sint sample;
          pcm1 = (if pcm0 < 0 then - pcm0 else pcm0);
          pcm = (if 32635 < pcm1 then 32635 else pcm1) + 0x84;
          exponent = mu_exponent 0x4000 7 pcm
      in mu_byte (pcm0 < 0) exponent (drop_bit (exponent + 3) pcm AND 15))"

definition a_exponent :: "int \<Rightarrow> nat" where
  "a_exponent pcm =
     (if 4096 \<le> pcm then 7 else if 2048 \<le> pcm then 6 else if 1024 \<le> pcm then 5 else if 512 \<le> pcm then 4
      else if 256 \<le> pcm then 3 else if 128 \<le> pcm then 2 else if 64 \<le> pcm then 1 else 0)"

definition a_byte :: "bool \<Rightarrow> nat \<Rightarrow> int \<Rightarrow> byte" where
  "a_byte neg exponent mantissa =
     ((if neg then 0x80 else 0) OR push_bit 4 (of_nat exponent) OR of_int mantissa) XOR 0xD5"

definition linearToALaw :: "sample \<Rightarrow> byte" where
  "linearToALaw sample =
     (let pcm0 = sint sample;
          pcm1 = (if pcm0 < 0 then - pcm0 - 1 else pcm0);
          pcm = (if 32635 < pcm1 then 32635 else pcm1);
          exponent = a_exponent pcm;
          mantissa = drop_bit (if exponent = 0 then 4 else exponent + 3) pcm AND 15
      in a_byte (pcm0 < 0) exponent mantissa)"

section \<open>Files as frames\<close>

datatype load_error = ReadFailed | BadWav string | NotMono8k | BadBits | OddPCM | NoFullFrames

function chunks :: "nat \<Rightarrow> 'a list \<Rightarrow> 'a list list" where
  "chunks n xs = (if xs = [] \<or> n = 0 then [] else take n xs # chunks n (drop n xs))"
  by pat_completeness auto
termination by (relation "measure (\<lambda>(n, xs). length xs)") auto

declare chunks.simps [simp del]

definition char_byte :: "char \<Rightarrow> byte" where
  "char_byte c = of_nat (of_char c)"

definition loadRawPackets :: "(string \<Rightarrow> string option) \<Rightarrow> string \<Rightarrow> nat \<Rightarrow> (load_error, byte list list) result" where
  "loadRawPackets read path packetSize =
     (case read path of
        None \<Rightarrow> Inl ReadFailed
      | Some data \<Rightarrow> Inr (chunks (if packetSize = 0 then 160 else packetSize) (map char_byte data)))"

record wav_format =
  wf_audioFormat :: nat
  wf_numChannels :: nat
  wf_sampleRate :: nat
  wf_bitsPerSample :: nat
  wf_pcmData :: string

definition wav_chunk :: "string \<Rightarrow> string \<Rightarrow> wav_format \<Rightarrow> wav_format" where
  "wav_chunk chunkID body w =
     (if chunkID = ''fmt '' then
        (if 16 \<le> length body
         then w\<lparr>wf_audioFormat := le_value (take 2 body), wf_numChannels := le_value (take 2 (drop 2 body)),
                wf_sampleRate := le_value (take 4 (drop 4 body)), wf_bitsPerSample := le_value (take 2 (drop 14 body))\<rparr>
         else w)
      else if chunkID = ''data'' then w\<lparr>wf_pcmData := body\<rparr>
      else w)"

text \<open>\<open>rest\<close> is the data from the current offset on; the byte that pads a chunk of odd size may be missing at the end.\<close>

function wav_scan :: "string \<Rightarrow> wav_format \<Rightarrow> wav_format" where
  "wav_scan rest w =
     (if length rest < 8 then w
      else
        let chunkID = take 4 rest; chunkSize = le_value (take 4 (drop 4 rest)); rest1 = drop 8 rest
        in if length rest1 < chunkSize then w
           else wav_scan (drop (chunkSize + chunkSize mod 2) rest1) (wav_chunk chunkID (take chunkSize rest1) w))"
  by pat_completeness auto
termination by (relation "measure (\<lambda>(rest, w). length rest)") auto

declare wav_scan.simps [simp del]

fun pcm16 :: "string \<Rightarrow> sample list" where
  "pcm16 (a # b # data) = of_nat (le_value [a, b]) # pcm16 data"
| "pcm16 _ = []"

definition decodePCM :: "string \<Rightarrow> nat \<Rightarrow> (load_error, sample list) result" where
  "decodePCM data bits =
     (if bits = 8 then Inr (map (\<lambda>c. push_bit 8 (of_int (int (of_char c) - 128))) data)
      else if bits = 16 then if odd (length data) then Inl OddPCM else Inr (pcm16 data)
      else Inl BadBits)"

text \<open>Only full frames are played.\<close>

function frames :: "nat \<Rightarrow> 'a list \<Rightarrow> 'a list list" where
  "frames n xs = (if 0 < n \<and> n \<le> length xs then take n xs # frames n (drop n xs) else [])"
  by pat_completeness auto
termination by (relation "measure (\<lambda>(n, xs). length xs)") auto

declare frames.simps [simp del]

definition compand :: "byte \<Rightarrow> sample \<Rightarrow> byte" where
  "compand payloadType sample = (if payloadType = 8 then linearToALaw sample else linearToMuLaw sample)"

definition no_wav :: wav_format where
  "no_wav = \<lparr>wf_audioFormat = 0, wf_numChannels = 0, wf_sampleRate = 0, wf_bitsPerSample = 0, wf_pcmData = []\<rparr>"

definition loadWAVPackets :: "(string \<Rightarrow> string option) \<Rightarrow> string \<Rightarrow> byte \<Rightarrow> nat \<Rightarrow> (load_error, byte list list) result" where
  "loadWAVPackets read path payloadType samplesPerPkt =
     (case read path of
        None \<Rightarrow> Inl ReadFailed
      | Some data \<Rightarrow>
          if length data < 44 \<or> take 4 data \<noteq> ''RIFF'' \<or> take 4 (drop 8 data) \<noteq> ''WAVE'' then Inl (BadWav path)
          else
            let w = wav_scan (drop 12 data) no_wav
            in if wf_audioFormat w \<noteq> 1 \<or> wf_numChannels w \<noteq> 1 \<or> wf_sampleRate w \<noteq> 8000 then Inl NotMono8k
               else if wf_bitsPerSample w \<noteq> 8 \<and> wf_bitsPerSample w \<noteq> 16 then Inl BadBits
               else
                 (case decodePCM (wf_pcmData w) (wf_bitsPerSample w) of
                    Inl e \<Rightarrow> Inl e
                  | Inr samples \<Rightarrow>
                      let packets = map (map (compand payloadType)) (frames (if samplesPerPkt = 0 then 160 else samplesPerPkt) samples)
                      in if packets = [] then Inl NoFullFrames else Inr packets))"

definition filepath_Ext :: "string \<Rightarrow> string" where
  "filepath_Ext path =
     (let tail = takeWhile (\<lambda>c. c \<noteq> CHR ''.'' \<and> c \<noteq> CHR ''/'') (rev path)
      in case drop (length tail) (rev path) of
           [] \<Rightarrow> []
         | c # _ \<Rightarrow> if c = CHR ''.'' then c # rev tail else [])"

definition loadPackets :: "(string \<Rightarrow> string option) \<Rightarrow> string \<Rightarrow> byte \<Rightarrow> nat \<Rightarrow> (load_error, byte list list) result" where
  "loadPackets read path payloadType samplesPerPkt =
     (if strings_ToLower (filepath_Ext path) = ''.wav'' then loadWAVPackets read path payloadType samplesPerPkt
      else loadRawPackets read path samplesPerPkt)"

definition buildSyntheticPayload :: "string \<Rightarrow> byte \<Rightarrow> nat \<Rightarrow> nat \<Rightarrow> byte list" where
  "buildSyntheticPayload payloadName payloadType samplesPerPkt channels0 =
     (if strings_HasPrefix (strings_ToUpper payloadName) ''OPUS'' then [0xF8, 0xFF, 0xFE]
      else
        let channels = (if channels0 < 1 then 1 else channels0);
            size0 = samplesPerPkt * channels;
            size = (if size0 = 0 then 160 else size0)
        in replicate size (if payloadType = 0 then 0xFF else if payloadType = 8 then 0xD5 else 0))"

section \<open>Cutting data\<close>

lemma chunks_Nil [simp]: "chunks n [] = []"
  by (simp add: chunks.simps)

lemma concat_chunks: "0 < n \<Longrightarrow> concat (chunks n xs) = xs"
proof (induction n xs rule: chunks.induct)
  case (1 n xs)
  then show ?case by (cases "xs = []") (simp_all add: chunks.simps [of n xs])
qed

lemma chunks_sizes: "c \<in> set (chunks n xs) \<Longrightarrow> c \<noteq> [] \<and> length c \<le> n"
proof (induction n xs rule: chunks.induct)
  case (1 n xs)
  then show ?case by (cases "xs = [] \<or> n = 0") (auto simp: chunks.simps [of n xs])
qed

lemma frames_sizes: "f \<in> set (frames n xs) \<Longrightarrow> length f = n"
proof (induction n xs rule: frames.induct)
  case (1 n xs)
  then show ?case by (cases "0 < n \<and> n \<le> length xs") (auto simp: frames.simps [of n xs])
qed

lemma concat_frames: "0 < n \<Longrightarrow> concat (frames n xs) = take (length xs div n * n) xs"
proof (induction n xs rule: frames.induct)
  case (1 n xs)
  show ?case
  proof (cases "n \<le> length xs")
    case True
    with 1 have "concat (frames n xs) = take n xs @ take ((length xs - n) div n * n) (drop n xs)"
      by (simp add: frames.simps [of n xs])
    also have "\<dots> = take (n + (length xs - n) div n * n) xs" by (simp add: take_add)
    also have "n + (length xs - n) div n * n = length xs div n * n" using True 1(2) by (simp add: le_div_geq)
    finally show ?thesis .
  qed (simp add: frames.simps [of n xs])
qed

section \<open>Playing a recording\<close>

lemma pcm16_samples: "pcm16 (concat (map sample_bytes samples)) = samples"
proof (induction samples)
  case (Cons v samples)
  have "unat v < 65536" using unsigned_less [of v, where ?'a = nat] by simp
  then have bytes: "le_value (sample_bytes v) = unat v" by (simp add: sample_bytes_def le_value_bytes)
  obtain a b where ab: "sample_bytes v = [a, b]"
    by (metis length_le_bytes sample_bytes_def length_Suc_conv length_0_conv numeral_2_eq_2)
  with bytes Cons show ?case by simp
qed simp

lemma decodePCM_written: "decodePCM (concat (map sample_bytes samples)) 16 = Inr samples"
  by (simp add: decodePCM_def pcm16_samples)

text \<open>The chunk header and its body, then the rest.\<close>

lemma wav_scan_chunk:
  assumes "length chunkID = 4" and "length body < 256 ^ 4" and "even (length body)"
  shows "wav_scan (chunkID @ le_bytes 4 (length body) @ body @ rest) w = wav_scan rest (wav_chunk chunkID body w)"
  using assms by (subst wav_scan.simps) (simp add: le_value_bytes)

lemma wav_scan_Nil: "wav_scan [] w = w"
  by (simp add: wav_scan.simps)

definition fmt_chunk :: string where
  "fmt_chunk = le_bytes 2 1 @ le_bytes 2 1 @ le_bytes 4 8000 @ le_bytes 4 16000 @ le_bytes 2 2 @ le_bytes 2 16"

lemma fmt_chunk: "length fmt_chunk = 16"
  "wav_chunk ''fmt '' fmt_chunk w = w\<lparr>wf_audioFormat := 1, wf_numChannels := 1, wf_sampleRate := 8000, wf_bitsPerSample := 16\<rparr>"
  by (simp_all add: fmt_chunk_def wav_chunk_def le_value_bytes)

lemma data_chunk: "wav_chunk ''data'' body w = w\<lparr>wf_pcmData := body\<rparr>"
  by (simp add: wav_chunk_def)

lemma written_layout:
  assumes "writeWAVPCM16LE 8000 1 samples = Inr file"
  shows "file = ''RIFF'' @ le_bytes 4 (36 + 2 * length samples) @ ''WAVE''
    @ ''fmt '' @ le_bytes 4 (length fmt_chunk) @ fmt_chunk
    @ ''data'' @ le_bytes 4 (length (concat (map sample_bytes samples))) @ concat (map sample_bytes samples) @ []"
  using assms by (simp add: writeWAVPCM16LE_def Let_def fmt_chunk fmt_chunk_def mult.commute)

lemma written_scan:
  assumes "writeWAVPCM16LE 8000 1 samples = Inr file" and "2 * length samples < 2 ^ 32"
  shows "wav_scan (drop 12 file) no_wav
    = no_wav\<lparr>wf_audioFormat := 1, wf_numChannels := 1, wf_sampleRate := 8000, wf_bitsPerSample := 16,
        wf_pcmData := concat (map sample_bytes samples)\<rparr>"
proof -
  let ?data = "concat (map sample_bytes samples)"
  have "drop 12 file = ''fmt '' @ le_bytes 4 (length fmt_chunk) @ fmt_chunk @ (''data'' @ le_bytes 4 (length ?data) @ ?data @ [])"
    by (subst written_layout [OF assms(1)]) simp
  then have "wav_scan (drop 12 file) no_wav
    = wav_scan (''data'' @ le_bytes 4 (length ?data) @ ?data @ []) (wav_chunk ''fmt '' fmt_chunk no_wav)"
    by (simp only:) (rule wav_scan_chunk, simp_all add: fmt_chunk)
  also have "\<dots> = wav_scan [] (wav_chunk ''data'' ?data (wav_chunk ''fmt '' fmt_chunk no_wav))"
    by (rule wav_scan_chunk) (use assms(2) in simp_all)
  finally show ?thesis by (simp add: fmt_chunk(2) wav_scan_Nil data_chunk)
qed



section \<open>Companding and decoding\<close>

lemma pos_div_less_int: "0 < k \<Longrightarrow> m < c * k \<Longrightarrow> m div k < (c :: int)"
proof (rule ccontr)
  assume k: "0 < k" and m: "m < c * k" and c: "\<not> m div k < c"
  from k c have "c * k \<le> m div k * k" by (simp add: mult_right_mono)
  also have "\<dots> \<le> m" using k pos_mod_sign [of k m] div_mult_mod_eq [of m k] by linarith
  finally show False using m by simp
qed

lemma le_div_int: "0 < k \<Longrightarrow> c * k \<le> m \<Longrightarrow> (c :: int) \<le> m div k"
  using zdiv_mono1 [of "c * k" m k] by simp

lemma and_power: "(pcm AND 2 ^ k = (0 :: int)) \<longleftrightarrow> even (pcm div 2 ^ k)"
  by (simp add: and_exp_eq_0_iff_not_bit bit_iff_odd)

text \<open>The exponent is the position of the highest bit.\<close>

lemma mu_exponent_bounds:
  assumes "128 \<le> pcm" and "pcm < 2 ^ (e + 8)"
  shows "mu_exponent (2 ^ (e + 7)) e pcm \<le> e \<and> 2 ^ (mu_exponent (2 ^ (e + 7)) e pcm + 7) \<le> pcm
    \<and> pcm < 2 ^ (mu_exponent (2 ^ (e + 7)) e pcm + 8)"
  using assms(2)
proof (induction e)
  case (Suc e)
  show ?case
  proof (cases "pcm AND 2 ^ (Suc e + 7) = 0")
    case True
    have "pcm div 2 ^ (Suc e + 7) < 2"
    proof -
      have "2 ^ (Suc e + 8) = 2 * (2 :: int) ^ (Suc e + 7)" by (simp add: power_add)
      with Suc.prems have "pcm < 2 * 2 ^ (Suc e + 7)" by simp
      then show ?thesis by (simp add: pos_div_less_int)
    qed
    moreover have "0 \<le> pcm div 2 ^ (Suc e + 7)" using assms(1) by (simp add: pos_imp_zdiv_nonneg_iff)
    ultimately have "pcm div 2 ^ (Suc e + 7) = 0" using True by (auto simp: and_power elim!: evenE)
    then have "pcm < 2 ^ (e + 8)" using assms(1) by (simp add: zdiv_eq_0_iff add.commute)
    moreover have "drop_bit 1 ((2 :: int) ^ (Suc e + 7)) = 2 ^ (e + 7)" by (simp add: drop_bit_eq_div power_add)
    then have "mu_exponent (2 ^ (Suc e + 7)) (Suc e) pcm = mu_exponent (2 ^ (e + 7)) e pcm"
      by (simp only: mu_exponent.simps True if_True simp_thms)
    ultimately show ?thesis using Suc.IH by auto
  next
    case False
    have "2 ^ (Suc e + 7) \<le> pcm"
    proof (rule ccontr)
      assume "\<not> ?thesis"
      then have "pcm div 2 ^ (Suc e + 7) = 0" using assms(1) by (simp add: zdiv_eq_0_iff)
      with False show False by (simp add: and_power)
    qed
    with False Suc.prems show ?thesis by (simp del: power_Suc)
  qed
qed (use assms in simp)

lemma and_15: "x AND 15 = x mod (16 :: int)"
  using take_bit_eq_mask [of 4 x] by (simp add: take_bit_eq_mod mask_eq_exp_minus_1)

lemma mu_bytes:
  "list_all (\<lambda>neg. list_all (\<lambda>e. list_all (\<lambda>m. uint (mu_byte neg e m) = 255 - ((if neg then 128 else 0) + 16 * int e + m)) [0..15]) [0..<8])
     [True, False]"
  by code_simp

lemma mu_byte_value:
  assumes "e \<le> 7" and "0 \<le> m" and "m < 16"
  shows "uint (mu_byte neg e m) = 255 - ((if neg then 128 else 0) + 16 * int e + m)"
proof -
  have "neg \<in> set [True, False]" "e \<in> set [0..<8]" "m \<in> set [0..15]" using assms by auto
  with mu_bytes show ?thesis unfolding list_all_iff by blast
qed

text \<open>A positive number with its highest bit at \<open>e + 7\<close> and the middle of its quantisation step.\<close>

lemma mu_step:
  fixes pcm :: int
  assumes "2 ^ (e + 7) \<le> pcm" and "pcm < 2 ^ (e + 8)"
  defines "m \<equiv> pcm div 2 ^ (e + 3) mod 16"
  shows "32 * \<bar>(2 * m + 33) * 2 ^ (e + 2) - pcm\<bar> \<le> pcm"
proof -
  define k :: int where "k = 2 ^ (e + 2)"
  have k: "0 < k" "2 ^ (e + 3) = 2 * k" "2 ^ (e + 7) = 32 * k" "2 ^ (e + 8) = 64 * k" by (simp_all add: k_def power_add)
  define q where "q = pcm div (2 * k)"
  have "16 \<le> q" using assms(1) k unfolding q_def by (simp add: le_div_int)
  moreover have "q < 32" using assms(2) k unfolding q_def by (intro pos_div_less_int) simp_all
  ultimately have m: "m = q - 16" unfolding m_def k q_def [symmetric] by presburger
  define r where "r = pcm mod (2 * k)"
  have r: "0 \<le> r" "r < 2 * k" using k(1) by (simp_all add: r_def)
  have pcm: "pcm = q * (2 * k) + r" unfolding q_def r_def by (rule div_mult_mod_eq [symmetric])
  have "(2 * m + 33) * k - pcm = k - r" by (simp add: m algebra_simps) (simp add: pcm algebra_simps)
  then have "\<bar>(2 * m + 33) * k - pcm\<bar> \<le> k" using r by simp
  then show ?thesis using assms(1) k(3) unfolding k_def by simp
qed

lemma mu_parts:
  fixes e m :: int
  assumes "0 \<le> e" and "e \<le> 7" and "0 \<le> m" and "m < 16"
  shows "(16 * e + m) mod 16 = m" "(16 * e + m) div 16 mod 8 = e" "(128 + (16 * e + m)) mod 16 = m"
    "(128 + (16 * e + m)) div 16 mod 8 = e"
proof -
  have split: "(16 * a + m) mod 16 = m" "(16 * a + m) div 16 = a" for a :: int using assms(3,4) by simp_all
  have high: "128 + (16 * e + m) = 16 * (8 + e) + m" by simp
  show "(16 * e + m) mod 16 = m" by (rule split)
  show "(16 * e + m) div 16 mod 8 = e" unfolding split using assms(1,2) by simp
  show "(128 + (16 * e + m)) mod 16 = m" unfolding high by (rule split)
  show "(128 + (16 * e + m)) div 16 mod 8 = e" unfolding high split using assms(1,2) by simp
qed

lemma muLaw_standard:
  assumes "\<bar>sint x\<bar> \<le> 32635"
  shows "32 * \<bar>itu_muLaw (uint (linearToMuLaw x)) - sint x\<bar> \<le> \<bar>sint x\<bar> + 132"
    and "uint (linearToMuLaw x) < 128 \<longleftrightarrow> sint x < 0"
proof -
  define pcm where "pcm = \<bar>sint x\<bar> + 132"
  define e where "e = mu_exponent 0x4000 7 pcm"
  define m where "m = pcm div 2 ^ (e + 3) mod 16"
  have "128 \<le> pcm" "pcm < 2 ^ (7 + 8)" using assms by (simp_all add: pcm_def)
  from mu_exponent_bounds [OF this] have e: "e \<le> 7" "2 ^ (e + 7) \<le> pcm" "pcm < 2 ^ (e + 8)" by (simp_all add: e_def)
  have "linearToMuLaw x = mu_byte (sint x < 0) e m"
    using assms by (simp add: linearToMuLaw_def Let_def e_def m_def pcm_def and_15 drop_bit_eq_div abs_if)
  moreover have m: "0 \<le> m" "m < 16" by (simp_all add: m_def)
  ultimately have b: "uint (linearToMuLaw x) = 255 - ((if sint x < 0 then 128 else 0) + 16 * int e + m)"
    using mu_byte_value [OF e(1)] by simp
  then show "uint (linearToMuLaw x) < 128 \<longleftrightarrow> sint x < 0" using e(1) m by auto
  have parts: "(16 * int e + m) mod 16 = m" "(16 * int e + m) div 16 mod 8 = int e"
    "(128 + (16 * int e + m)) mod 16 = m" "(128 + (16 * int e + m)) div 16 mod 8 = int e"
    using mu_parts [of "int e" m] e(1) m by simp_all
  define v where "v = (2 * m + 33) * 2 ^ (e + 2) - 132"
  have "itu_muLaw (uint (linearToMuLaw x)) = (if sint x < 0 then - v else v)"
    using e(1) m by (auto simp: itu_muLaw_def Let_def b parts v_def nat_add_distrib add.assoc)
  moreover have "32 * \<bar>v + 132 - pcm\<bar> \<le> pcm" using mu_step [OF e(2,3)] by (simp add: v_def m_def)
  ultimately show "32 * \<bar>itu_muLaw (uint (linearToMuLaw x)) - sint x\<bar> \<le> \<bar>sint x\<bar> + 132"
    by (cases "sint x < 0") (simp_all add: pcm_def abs_if split: if_splits)
qed



text \<open>The segments of the A-law encoder start at a quarter of the values the standard has for 16-bit samples.\<close>

lemma a_bytes:
  "list_all (\<lambda>e. list_all (\<lambda>m. itu_aLaw (a_byte False e m) = (16 * m + 264) * 2 ^ (e - 1)) [0..15]) [1..<8]"
  by code_simp

lemma a_exponent_bounds:
  assumes "64 \<le> pcm" and "pcm < 8192"
  shows "1 \<le> a_exponent pcm \<and> a_exponent pcm \<le> 7 \<and> pcm < 2 ^ (a_exponent pcm + 6)"
  using assms by (simp add: a_exponent_def)

text \<open>
  C39: The A-law encoder is wrong: between 64 and 8191 every sample is sent as a byte that the
  standard decodes to more than twice its value.
\<close>
theorem aLaw_encoder:
  assumes "64 \<le> sint x" and "sint x < 8192"
  shows "2 * sint x < itu_aLaw (linearToALaw x)"
proof -
  define e where "e = a_exponent (sint x)"
  from a_exponent_bounds [OF assms] have e: "1 \<le> e" "e \<le> 7" "sint x < 2 ^ (e + 6)" by (simp_all add: e_def)
  define k :: int where "k = 2 ^ (e - 1)"
  have k: "2 ^ (e + 6) = 128 * k" "2 ^ (e + 3) = 16 * k" "0 < k" using e(1) by (cases e; simp add: k_def power_add)+
  define q where "q = sint x div (16 * k)"
  have q: "0 \<le> q" "q < 8" using assms e(3) k by (auto simp: q_def pos_imp_zdiv_nonneg_iff intro!: pos_div_less_int)
  have "linearToALaw x = a_byte False e q"
    using assms e(1) q k(2) by (simp add: linearToALaw_def Let_def e_def [symmetric] and_15 drop_bit_eq_div q_def)
  moreover have "e \<in> set [1..<8]" "q \<in> set [0..15]" using e q by auto
  ultimately have "itu_aLaw (linearToALaw x) = (16 * q + 264) * k"
    using a_bytes unfolding list_all_iff k_def by simp
  moreover have "sint x < 16 * (q * k) + 16 * k"
  proof -
    have "sint x = q * (16 * k) + sint x mod (16 * k)" unfolding q_def by (rule div_mult_mod_eq [symmetric])
    moreover have "sint x mod (16 * k) < 16 * k" using k(3) by simp
    ultimately show ?thesis by simp
  qed
  ultimately show ?thesis using e(3) k by (simp add: distrib_right)
qed

theorem aLaw_encoder_witness: "2 * 4096 < itu_aLaw (linearToALaw 4096)"
  using aLaw_encoder [of 4096] by simp

end
