(* ===== verification/Stats.thy ===== *)
theory Stats
  imports Float64 "HOL-Library.Word"
begin

text \<open>
  The statistics of a run, \<^verbatim>\<open>internal/stats/stats.go\<close>, and the health checks on their summary,
  \<^verbatim>\<open>internal/stats/health.go\<close>.  The mutex makes each operation atomic; durations are nanoseconds.  The square root of
  \<^verbatim>\<open>math\<close> is a parameter.
\<close>

section \<open>Latencies\<close>

definition latencyBucketBoundsMS :: "int list" where
  "latencyBucketBoundsMS = [10, 20, 50, 100, 200, 500, 1000, 2000, 5000]"

text \<open>Go's division cuts towards zero.\<close>

definition quot :: "int \<Rightarrow> int \<Rightarrow> int" where
  "quot a b = (if (a < 0) = (b < 0) then \<bar>a\<bar> div \<bar>b\<bar> else - (\<bar>a\<bar> div \<bar>b\<bar>))"

fun bucket_from :: "nat \<Rightarrow> int \<Rightarrow> int list \<Rightarrow> nat" where
  "bucket_from i ms [] = i"
| "bucket_from i ms (upper # rest) = (if ms \<le> upper then i else bucket_from (Suc i) ms rest)"

definition latencyBucketIndex :: "int \<Rightarrow> nat" where
  "latencyBucketIndex value = bucket_from 0 (quot value 1000000) latencyBucketBoundsMS"

record latencyAccumulator =
  la_count :: int
  la_total :: int
  la_min :: int
  la_max :: int
  la_last :: int
  la_mean :: float64
  la_m2 :: float64
  la_buckets :: "int list"

definition no_latency :: latencyAccumulator where
  "no_latency = \<lparr>la_count = 0, la_total = 0, la_min = 0, la_max = 0, la_last = 0, la_mean = Fin 0, la_m2 = Fin 0,
     la_buckets = replicate 10 0\<rparr>"

definition latency_add :: "int \<Rightarrow> latencyAccumulator \<Rightarrow> latencyAccumulator" where
  "latency_add value a =
     (let count = la_count a + 1;
          valueFloat = float_of_int value;
          delta = float_sub valueFloat (la_mean a);
          mean = float_add (la_mean a) (float_div delta (float_of_int count));
          delta2 = float_sub valueFloat mean;
          i = latencyBucketIndex value
      in \<lparr>la_count = count, la_total = wrap64 (la_total a + value),
          la_min = (if count = 1 \<or> value < la_min a then value else la_min a),
          la_max = (if la_max a < value then value else la_max a), la_last = value, la_mean = mean,
          la_m2 = float_add (la_m2 a) (float_mult delta delta2), la_buckets = (la_buckets a)[i := la_buckets a ! i + 1]\<rparr>)"

record LatencySummary =
  ls_Count :: int
  ls_Average :: int
  ls_Min :: int
  ls_Max :: int
  ls_Last :: int
  ls_StdDev :: int
  ls_Buckets :: "(string \<times> int) list"

definition buildLatencyBuckets :: "int list \<Rightarrow> (string \<times> int) list" where
  "buildLatencyBuckets counts =
     map (\<lambda>i. (if i < length latencyBucketBoundsMS then ''le_'' @ strconv_Itoa (latencyBucketBoundsMS ! i) @ ''ms''
               else ''gt_'' @ strconv_Itoa (last latencyBucketBoundsMS) @ ''ms'', counts ! i)) [0..<length counts]"

definition latency_snapshot :: "(float64 \<Rightarrow> float64) \<Rightarrow> latencyAccumulator \<Rightarrow> LatencySummary option" where
  "latency_snapshot math_Sqrt a =
     (if la_count a = 0 then None
      else Some \<lparr>ls_Count = la_count a, ls_Average = quot (la_total a) (la_count a), ls_Min = la_min a, ls_Max = la_max a,
        ls_Last = la_last a,
        ls_StdDev = (if 0 < la_count a then float_to_int64 (math_Sqrt (float_div (la_m2 a) (float_of_int (la_count a)))) else 0),
        ls_Buckets = buildLatencyBuckets (la_buckets a)\<rparr>)"

section \<open>Media counters\<close>

record media_Stats =
  ms_RTPPacketsSent :: "32 word"
  ms_RTPOctetsSent :: "32 word"
  ms_RTPPacketsReceived :: "32 word"
  ms_RTCPSenderReports :: "32 word"
  ms_RTCPReceiverReports :: "32 word"
  ms_RTCPPacketsReceived :: "32 word"
  ms_RTCPReportBlocks :: "32 word"
  ms_RTCPMaxFractionLost :: "8 word"
  ms_RTCPMaxJitter :: "32 word"
  ms_RTCPMinJitter :: "32 word"
  ms_RTPRecvMaxCumulativeLost :: "32 word"
  ms_RTPRecvInterarrivalJitterPeak :: "32 word"
  ms_RTCPJitterSum :: float64
  ms_RTCPJitterSamples :: "64 word"

record MediaSummary =
  mm_RTPPacketsSent :: "32 word"
  mm_RTPOctetsSent :: "32 word"
  mm_RTPPacketsReceived :: "32 word"
  mm_RTCPSenderReports :: "32 word"
  mm_RTCPReceiverReports :: "32 word"
  mm_RTCPPacketsReceived :: "32 word"
  mm_RTCPReceptionReports :: "32 word"
  mm_RTCPMaxFractionLost :: float64
  mm_RTCPMaxJitterTS :: "32 word"
  mm_RTCPMinJitterTS :: "32 word"
  mm_RTCPAvgJitterTS :: float64
  mm_RTPRecvMaxCumulativeLost :: "32 word"
  mm_RTPRecvInterarrivalJitterPeakTS :: "32 word"
  mm_CallsWithRTPReceived :: int
  mm_PerCallMinRTPPacketsReceived :: "32 word"
  mm_rtcpJitterSum :: float64
  mm_rtcpJitterSamples :: "64 word"

definition no_media :: MediaSummary where
  "no_media = \<lparr>mm_RTPPacketsSent = 0, mm_RTPOctetsSent = 0, mm_RTPPacketsReceived = 0, mm_RTCPSenderReports = 0,
     mm_RTCPReceiverReports = 0, mm_RTCPPacketsReceived = 0, mm_RTCPReceptionReports = 0, mm_RTCPMaxFractionLost = Fin 0,
     mm_RTCPMaxJitterTS = 0, mm_RTCPMinJitterTS = 0, mm_RTCPAvgJitterTS = Fin 0, mm_RTPRecvMaxCumulativeLost = 0,
     mm_RTPRecvInterarrivalJitterPeakTS = 0, mm_CallsWithRTPReceived = 0, mm_PerCallMinRTPPacketsReceived = 0,
     mm_rtcpJitterSum = Fin 0, mm_rtcpJitterSamples = 0\<rparr>"

definition add_media :: "media_Stats \<Rightarrow> MediaSummary \<Rightarrow> MediaSummary" where
  "add_media v m =
     (let ratio = float_div (float_of_int (uint (ms_RTCPMaxFractionLost v))) (Fin 256)
      in m\<lparr>mm_RTPPacketsSent := mm_RTPPacketsSent m + ms_RTPPacketsSent v,
           mm_RTPOctetsSent := mm_RTPOctetsSent m + ms_RTPOctetsSent v,
           mm_RTPPacketsReceived := mm_RTPPacketsReceived m + ms_RTPPacketsReceived v,
           mm_RTCPSenderReports := mm_RTCPSenderReports m + ms_RTCPSenderReports v,
           mm_RTCPReceiverReports := mm_RTCPReceiverReports m + ms_RTCPReceiverReports v,
           mm_RTCPPacketsReceived := mm_RTCPPacketsReceived m + ms_RTCPPacketsReceived v,
           mm_RTCPReceptionReports := mm_RTCPReceptionReports m + ms_RTCPReportBlocks v,
           mm_RTCPMaxFractionLost :=
             (if 0 < ms_RTCPMaxFractionLost v \<and> float_lt (mm_RTCPMaxFractionLost m) ratio then ratio else mm_RTCPMaxFractionLost m),
           mm_RTCPMaxJitterTS := (if mm_RTCPMaxJitterTS m < ms_RTCPMaxJitter v then ms_RTCPMaxJitter v else mm_RTCPMaxJitterTS m),
           mm_RTCPMinJitterTS :=
             (if 0 < ms_RTCPMinJitter v \<and> (mm_RTCPMinJitterTS m = 0 \<or> ms_RTCPMinJitter v < mm_RTCPMinJitterTS m)
              then ms_RTCPMinJitter v else mm_RTCPMinJitterTS m),
           mm_RTPRecvMaxCumulativeLost :=
             (if mm_RTPRecvMaxCumulativeLost m < ms_RTPRecvMaxCumulativeLost v
              then ms_RTPRecvMaxCumulativeLost v else mm_RTPRecvMaxCumulativeLost m),
           mm_RTPRecvInterarrivalJitterPeakTS :=
             (if mm_RTPRecvInterarrivalJitterPeakTS m < ms_RTPRecvInterarrivalJitterPeak v
              then ms_RTPRecvInterarrivalJitterPeak v else mm_RTPRecvInterarrivalJitterPeakTS m),
           mm_rtcpJitterSum := float_add (mm_rtcpJitterSum m) (ms_RTCPJitterSum v),
           mm_rtcpJitterSamples := mm_rtcpJitterSamples m + ms_RTCPJitterSamples v\<rparr>)"

definition finalizeMediaSummary :: "MediaSummary \<Rightarrow> MediaSummary" where
  "finalizeMediaSummary m =
     m\<lparr>mm_RTCPAvgJitterTS := (if 0 < mm_rtcpJitterSamples m
         then float_div (mm_rtcpJitterSum m) (float_of_int (uint (mm_rtcpJitterSamples m))) else mm_RTCPAvgJitterTS m),
       mm_rtcpJitterSum := Fin 0, mm_rtcpJitterSamples := 0\<rparr>"

section \<open>The collector\<close>

record Collector =
  co_startedAt :: int
  co_totalCalls :: int
  co_successCalls :: int
  co_failedCalls :: int
  co_activeCalls :: int
  co_retransmits :: int
  co_timeouts :: int
  co_totalDuration :: int
  co_inviteLatencies :: "int list"
  co_callLatency :: latencyAccumulator
  co_inviteLatency :: latencyAccumulator
  co_media :: MediaSummary
  co_perCallRtpMin :: "32 word option"
  co_mediaCalls :: int
  co_rtds :: "string \<Rightarrow> latencyAccumulator option"
  co_counters :: "string \<Rightarrow> int"
  co_displays :: "string \<Rightarrow> int"
  co_failureClasses :: "string \<Rightarrow> int"

definition newCollector :: "int \<Rightarrow> Collector" where
  "newCollector now =
     \<lparr>co_startedAt = now, co_totalCalls = 0, co_successCalls = 0, co_failedCalls = 0, co_activeCalls = 0, co_retransmits = 0,
      co_timeouts = 0, co_totalDuration = 0, co_inviteLatencies = [], co_callLatency = no_latency, co_inviteLatency = no_latency,
      co_media = no_media, co_perCallRtpMin = None, co_mediaCalls = 0, co_rtds = Map.empty, co_counters = (\<lambda>_. 0),
      co_displays = (\<lambda>_. 0), co_failureClasses = (\<lambda>_. 0)\<rparr>"

definition StartCall :: "Collector \<Rightarrow> Collector" where
  "StartCall c = c\<lparr>co_totalCalls := co_totalCalls c + 1, co_activeCalls := co_activeCalls c + 1\<rparr>"

definition FinishCall :: "bool \<Rightarrow> int \<Rightarrow> Collector \<Rightarrow> Collector" where
  "FinishCall success duration c =
     c\<lparr>co_activeCalls := co_activeCalls c - 1,
       co_successCalls := co_successCalls c + (if success then 1 else 0),
       co_failedCalls := co_failedCalls c + (if success then 0 else 1),
       co_totalDuration := wrap64 (co_totalDuration c + duration),
       co_callLatency := latency_add duration (co_callLatency c)\<rparr>"

definition AddInviteLatency :: "int \<Rightarrow> Collector \<Rightarrow> Collector" where
  "AddInviteLatency d c =
     c\<lparr>co_inviteLatencies := co_inviteLatencies c @ [d], co_inviteLatency := latency_add d (co_inviteLatency c)\<rparr>"

definition AddRetransmit :: "Collector \<Rightarrow> Collector" where
  "AddRetransmit c = c\<lparr>co_retransmits := co_retransmits c + 1\<rparr>"

definition AddTimeout :: "Collector \<Rightarrow> Collector" where
  "AddTimeout c = c\<lparr>co_timeouts := co_timeouts c + 1\<rparr>"

definition AddMediaStats :: "media_Stats \<Rightarrow> Collector \<Rightarrow> Collector" where
  "AddMediaStats v c =
     (let c1 = c\<lparr>co_media := add_media v (co_media c)\<rparr>; n = ms_RTPPacketsReceived v
      in if 0 < n
         then c1\<lparr>co_mediaCalls := co_mediaCalls c1 + 1,
                 co_perCallRtpMin := (case co_perCallRtpMin c1 of
                    None \<Rightarrow> Some n | Some low \<Rightarrow> if n < low then Some n else Some low)\<rparr>
         else c1)"

definition AddRTD :: "string \<Rightarrow> int \<Rightarrow> Collector \<Rightarrow> Collector" where
  "AddRTD name value c =
     (if name = [] \<or> value < 0 then c
      else c\<lparr>co_rtds := (co_rtds c)(name \<mapsto>
        latency_add value (case co_rtds c name of None \<Rightarrow> no_latency | Some acc \<Rightarrow> acc))\<rparr>)"

text \<open>A missing key of the counter maps reads as zero.\<close>

definition bump :: "string \<Rightarrow> (string \<Rightarrow> int) \<Rightarrow> string \<Rightarrow> int" where
  "bump name0 f = (let name = strings_TrimSpace name0 in if name = [] then f else f(name := f name + 1))"

definition AddCounter :: "string \<Rightarrow> Collector \<Rightarrow> Collector" where
  "AddCounter name c = c\<lparr>co_counters := bump name (co_counters c)\<rparr>"

definition AddDisplay :: "string \<Rightarrow> Collector \<Rightarrow> Collector" where
  "AddDisplay name c = c\<lparr>co_displays := bump name (co_displays c)\<rparr>"

definition AddFailureClass :: "string \<Rightarrow> Collector \<Rightarrow> Collector" where
  "AddFailureClass name c = c\<lparr>co_failureClasses := bump name (co_failureClasses c)\<rparr>"

record Summary =
  su_StartedAt :: int
  su_FinishedAt :: int
  su_Duration :: int
  su_TotalCalls :: int
  su_SuccessCalls :: int
  su_FailedCalls :: int
  su_ActiveCalls :: int
  su_SuccessRatio :: float64
  su_CallsPerSecond :: float64
  su_Retransmits :: int
  su_Timeouts :: int
  su_AverageCallLatency :: int
  su_AverageInviteRTT :: int
  su_CallLength :: "LatencySummary option"
  su_InviteRTT :: "LatencySummary option"
  su_Media :: MediaSummary
  su_RTD :: "string \<Rightarrow> LatencySummary option"
  su_Counters :: "string \<Rightarrow> int"
  su_Displays :: "string \<Rightarrow> int"
  su_FailureClasses :: "string \<Rightarrow> int"

text \<open>\<^verbatim>\<open>Duration.Seconds\<close> adds the whole seconds and the rest.\<close>

definition duration_Seconds :: "int \<Rightarrow> float64" where
  "duration_Seconds d =
     (let sec = quot d 1000000000
      in float_add (float_of_int sec) (float_div (float_of_int (d - sec * 1000000000)) (Fin 1000000000)))"

definition stats_Snapshot :: "(float64 \<Rightarrow> float64) \<Rightarrow> int \<Rightarrow> Collector \<Rightarrow> Summary" where
  "stats_Snapshot math_Sqrt now c =
     (let duration = now - co_startedAt c;
          finished = co_successCalls c + co_failedCalls c;
          ms = (finalizeMediaSummary (co_media c))\<lparr>mm_CallsWithRTPReceived := co_mediaCalls c\<rparr>
      in \<lparr>su_StartedAt = co_startedAt c, su_FinishedAt = now, su_Duration = duration, su_TotalCalls = co_totalCalls c,
          su_SuccessCalls = co_successCalls c, su_FailedCalls = co_failedCalls c, su_ActiveCalls = co_activeCalls c,
          su_SuccessRatio = (if 0 < co_totalCalls c
            then float_div (float_of_int (co_successCalls c)) (float_of_int (co_totalCalls c)) else Fin 0),
          su_CallsPerSecond = (if 0 < duration
            then float_div (float_of_int (co_totalCalls c)) (duration_Seconds duration) else Fin 0),
          su_Retransmits = co_retransmits c, su_Timeouts = co_timeouts c,
          su_AverageCallLatency = (if 0 < finished then quot (co_totalDuration c) finished else 0),
          su_AverageInviteRTT = (if co_inviteLatencies c \<noteq> []
            then quot (foldl (\<lambda>t d. wrap64 (t + d)) 0 (co_inviteLatencies c)) (int (length (co_inviteLatencies c))) else 0),
          su_CallLength = latency_snapshot math_Sqrt (co_callLatency c), su_InviteRTT = latency_snapshot math_Sqrt (co_inviteLatency c),
          su_Media = (case co_perCallRtpMin c of None \<Rightarrow> ms | Some low \<Rightarrow> ms\<lparr>mm_PerCallMinRTPPacketsReceived := low\<rparr>),
          su_RTD = (\<lambda>name. Option.bind (co_rtds c name) (latency_snapshot math_Sqrt)),
          su_Counters = co_counters c, su_Displays = co_displays c, su_FailureClasses = co_failureClasses c\<rparr>)"

section \<open>Health\<close>

record HealthConfig =
  hc_MinSuccessRatio :: float64
  hc_MaxFailedCalls :: int
  hc_MaxTimeouts :: int
  hc_MaxRTCPFractionLost :: float64
  hc_MaxRTCPJitterTS :: int
  hc_MinRTPPacketsRecv :: int
  hc_MinRTPPacketsRecvPerCall :: int

definition health_Active :: "HealthConfig \<Rightarrow> bool" where
  "health_Active h \<longleftrightarrow> float_lt (Fin 0) (hc_MinSuccessRatio h) \<or> 0 \<le> hc_MaxFailedCalls h \<or> 0 \<le> hc_MaxTimeouts h
     \<or> float_lt (Fin 0) (hc_MaxRTCPFractionLost h) \<or> 0 < hc_MaxRTCPJitterTS h \<or> 0 < hc_MinRTPPacketsRecv h
     \<or> 0 < hc_MinRTPPacketsRecvPerCall h"

text \<open>The reasons, with the numbers their text shows.\<close>

datatype reason =
    LowSuccess float64 float64 | TooManyFailed int int | TooManyTimeouts int int | TooLossy float64 float64
  | TooMuchJitter "32 word" int | TooFewPackets "32 word" int | NoCallWithRTP | WeakestCall "32 word" int

definition epsilon :: float64 where "epsilon = round64 (1 / 10 ^ 9)"

definition EvaluateHealth :: "HealthConfig \<Rightarrow> Summary \<Rightarrow> (bool \<times> reason list) option" where
  "EvaluateHealth h s =
     (if \<not> health_Active h then None
      else
        let m = su_Media s;
            reasons =
              (if float_lt (Fin 0) (hc_MinSuccessRatio h) \<and> float_lt (float_add (su_SuccessRatio s) epsilon) (hc_MinSuccessRatio h)
               then [LowSuccess (su_SuccessRatio s) (hc_MinSuccessRatio h)] else [])
              @ (if 0 \<le> hc_MaxFailedCalls h \<and> hc_MaxFailedCalls h < su_FailedCalls s
                 then [TooManyFailed (su_FailedCalls s) (hc_MaxFailedCalls h)] else [])
              @ (if 0 \<le> hc_MaxTimeouts h \<and> hc_MaxTimeouts h < su_Timeouts s
                 then [TooManyTimeouts (su_Timeouts s) (hc_MaxTimeouts h)] else [])
              @ (if float_lt (Fin 0) (hc_MaxRTCPFractionLost h)
                    \<and> float_lt (hc_MaxRTCPFractionLost h) (float_add (mm_RTCPMaxFractionLost m) epsilon)
                 then [TooLossy (mm_RTCPMaxFractionLost m) (hc_MaxRTCPFractionLost h)] else [])
              @ (if 0 < hc_MaxRTCPJitterTS h \<and> word_of_int (hc_MaxRTCPJitterTS h) < mm_RTCPMaxJitterTS m
                 then [TooMuchJitter (mm_RTCPMaxJitterTS m) (hc_MaxRTCPJitterTS h)] else [])
              @ (if 0 < hc_MinRTPPacketsRecv h \<and> mm_RTPPacketsReceived m < word_of_int (hc_MinRTPPacketsRecv h)
                 then [TooFewPackets (mm_RTPPacketsReceived m) (hc_MinRTPPacketsRecv h)] else [])
              @ (if 0 < hc_MinRTPPacketsRecvPerCall h
                 then (if mm_CallsWithRTPReceived m = 0 then [NoCallWithRTP]
                       else if mm_PerCallMinRTPPacketsReceived m < word_of_int (hc_MinRTPPacketsRecvPerCall h)
                       then [WeakestCall (mm_PerCallMinRTPPacketsReceived m) (hc_MinRTPPacketsRecvPerCall h)] else [])
                 else [])
        in Some (reasons = [], reasons))"

section \<open>What the collector has counted\<close>

datatype stats_op =
    OStart | OFinish bool int | OInvite int | ORetransmit | OTimeout | OMedia media_Stats | ORTD string int
  | OCounter string | ODisplay string | OFailure string

fun apply_stats :: "stats_op \<Rightarrow> Collector \<Rightarrow> Collector" where
  "apply_stats OStart c = StartCall c"
| "apply_stats (OFinish success d) c = FinishCall success d c"
| "apply_stats (OInvite d) c = AddInviteLatency d c"
| "apply_stats ORetransmit c = AddRetransmit c"
| "apply_stats OTimeout c = AddTimeout c"
| "apply_stats (OMedia v) c = AddMediaStats v c"
| "apply_stats (ORTD name d) c = AddRTD name d c"
| "apply_stats (OCounter name) c = AddCounter name c"
| "apply_stats (ODisplay name) c = AddDisplay name c"
| "apply_stats (OFailure name) c = AddFailureClass name c"

text \<open>The reference: the values that were recorded, in order.\<close>

fun finish_values :: "stats_op \<Rightarrow> int list" where
  "finish_values (OFinish success d) = [d]"
| "finish_values _ = []"

fun invite_values :: "stats_op \<Rightarrow> int list" where
  "invite_values (OInvite d) = [d]"
| "invite_values _ = []"

fun rtd_values :: "string \<Rightarrow> stats_op \<Rightarrow> int list" where
  "rtd_values name (ORTD n d) = (if n = name \<and> n \<noteq> [] \<and> 0 \<le> d then [d] else [])"
| "rtd_values name _ = []"

fun failure_names :: "stats_op \<Rightarrow> string list" where
  "failure_names (OFailure name) = (if strings_TrimSpace name = [] then [] else [strings_TrimSpace name])"
| "failure_names _ = []"

definition recorded :: "(stats_op \<Rightarrow> 'b list) \<Rightarrow> stats_op list \<Rightarrow> 'b list" where
  "recorded f ops = concat (map f ops)"

definition occurs :: "'a \<Rightarrow> 'a list \<Rightarrow> int" where
  "occurs x xs = int (length (filter (\<lambda>y. y = x) xs))"

definition summarises :: "latencyAccumulator \<Rightarrow> int list \<Rightarrow> bool" where
  "summarises a vs \<longleftrightarrow> la_count a = int (length vs) \<and> la_min a = (if vs = [] then 0 else Min (set vs))
     \<and> la_max a = Max (insert 0 (set vs)) \<and> la_last a = (if vs = [] then 0 else last vs)
     \<and> la_buckets a = map (\<lambda>i. occurs i (map latencyBucketIndex vs)) [0..<10]"

lemma recorded_snoc [simp]: "recorded f [] = []" "recorded f (ops @ [op]) = recorded f ops @ f op"
  by (simp_all add: recorded_def)

lemma occurs_simps [simp]: "occurs x [] = 0" "occurs x (xs @ [y]) = occurs x xs + (if y = x then 1 else 0)"
  by (simp_all add: occurs_def)

lemma bucket_from_bound: "bucket_from i ms bs \<le> i + length bs"
proof (induction bs arbitrary: i)
  case (Cons b bs)
  then show ?case using Cons.IH [of "Suc i"] by simp
qed simp

lemma latencyBucketIndex_bound: "latencyBucketIndex v < 10"
  using bucket_from_bound [of 0 "quot v 1000000" latencyBucketBoundsMS] by (simp add: latencyBucketIndex_def latencyBucketBoundsMS_def)

lemma summarises_none: "summarises no_latency []"
  by (simp add: summarises_def no_latency_def map_replicate_const)

lemma summarises_add:
  assumes "summarises a vs"
  shows "summarises (latency_add v a) (vs @ [v])"
proof -
  define low high where "low = Min (set vs)" and "high = Max (insert 0 (set vs))"
  have a: "la_count a = int (length vs)" "la_min a = (if vs = [] then 0 else low)" "la_max a = high"
    "la_buckets a = map (\<lambda>i. occurs i (map latencyBucketIndex vs)) [0..<10]"
    using assms by (simp_all only: summarises_def low_def high_def)
  have "(la_buckets a)[latencyBucketIndex v := la_buckets a ! latencyBucketIndex v + 1]
      = map (\<lambda>i. occurs i (map latencyBucketIndex (vs @ [v]))) [0..<10]"
    using latencyBucketIndex_bound [of v] by (intro nth_equalityI) (auto simp: a nth_list_update)
  moreover have "Min (set (vs @ [v])) = (if vs = [] then v else min v low)" by (simp add: low_def Min_insert)
  then have "(if la_count a + 1 = 1 \<or> v < la_min a then v else la_min a) = Min (set (vs @ [v]))" by (simp add: a min_def)
  moreover have "Max (insert 0 (set (vs @ [v]))) = max v high"
    unfolding high_def by (subst Max_insert [symmetric]) (simp_all add: insert_commute)
  then have "(if la_max a < v then v else la_max a) = Max (insert 0 (set (vs @ [v])))" by (simp add: a max_def)
  ultimately show ?thesis using a(1) by (simp add: summarises_def latency_add_def Let_def)
qed

definition counts_of :: "stats_op list \<Rightarrow> Collector \<Rightarrow> bool" where
  "counts_of ops c \<longleftrightarrow> co_totalCalls c = occurs OStart ops
     \<and> co_successCalls c = int (length (filter (\<lambda>op. \<exists>d. op = OFinish True d) ops))
     \<and> co_failedCalls c = int (length (filter (\<lambda>op. \<exists>d. op = OFinish False d) ops))
     \<and> co_activeCalls c = co_totalCalls c - co_successCalls c - co_failedCalls c
     \<and> co_retransmits c = occurs ORetransmit ops \<and> co_timeouts c = occurs OTimeout ops"

definition latencies_of :: "stats_op list \<Rightarrow> Collector \<Rightarrow> bool" where
  "latencies_of ops c \<longleftrightarrow> summarises (co_callLatency c) (recorded finish_values ops)
     \<and> summarises (co_inviteLatency c) (recorded invite_values ops) \<and> co_inviteLatencies c = recorded invite_values ops
     \<and> (\<forall>name. summarises (case co_rtds c name of None \<Rightarrow> no_latency | Some acc \<Rightarrow> acc) (recorded (rtd_values name) ops))
     \<and> (\<forall>name. co_failureClasses c name = occurs name (recorded failure_names ops))"

lemmas stats_op_defs = StartCall_def FinishCall_def AddInviteLatency_def AddRetransmit_def AddTimeout_def AddMediaStats_def
  AddRTD_def AddCounter_def AddDisplay_def AddFailureClass_def Let_def

lemma apply_counts: "counts_of ops c \<Longrightarrow> counts_of (ops @ [op]) (apply_stats op c)"
  by (cases op) (auto simp: counts_of_def stats_op_defs split: option.splits)

lemma apply_latencies: "latencies_of ops c \<Longrightarrow> latencies_of (ops @ [op]) (apply_stats op c)"
  by (cases op) (auto simp: latencies_of_def stats_op_defs bump_def summarises_add split: option.splits)


text \<open>A run passes its checks exactly when there is no reason against it, and every reason comes from a configured check.\<close>

lemma EvaluateHealth_pass: "EvaluateHealth h s = Some (pass, reasons) \<Longrightarrow> pass \<longleftrightarrow> reasons = []"
  by (auto simp: EvaluateHealth_def Let_def split: if_splits)

text \<open>The zero configuration, which stands for no options, is active: one failed call fails the run.\<close>

lemma health_zero_active:
  "health_Active \<lparr>hc_MinSuccessRatio = Fin 0, hc_MaxFailedCalls = 0, hc_MaxTimeouts = 0, hc_MaxRTCPFractionLost = Fin 0,
     hc_MaxRTCPJitterTS = 0, hc_MinRTPPacketsRecv = 0, hc_MinRTPPacketsRecvPerCall = 0\<rparr>"
  by (simp add: health_Active_def)

end
