(* ===== verification/Rtp.thy ===== *)
theory Rtp
  imports MediaFiles Stats
begin

text \<open>
  RTP streams, \<^verbatim>\<open>internal/media/media.go\<close> and \<^verbatim>\<open>rtcp_ingest.go\<close>: the specification of a stream, the statistics a
  session keeps about the packets it receives, and what it reports to the peer.  Unmarshalling packets and SRTP are
  other packages and appear as parameters; time is in nanoseconds, \<open>None\<close> is the zero time.
\<close>

section \<open>The specification of a stream\<close>

record StreamConfig =
  sc_PayloadType :: byte
  sc_PayloadName :: string
  sc_SSRC :: "32 word"
  sc_Sequence :: "16 word"
  sc_Timestamp :: "32 word"
  sc_ClockRate :: nat
  sc_SamplesPerPkt :: nat
  sc_PacketDuration :: int
  sc_LoopCount :: int
  sc_Path :: string
  sc_Synthetic :: bool
  sc_Duration :: int
  sc_Channels :: byte
  sc_MicInput :: string

definition ms_nanos :: int where "ms_nanos = 1000000"

text \<open>\<open>rnd\<close> holds the random SSRC, sequence number and timestamp.\<close>

definition DefaultConfig :: "32 word \<times> 16 word \<times> 32 word \<Rightarrow> string \<Rightarrow> StreamConfig" where
  "DefaultConfig rnd path =
     \<lparr>sc_PayloadType = 0, sc_PayloadName = ''PCMU/8000'', sc_SSRC = fst rnd, sc_Sequence = fst (snd rnd),
      sc_Timestamp = snd (snd rnd), sc_ClockRate = 8000, sc_SamplesPerPkt = 160, sc_PacketDuration = 20 * ms_nanos,
      sc_LoopCount = 1, sc_Path = path, sc_Synthetic = False, sc_Duration = 0, sc_Channels = 0, sc_MicInput = []\<rparr>"

text \<open>Payload type, clock rate, samples per packet and packet duration of the names the code knows.\<close>

definition payload_table :: "(string \<times> byte \<times> nat \<times> nat \<times> int) list" where
  "payload_table =
     [(''PCMA/8000'', 8, 8000, 160, 20), (''PCMU/8000'', 0, 8000, 160, 20), (''G722/8000'', 9, 8000, 160, 20),
      (''ILBC/8000'', 97, 8000, 240, 30), (''H264/90000'', 96, 90000, 3000, 33), (''OPUS/48000'', 111, 48000, 960, 20)]"

definition ApplyPayloadParams :: "string \<Rightarrow> StreamConfig \<Rightarrow> StreamConfig" where
  "ApplyPayloadParams payloadName0 cfg =
     (let payloadName = strings_ToUpper (strings_TrimSpace payloadName0)
      in if payloadName = [] then cfg
         else
           let cfg1 = cfg\<lparr>sc_PayloadName := payloadName\<rparr>
           in case find (\<lambda>row. strings_HasPrefix payloadName (fst row)) payload_table of
                None \<Rightarrow> cfg1
              | Some (_, pt, rate, samples, ms) \<Rightarrow>
                  cfg1\<lparr>sc_PayloadType := pt, sc_ClockRate := rate, sc_SamplesPerPkt := samples,
                       sc_PacketDuration := ms * ms_nanos\<rparr>)"

text \<open>\<^verbatim>\<open>fmt.Sscanf\<close> with \<^verbatim>\<open>%d\<close> on a trimmed text: a sign and digits, whatever follows; \<open>None\<close> leaves the variable alone.\<close>

definition sscanf_d :: "string \<Rightarrow> int option" where
  "sscanf_d s =
     (let (neg, rest) = (case s of [] \<Rightarrow> (False, []) | c # t \<Rightarrow> if c = CHR ''-'' then (True, t) else if c = CHR ''+'' then (False, t) else (False, s));
          digits = takeWhile (\<lambda>c. digit_val c \<noteq> None) rest
      in case strconv_Atoi ((if neg then [CHR ''-''] else []) @ digits) of (v, None) \<Rightarrow> Some v | _ \<Rightarrow> None)"

definition scan_or :: "int \<Rightarrow> string list \<Rightarrow> nat \<Rightarrow> int" where
  "scan_or dflt parts i =
     (if length parts \<le> i then dflt
      else case sscanf_d (strings_TrimSpace (parts ! i)) of None \<Rightarrow> dflt | Some v \<Rightarrow> v)"

datatype stream_cmd = StreamControl string | StreamMic StreamConfig | StreamStart StreamConfig

definition payload_part :: "string list \<Rightarrow> StreamConfig \<Rightarrow> StreamConfig" where
  "payload_part parts cfg =
     (let cfg1 = (if 2 < length parts then cfg\<lparr>sc_PayloadType := word_of_int (scan_or 0 parts 2)\<rparr> else cfg)
      in ApplyPayloadParams (if 3 < length parts then strings_TrimSpace (parts ! 3) else sc_PayloadName cfg1) cfg1)"

text \<open>An empty path is the error of the code.\<close>

definition ParseRTPStreamSpec ::
  "32 word \<times> 16 word \<times> 32 word \<Rightarrow> string \<Rightarrow> string \<Rightarrow> stream_cmd option" where
  "ParseRTPStreamSpec rnd spec0 basePath =
     (let spec = strings_TrimSpace spec0; low = strings_ToLower spec
      in if low \<in> {''pause'', ''resume'', ''stop'', ''echo''} then Some (StreamControl low)
         else
           let parts = strings_Split spec '',''; first = strings_TrimSpace (hd parts); lowFirst = strings_ToLower first
           in if first = [] then None
              else if lowFirst = ''mic'' \<or> lowFirst = ''microphone'' then
                Some (StreamMic (if 1 < length parts
                  then (DefaultConfig rnd [])\<lparr>sc_MicInput := strings_TrimSpace (strings_Join (tl parts) '','')\<rparr>
                  else DefaultConfig rnd []))
              else if lowFirst = ''synthetic'' then
                let cfg = payload_part parts ((DefaultConfig rnd [])\<lparr>sc_Synthetic := True\<rparr>);
                    freqMs = scan_or 0 parts 4; durMs = scan_or 0 parts 5; ch = scan_or 0 parts 6
                in Some (StreamStart (cfg\<lparr>
                     sc_PacketDuration := (if 0 < freqMs then wrap64 (freqMs * ms_nanos) else sc_PacketDuration cfg),
                     sc_Duration := (if 0 < durMs then wrap64 (durMs * ms_nanos) else sc_Duration cfg),
                     sc_Channels := (if 0 < ch then word_of_int ch else sc_Channels cfg)\<rparr>))
              else
                let cfg = DefaultConfig rnd (ResolvePath basePath first)
                in Some (StreamStart (payload_part parts (cfg\<lparr>sc_LoopCount := scan_or (sc_LoopCount cfg) parts 1\<rparr>))))"

text \<open>
  A payload name the table knows decides the payload type; the explicit one is kept only for other names, although it
  is written first.  Without a name the default \<^verbatim>\<open>PCMU/8000\<close> decides, so an explicit type alone has no effect.
\<close>

lemma payload_type_alone:
  assumes "length parts = 3" and "sc_PayloadName cfg = ''PCMU/8000''"
  shows "sc_PayloadType (payload_part parts cfg) = 0"
proof -
  have "find (\<lambda>row. strings_HasPrefix ''PCMU/8000'' (fst row)) payload_table = Some (''PCMU/8000'', 0, 8000, 160, 20)"
    by (simp add: payload_table_def strings_HasPrefix_def)
  moreover have "strings_ToUpper (strings_TrimSpace ''PCMU/8000'') = ''PCMU/8000''" by code_simp
  ultimately show ?thesis using assms by (simp add: payload_part_def ApplyPayloadParams_def Let_def)
qed

section \<open>Reception\<close>

record receiver =
  rr_SSRC :: "32 word"
  rr_HasFirst :: bool
  rr_FirstSeq :: "16 word"
  rr_ExtHighSeq :: "32 word"
  rr_Received :: "32 word"
  rr_Lost :: "32 word"
  rr_Jitter :: float64
  rr_ClockRate :: "32 word"
  rr_TSPrev :: "32 word"
  rr_ArrivalPrev :: "int option"
  rr_LastSRNTP :: "32 word"
  rr_LastSRAt :: "int option"

definition rrReset :: receiver where
  "rrReset = \<lparr>rr_SSRC = 0, rr_HasFirst = False, rr_FirstSeq = 0, rr_ExtHighSeq = 0, rr_Received = 0, rr_Lost = 0,
     rr_Jitter = Fin 0, rr_ClockRate = 0, rr_TSPrev = 0, rr_ArrivalPrev = None, rr_LastSRNTP = 0, rr_LastSRAt = None\<rparr>"

record media_session =
  me_rr :: receiver
  me_stats :: media_Stats
  me_rec :: recording

definition float_to_uint32 :: "float64 \<Rightarrow> 32 word" where
  "float_to_uint32 f = word_of_int (float_to_int64 f)"

definition observe_first :: "rtp_packet \<Rightarrow> int \<Rightarrow> receiver \<Rightarrow> receiver" where
  "observe_first pkt now r =
     r\<lparr>rr_SSRC := rp_SSRC pkt, rr_FirstSeq := rp_SequenceNumber pkt, rr_ExtHighSeq := ucast (rp_SequenceNumber pkt),
       rr_TSPrev := rp_Timestamp pkt, rr_ArrivalPrev := Some now, rr_HasFirst := True, rr_Received := 1\<rparr>"

text \<open>The sequence number, the count and the loss.\<close>

definition observe_seq :: "rtp_packet \<Rightarrow> receiver \<Rightarrow> receiver" where
  "observe_seq pkt r =
     (let diff = rp_SequenceNumber pkt - ucast (rr_ExtHighSeq r);
          high = (if 0 < sint diff then rr_ExtHighSeq r + word_of_int (sint diff) else rr_ExtHighSeq r);
          received = rr_Received r + 1;
          expected = high - ucast (rr_FirstSeq r) + 1;
          lost = expected - received
      in r\<lparr>rr_ExtHighSeq := high, rr_Received := received, rr_Lost := (if sint lost < 0 then 0 else lost)\<rparr>)"

definition float_abs :: "float64 \<Rightarrow> float64" where
  "float_abs d = (if float_lt d (Fin 0) then float_neg d else d)"

definition observe_jitter :: "rtp_packet \<Rightarrow> int \<Rightarrow> receiver \<Rightarrow> receiver" where
  "observe_jitter pkt now r =
     (case rr_ArrivalPrev r of
        None \<Rightarrow> r
      | Some prev \<Rightarrow>
          let elapsed = duration_Seconds (now - prev);
              tsDelta = float_of_int (sint (rp_Timestamp pkt - rr_TSPrev r));
              rate = (if rr_ClockRate r = 0 \<and> float_lt (round64 (1 / 1000)) elapsed \<and> float_lt (Fin 0) tsDelta
                      then float_to_uint32 (float_div tsDelta elapsed) else rr_ClockRate r)
          in if 0 < rate then
               let d = float_abs (float_sub (float_mult elapsed (float_of_int (uint rate))) tsDelta)
               in r\<lparr>rr_ClockRate := rate,
                    rr_Jitter := float_add (rr_Jitter r) (float_div (float_sub d (rr_Jitter r)) (Fin 16))\<rparr>
             else r\<lparr>rr_ClockRate := rate\<rparr>)"

definition observe_stats :: "receiver \<Rightarrow> media_Stats \<Rightarrow> media_Stats" where
  "observe_stats r st =
     (let j = float_to_uint32 (rr_Jitter r)
      in st\<lparr>ms_RTPRecvMaxCumulativeLost :=
              (if ms_RTPRecvMaxCumulativeLost st < rr_Lost r then rr_Lost r else ms_RTPRecvMaxCumulativeLost st),
            ms_RTPRecvInterarrivalJitterPeak :=
              (if ms_RTPRecvInterarrivalJitterPeak st < j then j else ms_RTPRecvInterarrivalJitterPeak st)\<rparr>)"

definition observeRTPPacket :: "rtp_packet \<Rightarrow> int \<Rightarrow> media_session \<Rightarrow> media_session" where
  "observeRTPPacket pkt now s =
     (let r = me_rr s
      in if \<not> rr_HasFirst r then s\<lparr>me_rr := observe_first pkt now r\<rparr>
         else if rp_SSRC pkt \<noteq> rr_SSRC r then s
         else
           let r1 = observe_jitter pkt now (observe_seq pkt r)
           in s\<lparr>me_rr := r1\<lparr>rr_TSPrev := rp_Timestamp pkt, rr_ArrivalPrev := Some now\<rparr>,
                me_stats := observe_stats r1 (me_stats s)\<rparr>)"

section \<open>RTCP\<close>

record reception_report =
  rx_FractionLost :: byte
  rx_TotalLost :: "32 word"
  rx_LastSequenceNumber :: "32 word"
  rx_Jitter :: "32 word"
  rx_LastSenderReport :: "32 word"
  rx_Delay :: "32 word"
  rx_SSRC :: "32 word"

datatype rtcp_packet = SenderReport "64 word" | ReceiverReport "reception_report list" | OtherRTCP

definition buildReceiverReport :: "int \<Rightarrow> receiver \<Rightarrow> reception_report list" where
  "buildReceiverReport now r =
     (if \<not> rr_HasFirst r then []
      else
        let expected = rr_ExtHighSeq r - ucast (rr_FirstSeq r) + 1;
            f = float_div (float_of_int (sint (rr_Lost r))) (float_of_int (uint expected));
            f1 = (if float_lt (Fin 1) f then Fin 1 else f)
        in [\<lparr>rx_FractionLost = (if 0 < expected \<and> 0 < sint (rr_Lost r)
                then word_of_int (float_to_int64 (float_mult f1 (Fin 256))) else 0),
              rx_TotalLost = rr_Lost r, rx_LastSequenceNumber = rr_ExtHighSeq r, rx_Jitter = float_to_uint32 (rr_Jitter r),
              rx_LastSenderReport = rr_LastSRNTP r,
              rx_Delay = (case rr_LastSRAt r of
                 None \<Rightarrow> 0 | Some t \<Rightarrow> float_to_uint32 (float_mult (duration_Seconds (now - t)) (Fin 65536))),
              rx_SSRC = rr_SSRC r\<rparr>])"

definition report_block :: "media_Stats \<Rightarrow> reception_report \<Rightarrow> media_Stats" where
  "report_block st rep =
     st\<lparr>ms_RTCPReportBlocks := ms_RTCPReportBlocks st + 1,
        ms_RTCPMaxFractionLost := (if ms_RTCPMaxFractionLost st < rx_FractionLost rep then rx_FractionLost rep else ms_RTCPMaxFractionLost st),
        ms_RTCPMaxJitter := (if ms_RTCPMaxJitter st < rx_Jitter rep then rx_Jitter rep else ms_RTCPMaxJitter st),
        ms_RTCPMinJitter := (if 0 < rx_Jitter rep \<and> (ms_RTCPMinJitter st = 0 \<or> rx_Jitter rep < ms_RTCPMinJitter st)
           then rx_Jitter rep else ms_RTCPMinJitter st),
        ms_RTCPJitterSum := float_add (ms_RTCPJitterSum st) (float_of_int (uint (rx_Jitter rep))),
        ms_RTCPJitterSamples := ms_RTCPJitterSamples st + 1\<rparr>"

fun ingest_rtcp :: "int \<Rightarrow> media_session \<Rightarrow> rtcp_packet \<Rightarrow> media_session" where
  "ingest_rtcp now s (SenderReport ntp) =
     s\<lparr>me_stats := (me_stats s)\<lparr>ms_RTCPSenderReports := ms_RTCPSenderReports (me_stats s) + 1\<rparr>,
       me_rr := (me_rr s)\<lparr>rr_LastSRNTP := ucast (drop_bit 16 ntp), rr_LastSRAt := Some now\<rparr>\<rparr>"
| "ingest_rtcp now s (ReceiverReport reps) =
     s\<lparr>me_stats := foldl report_block
         ((me_stats s)\<lparr>ms_RTCPReceiverReports := ms_RTCPReceiverReports (me_stats s) + 1\<rparr>) reps\<rparr>"
| "ingest_rtcp now s OtherRTCP = s"

definition processInboundRTCPPayload ::
  "(byte list \<Rightarrow> rtcp_packet list option) \<Rightarrow> int \<Rightarrow> byte list \<Rightarrow> media_session \<Rightarrow> media_session" where
  "processInboundRTCPPayload unmarshal now buf s =
     (case unmarshal buf of
        None \<Rightarrow> s
      | Some packets \<Rightarrow>
          foldl (ingest_rtcp now)
            (s\<lparr>me_stats := (me_stats s)\<lparr>ms_RTCPPacketsReceived := ms_RTCPPacketsReceived (me_stats s) + of_nat (length packets)\<rparr>\<rparr>)
            packets)"

definition isProbableRTCPPacket :: "byte list \<Rightarrow> bool" where
  "isProbableRTCPPacket b \<longleftrightarrow> \<not> length b < 8 \<and> drop_bit 6 (b ! 0) = 2 \<and> 192 \<le> b ! 1 \<and> b ! 1 \<le> 223"

text \<open>A packet that was received and unmarshalled.\<close>

definition received_packet :: "rtp_packet \<Rightarrow> int \<Rightarrow> media_session \<Rightarrow> media_session" where
  "received_packet pkt now s =
     (let s1 = observeRTPPacket pkt now s
      in s1\<lparr>me_stats := (me_stats s1)\<lparr>ms_RTPPacketsReceived := ms_RTPPacketsReceived (me_stats s1) + 1\<rparr>,
            me_rec := (if re_on (me_rec s1) then appendRecordInboundWithJitter pkt (me_rec s1) else me_rec s1)\<rparr>)"

definition handleInboundRTPPacketBuf ::
  "(byte list \<Rightarrow> rtp_packet option) \<Rightarrow> byte list \<Rightarrow> int \<Rightarrow> media_session \<Rightarrow> media_session" where
  "handleInboundRTPPacketBuf unmarshal buf now s =
     (case unmarshal buf of None \<Rightarrow> s | Some pkt \<Rightarrow> received_packet pkt now s)"

text \<open>
  One datagram in \<^verbatim>\<open>rtpReceiveLoop\<close>.  \<open>dec\<close> is the SRTP context with its functions \<^verbatim>\<open>DecryptRTP\<close> and \<^verbatim>\<open>DecryptRTCP\<close>.
\<close>

definition rtp_datagram ::
  "(byte list \<Rightarrow> rtp_packet option) \<Rightarrow> (byte list \<Rightarrow> rtcp_packet list option)
     \<Rightarrow> ((byte list \<Rightarrow> byte list option) \<times> (byte list \<Rightarrow> byte list option)) option
     \<Rightarrow> bool \<Rightarrow> byte list \<Rightarrow> int \<Rightarrow> media_session \<Rightarrow> media_session" where
  "rtp_datagram rtp rtcp dec rtcpMux buf now s =
     (case dec of
        Some (decryptRTP, decryptRTCP) \<Rightarrow>
          (case decryptRTP buf of
             Some plain \<Rightarrow> handleInboundRTPPacketBuf rtp plain now s
           | None \<Rightarrow>
               if rtcpMux then
                 (case decryptRTCP buf of None \<Rightarrow> s | Some plain \<Rightarrow> processInboundRTCPPayload rtcp now plain s)
               else s)
      | None \<Rightarrow>
          if rtcpMux \<and> isProbableRTCPPacket buf then processInboundRTCPPayload rtcp now buf s
          else handleInboundRTPPacketBuf rtp buf now s)"

section \<open>What the receiver knows\<close>

text \<open>
  \<open>pk i\<close> is packet \<open>i\<close> of one source; \<open>near is\<close> says that each packet arrives less than half the range of the
  sequence number away from the highest packet before it.
\<close>

definition source :: "(nat \<Rightarrow> rtp_packet) \<Rightarrow> 32 word \<Rightarrow> 16 word \<Rightarrow> bool" where
  "source pk ssrc n \<longleftrightarrow> (\<forall>i. rp_SSRC (pk i) = ssrc \<and> rp_SequenceNumber (pk i) = n + of_nat i)"

fun near :: "nat \<Rightarrow> nat list \<Rightarrow> bool" where
  "near high [] \<longleftrightarrow> True"
| "near high (i # is) \<longleftrightarrow> i < high + 2 ^ 15 \<and> high \<le> i + 2 ^ 15 \<and> near (max high i) is"

definition observe_all :: "(nat \<Rightarrow> rtp_packet) \<Rightarrow> (nat \<times> int) list \<Rightarrow> media_session \<Rightarrow> media_session" where
  "observe_all pk arrivals s = foldl (\<lambda>s (i, now). observeRTPPacket (pk i) now s) s arrivals"

definition knows :: "32 word \<Rightarrow> 16 word \<Rightarrow> nat \<Rightarrow> nat \<Rightarrow> receiver \<Rightarrow> bool" where
  "knows ssrc n high cnt r \<longleftrightarrow> rr_HasFirst r \<and> rr_SSRC r = ssrc \<and> rr_FirstSeq r = n
     \<and> rr_ExtHighSeq r = ucast n + of_nat high \<and> rr_Received r = of_nat cnt \<and> rr_Lost r = of_nat (high + 1 - cnt)"

lemma observe_jitter_frame:
  "rr_HasFirst (observe_jitter pkt now r) = rr_HasFirst r" "rr_SSRC (observe_jitter pkt now r) = rr_SSRC r"
  "rr_FirstSeq (observe_jitter pkt now r) = rr_FirstSeq r" "rr_ExtHighSeq (observe_jitter pkt now r) = rr_ExtHighSeq r"
  "rr_Received (observe_jitter pkt now r) = rr_Received r" "rr_Lost (observe_jitter pkt now r) = rr_Lost r"
  by (simp_all add: observe_jitter_def Let_def split: option.split)

text \<open>The signed difference of two sequence numbers less than half the range apart.\<close>

lemma seq_diff:
  assumes "i < high + 2 ^ 15" and "high \<le> i + 2 ^ 15"
  shows "sint ((n + of_nat i) - ucast (ucast n + of_nat high :: 32 word) :: 16 word) = int i - int high"
proof -
  have "ucast (ucast n + of_nat high :: 32 word) = (n + of_nat high :: 16 word)"
    by (simp add: word_uint_eq_iff unsigned_ucast_eq uint_word_ariths unsigned_of_nat take_bit_eq_mod mod_mod_cancel mod_simps zmod_int)
  then have "(n + of_nat i) - ucast (ucast n + of_nat high :: 32 word) = (word_of_int (int i - int high) :: 16 word)"
    by simp
  also have "sint (word_of_int (int i - int high) :: 16 word) = int i - int high"
    using assms by (simp only: signed_of_int) (simp add: signed_take_bit_int_eq_self)
  finally show ?thesis .
qed

lemma signed_small: "- (2 ^ 31) \<le> k \<Longrightarrow> k < 2 ^ 31 \<Longrightarrow> sint (word_of_int k :: 32 word) = k"
  by (simp only: signed_of_int) (simp add: signed_take_bit_int_eq_self)

lemma observe_seq_knows:
  assumes "knows ssrc n high cnt r" and "rp_SequenceNumber pkt = n + of_nat i"
    and "i < high + 2 ^ 15" and "high \<le> i + 2 ^ 15" and "max high i + 1 < 2 ^ 31" and "cnt + 1 < 2 ^ 31"
  shows "knows ssrc n (max high i) (cnt + 1) (observe_seq pkt r)"
proof -
  from assms(1) have r: "rr_HasFirst r" "rr_SSRC r = ssrc" "rr_FirstSeq r = n" "rr_ExtHighSeq r = ucast n + of_nat high"
    "rr_Received r = of_nat cnt" by (simp_all add: knows_def)
  define diff where "diff = rp_SequenceNumber pkt - ucast (rr_ExtHighSeq r)"
  have diff: "sint diff = int i - int high" unfolding diff_def assms(2) r(4) by (rule seq_diff [OF assms(3,4)])
  have high: "(if 0 < sint diff then rr_ExtHighSeq r + word_of_int (sint diff) else rr_ExtHighSeq r) = ucast n + of_nat (max high i)"
    by (simp add: diff r(4) max_def of_nat_diff)
  define lost where "lost = (ucast n + of_nat (max high i)) - ucast n + 1 - (of_nat cnt + 1 :: 32 word)"
  have "lost = word_of_int (int (max high i) - int cnt)" by (simp add: lost_def)
  then have lost: "sint lost = int (max high i) - int cnt" 
    using assms(5,6) by (simp only:) (rule signed_small, auto simp: max_def)
  have clipped: "(if sint lost < 0 then 0 else lost) = of_nat (max high i - cnt)"
  proof (cases "sint lost < 0")
    case False
    then have "cnt \<le> max high i" using lost by linarith
    then show ?thesis using False by (simp add: lost_def of_nat_diff)
  next
    case True
    then have "max high i - cnt = 0" using lost by linarith
    with True show ?thesis by simp
  qed
  have "observe_seq pkt r = r\<lparr>rr_ExtHighSeq := ucast n + of_nat (max high i), rr_Received := of_nat cnt + 1,
      rr_Lost := of_nat (max high i - cnt)\<rparr>"
    unfolding observe_seq_def Let_def diff_def [symmetric] high unfolding r(3,5) lost_def [symmetric] clipped by (rule refl)
  with r show ?thesis by (simp add: knows_def)
qed

lemma observe_all_knows:
  assumes "source pk ssrc n" and "knows ssrc n high cnt (me_rr s)" and "near high (map fst arrivals)"
    and "\<forall>i \<in> set (map fst arrivals). i + 1 < 2 ^ 31" and "high + 1 < 2 ^ 31" and "cnt + length arrivals < 2 ^ 31"
  shows "knows ssrc n (foldl max high (map fst arrivals)) (cnt + length arrivals) (me_rr (observe_all pk arrivals s))"
  using assms(2-)
proof (induction arrivals arbitrary: high cnt s)
  case (Cons a arrivals)
  obtain i now where a: "a = (i, now)" by fastforce
  let ?s = "observeRTPPacket (pk i) now s"
  have "knows ssrc n (max high i) (cnt + 1) (observe_seq (pk i) (me_rr s))"
    using Cons.prems assms(1) by (intro observe_seq_knows) (simp_all add: a source_def)
  then have "knows ssrc n (max high i) (cnt + 1) (me_rr ?s)"
    using Cons.prems(1) assms(1) by (simp add: observeRTPPacket_def Let_def knows_def source_def observe_jitter_frame)
  from Cons.IH [OF this] Cons.prems show ?case by (simp add: a observe_all_def)
qed (simp add: observe_all_def)

text \<open>
  C40: The reception statistics are exact, also when the sequence number wraps around many times: after
  packets of one source in any order and with any losses, as long as each lies less than half the number range
  from the highest before it, the extended highest number is that of the latest packet and the reported loss is
  the number of packets up to it less the number received (duplicates counted, and never below zero).
\<close>
theorem receiver_exact:
  fixes now :: int
  assumes "source pk ssrc n" and "near 0 (map fst arrivals)" and "\<forall>i \<in> set (map fst arrivals). i + 1 < 2 ^ 31"
    and "length arrivals + 1 < 2 ^ 31" and "\<not> rr_HasFirst (me_rr s)" and "rr_Lost (me_rr s) = 0"
  defines "r \<equiv> me_rr (observe_all pk ((0, now) # arrivals) s)" and "high \<equiv> foldl max 0 (map fst arrivals)"
  shows "rr_ExtHighSeq r = ucast n + of_nat high \<and> rr_Received r = of_nat (length arrivals + 1)
    \<and> rr_Lost r = of_nat (high - length arrivals)"
proof -
  have "knows ssrc n 0 1 (me_rr (observeRTPPacket (pk 0) now s))"
    using assms(1,5,6) by (simp add: knows_def observeRTPPacket_def Let_def observe_first_def source_def)
  from observe_all_knows [OF assms(1) this assms(2,3)] assms(4) show ?thesis
    by (simp add: r_def high_def observe_all_def knows_def)
qed

definition sample_source :: "nat \<Rightarrow> rtp_packet" where
  "sample_source i = \<lparr>rp_PayloadType = 0, rp_SequenceNumber = 65534 + of_nat i, rp_Timestamp = 160 * of_nat i, rp_SSRC = 7,
     rp_Marker = False, rp_Payload = [1]\<rparr>"

definition no_stats :: media_Stats where
  "no_stats = \<lparr>ms_RTPPacketsSent = 0, ms_RTPOctetsSent = 0, ms_RTPPacketsReceived = 0, ms_RTCPSenderReports = 0,
     ms_RTCPReceiverReports = 0, ms_RTCPPacketsReceived = 0, ms_RTCPReportBlocks = 0, ms_RTCPMaxFractionLost = 0,
     ms_RTCPMaxJitter = 0, ms_RTCPMinJitter = 0, ms_RTPRecvMaxCumulativeLost = 0, ms_RTPRecvInterarrivalJitterPeak = 0,
     ms_RTCPJitterSum = Fin 0, ms_RTCPJitterSamples = 0\<rparr>"

definition sample_session :: media_session where
  "sample_session = \<lparr>me_rr = rrReset, me_stats = no_stats, me_rec = sample_recording\<rparr>"

theorem receiver_exact_witness:
  "rr_Lost (me_rr (observe_all sample_source [(0, 0), (4, 20), (2, 40)] sample_session)) = 2
   \<and> rr_ExtHighSeq (me_rr (observe_all sample_source [(0, 0), (4, 20), (2, 40)] sample_session)) = 65538"
  using receiver_exact [of sample_source 7 65534 "[(4, 20), (2, 40)]" sample_session 0]
  by (simp add: source_def sample_source_def sample_session_def rrReset_def)

end
