(* ===== verification/Spec2Isabelle.thy ===== *)
theory Spec2Isabelle
  imports SipStream Semaphore Call EventRing Server Client Rtp
begin

text \<open>
  A verification library of the SIP load generator \<^verbatim>\<open>gossipper\<close> (Go).

  \<^bold>\<open>The program.\<close>  A run reads an XML scenario, a list of send, receive, pause and action commands, and
  executes it for many calls at once, as a client that paces new calls or as a server that answers them.
  Received bytes are framed and parsed into pooled messages and routed to the inbox of their call by
  Call-ID.  Each call walks through the commands, renders templates, matches messages, retransmits, keeps
  variables, talks to other instances over a command bus, and reports to statistics, event log and a
  HEP collector.

  \<^bold>\<open>The theories\<close>, in the order in which they build on each other:

  \<^item> \<open>Prelude\<close>: Go strings and bytes, integers with wrap-around (\<open>wrap64\<close>), results with errors
    (\<open>('e, 'a) result\<close>, \<open>Inl\<close> is the error), the parts of \<^verbatim>\<open>strings\<close>, \<^verbatim>\<open>strconv\<close> and \<^verbatim>\<open>unicode\<close> that the
    code calls; \<open>Bytes\<close>: fixed-width integers as bytes; \<open>Float64\<close>: IEEE doubles as far as the code
    computes with them; \<open>Loops\<close>: loops that may not end, and the locale of functional refinement.
  \<^item> \<open>SipMessage\<close> (\<^verbatim>\<open>internal/sip/message.go\<close>): parser, pooled messages, header lookup, matching of
    responses, \<^verbatim>\<open>BuildResponse\<close>.  A header map is an association list, so its iteration order is
    explicit; the locale \<open>header_store\<close> is what parser and copies rely on.
  \<^item> \<open>SipStream\<close> (\<^verbatim>\<open>internal/sip/stream.go\<close>): framing by Content-Length on a byte stream.
  \<^item> \<open>SafePath\<close> (\<^verbatim>\<open>internal/safepath\<close>): file paths confined below a root.
  \<^item> \<open>Injection\<close> and \<open>Template\<close> (\<^verbatim>\<open>internal/template/render.go\<close>): CSV injection files and the rendering of
    keywords in two passes.
  \<^item> \<open>Distribution\<close> (\<^verbatim>\<open>internal/distribution\<close>) and \<open>Scenario\<close> (\<^verbatim>\<open>internal/scenario\<close>): pauses and the XML
    scenario with its labels.
  \<^item> \<open>VarStore\<close>, \<open>CommandBus\<close>, \<open>Semaphore\<close>, \<open>Outgoing\<close>, \<open>Actions\<close> (\<^verbatim>\<open>vars.go\<close>, \<^verbatim>\<open>command_bus.go\<close> and
    \<^verbatim>\<open>command_network.go\<close>, \<^verbatim>\<open>semaphore.go\<close>, \<^verbatim>\<open>auth.go\<close>, \<^verbatim>\<open>applyActions\<close> of \<^verbatim>\<open>internal/engine\<close>).
  \<^item> \<open>Recv\<close> and \<open>Call\<close> (\<^verbatim>\<open>waitForMatch\<close>, \<^verbatim>\<open>executeCall\<close> and all its commands in \<^verbatim>\<open>engine.go\<close>): the state of a
    call is the record \<open>call_state\<close>; its surroundings (clock, network, random numbers, context) are the
    record \<open>call_env\<close> of numbered answers, and the counters \<open>k_now\<close>, \<open>k_recv\<close> and so on of the state say
    which answer comes next.
  \<^item> \<open>Dispatch\<close> and \<open>Server\<close> (\<^verbatim>\<open>mailboxRegistry\<close>, the receive pumps and \<^verbatim>\<open>serverMultiCoordinator\<close> of
    \<^verbatim>\<open>engine.go\<close>): concurrent goroutines as inductive step relations, one step per critical section or
    channel operation.
  \<^item> \<open>Pacing\<close> (\<^verbatim>\<open>internal/scheduler\<close>) and \<open>Client\<close> (\<^verbatim>\<open>runClient\<close>, its loops, limits and identifiers in \<^verbatim>\<open>engine.go\<close>):
    the rate controller against goroutines that change it, and the loop that starts calls.
  \<^item> \<open>Stats\<close> (\<^verbatim>\<open>internal/stats\<close>): the collector, its snapshots and the health checks.
  \<^item> \<open>Recording\<close>, \<open>MediaFiles\<close> and \<open>Rtp\<close> (\<^verbatim>\<open>internal/media\<close>): G.711 decoding, both recorders, reordering, WAV
    files and telephone events; companding and the files that are played; stream specifications, reception
    statistics and received RTCP.
  \<^item> \<open>EventRing\<close> (\<^verbatim>\<open>internal/eventlog/ring.go\<close>) and \<open>Hep\<close> (\<^verbatim>\<open>hepcodec/codec.go\<close>).

  \<^bold>\<open>What is shown.\<close>  Messages: parsing is sound, pooling is invisible, built responses parse back and are
  accepted as answers to their request, and a stream of messages is framed exactly, also when it is cut
  short.  Calls: on every path each received message goes back to the pool exactly once, a call of a
  scenario without backward jumps returns whatever the peer does, and a wait returns the first message
  that matches.  Concurrency: the semaphore counts exactly and loses no wake-up, dispatch keeps the order
  of a call's messages, and the server's call numbers, limit and end are right in every interleaving.
  Load: a client run starts exactly the calls it should, the controller bursts by at most ten calls, and
  the statistics are those of the recorded values.  Recordings hold the frames of a stream in order
  and can be played again, mu-law coding loses at most half a step, and reception statistics count exactly
  across wrap-arounds.
  Data: rendering fills in the real body length, digest answers verify, CSV lookups and mutations,
  variables and the command bus read back what was written, HEP packets decode to what was encoded, and
  the event ring refines a bounded queue.  Files: no operation leaves its root.  Where the code does not
  do what it means to, the theorem states what it does (a length that panics, a cancellation that is
  missed, a start message that is overtaken, a recording that loses its tail, an A-law encoder that
  distorts).

  \<^bold>\<open>Bounds and loops.\<close>  Machine integers are \<open>int\<close> with \<open>wrap64\<close> where they can overflow and words where
  the code works bitwise.  No fuel is used: loops over data are total functions, the waiting loops and
  the command loop of a call are \<open>iterate\<close>, whose value \<open>None\<close> is a loop that does not end, and their
  termination is proved from a clock that advances.  The order of recorded frames is shown for up to fifty
  packets because the reorder buffer gives up after 48.

  \<^bold>\<open>Not modelled.\<close>  Sockets, TLS, WebSocket and WebRTC transports, the sending side of RTP sessions and audio devices, the HTTP
  API, the user stores, the terminal front ends, reports, process supervision and command line flags are
  input and output around the modelled parts or bindings of other packages.  Scanning SDP bodies is text
  processing on top of the functions in \<open>Prelude\<close> that no modelled part calls.  The XML decoder, regular
  expressions, hash functions, name resolution, clocks and random sources are parameters.
\<close>

end
